(* ===== verification/Prelude.thy ===== *)
theory Prelude
  imports Complex_Main
begin

text \<open>
  Shared vocabulary of the development: the exceptions of the Python code as values of one
  datatype, results as a sum of an exception and a value, the bind that threads them, and the
  generic list lemmas the component theories share.

  A Python function that may raise is modelled by a function into \<open>'a result\<close>; every
  \<open>raise\<close> the source can reach (its own or one of a built-in it calls) is an \<open>Inl\<close>.
\<close>

named_theorems float_eval \<open>equations that compute a binary64 operation on a closed rational\<close>
named_theorems wire_simps \<open>lengths and round trips of the byte codecs\<close>
named_theorems py_simps \<open>defining equations of the Python primitives, for closed evaluation\<close>

section \<open>Exceptions and results\<close>

datatype py_error =
    ZeroDivisionError
  | OverflowError
  | ValueError
  | TypeError
  | IndexError
  | KeyError
  | AttributeError
  | StructError
  | StatisticsError
  | TimeoutError
  | AssertionError
  | RuntimeError
  | OSError
  | KafkaException
  | GeneratorExit
  | CalledProcessError
  | ImportError
  | ConfigException
  | TimeoutExpired
  | BadZipFile
  | HTTPException nat
  | ApiException "int option"

type_synonym 'a result = "py_error + 'a"

fun rbind :: "'a result \<Rightarrow> ('a \<Rightarrow> 'b result) \<Rightarrow> 'b result" where
  "rbind (Inl e) f = Inl e"
| "rbind (Inr a) f = f a"

lemma rbind_eq_Inr [simp]: "rbind r f = Inr b \<longleftrightarrow> (\<exists>a. r = Inr a \<and> f a = Inr b)"
  by (cases r) auto

lemma rbind_assoc [simp]: "rbind (rbind r f) g = rbind r (\<lambda>a. rbind (f a) g)"
  by (cases r) auto

lemma rbind_cong [fundef_cong]:
  "r = r' \<Longrightarrow> (\<And>a. r' = Inr a \<Longrightarrow> f a = f' a) \<Longrightarrow> rbind r f = rbind r' f'"
  by (cases r') auto

fun rmap_list :: "('a \<Rightarrow> 'b result) \<Rightarrow> 'a list \<Rightarrow> 'b list result" where
  "rmap_list f [] = Inr []"
| "rmap_list f (x # xs) = rbind (f x) (\<lambda>y. rbind (rmap_list f xs) (\<lambda>ys. Inr (y # ys)))"

lemma rmap_list_Inr: "(\<And>x. x \<in> set xs \<Longrightarrow> f x = Inr (g x)) \<Longrightarrow> rmap_list f xs = Inr (map g xs)"
  by (induction xs) auto

lemma rmap_list_total:
  "(\<And>x. x \<in> set xs \<Longrightarrow> \<exists>y. f x = Inr y \<and> P y) \<Longrightarrow>
     \<exists>ys. rmap_list f xs = Inr ys \<and> length ys = length xs \<and> list_all P ys"
  by (induction xs) force+

lemma rmap_list_length: "rmap_list f xs = Inr ys \<Longrightarrow> length ys = length xs"
  by (induction xs arbitrary: ys) auto

section \<open>Lists\<close>

lemma take_while_prefix_sorted:
  "sorted xs \<Longrightarrow> dropWhile (\<lambda>x. x < c) xs = filter (\<lambda>x. \<not> x < c) xs"
  for c :: "'a :: linorder"
proof (induction xs)
  case Nil
  then show ?case by simp
next
  case (Cons x xs)
  have "filter (\<lambda>x. \<not> x < c) xs = xs" if "\<not> x < c"
    using that Cons.prems by (intro filter_True) auto
  with Cons show ?case by simp
qed

lemma sorted_nth_last: "sorted xs \<Longrightarrow> i < length xs \<Longrightarrow> xs ! i \<le> last xs"
  for xs :: "'a :: linorder list"
  by (subst last_conv_nth) (auto intro!: sorted_nth_mono)

lemma dropWhile_snoc_keep: "\<not> P s \<Longrightarrow> dropWhile P (ys @ [s]) = dropWhile P ys @ [s]"
  by (induction ys) auto

text \<open>Python indexing \<open>xs[i]\<close>: a negative index counts from the end, out of range raises.\<close>

definition py_index :: "'a list \<Rightarrow> int \<Rightarrow> 'a result" where
  "py_index xs i =
     (if - int (length xs) \<le> i \<and> i < int (length xs) then Inr (xs ! nat (i mod int (length xs)))
      else Inl IndexError)"

lemma py_index_nat: "0 \<le> i \<Longrightarrow> i < int (length xs) \<Longrightarrow> py_index xs i = Inr (xs ! nat i)"
  by (simp add: py_index_def)

lemma nondecreasing_adjacent:
  "(\<And>i. Suc i < length xs \<Longrightarrow> xs ! i \<le> xs ! Suc i) \<Longrightarrow> sorted xs"
  for xs :: "'a :: linorder list"
  by (simp add: sorted_iff_nth_Suc)

section \<open>Checked streams\<close>

text \<open>
  The loop that validates each event against a state and then accepts it, stopping at the first
  violation. Each event comes with the clock reading its acceptance takes.
\<close>

fun run_checked ::
  "('s \<Rightarrow> 'e \<Rightarrow> 'v option) \<Rightarrow> ('t \<Rightarrow> 's \<Rightarrow> 'e \<Rightarrow> 's) \<Rightarrow> 's \<Rightarrow> ('t \<times> 'e) list \<Rightarrow> 's \<times> 'v option" where
  "run_checked chk stp s [] = (s, None)"
| "run_checked chk stp s ((t, e) # xs) =
     (case chk s e of Some v \<Rightarrow> (s, Some v) | None \<Rightarrow> run_checked chk stp (stp t s e) xs)"

locale stream_validator =
  fixes chk :: "'s \<Rightarrow> 'e \<Rightarrow> 'v option"
    and stp :: "'t \<Rightarrow> 's \<Rightarrow> 'e \<Rightarrow> 's"
    and inv :: "'s \<Rightarrow> bool"
  assumes stp_inv: "inv s \<Longrightarrow> chk s e = None \<Longrightarrow> inv (stp t s e)"
begin

lemma run_inv: "inv s \<Longrightarrow> inv (fst (run_checked chk stp s xs))"
  by (induction xs arbitrary: s) (auto simp: stp_inv split: option.splits)

lemma run_append:
  "run_checked chk stp s (xs @ ys) =
     (case run_checked chk stp s xs of
        (s', None) \<Rightarrow> run_checked chk stp s' ys
      | (s', Some v) \<Rightarrow> (s', Some v))"
  by (induction xs arbitrary: s) (auto split: option.splits)

lemma run_accepts_prefix:
  "run_checked chk stp s (xs @ ys) = (s', None) \<Longrightarrow> snd (run_checked chk stp s xs) = None"
  by (auto simp: run_append split: prod.splits option.splits)

text \<open>The loop stops at the first violation and nowhere else.\<close>

lemma run_violation_split:
  "run_checked chk stp s xs = (s', Some v) \<Longrightarrow>
     \<exists>pre t e post. xs = pre @ (t, e) # post \<and> run_checked chk stp s pre = (s', None) \<and> chk s' e = Some v"
proof (induction xs arbitrary: s)
  case Nil
  then show ?case by simp
next
  case (Cons x xs)
  obtain t e where x: "x = (t, e)" by (cases x)
  show ?case
  proof (cases "chk s e")
    case (Some w)
    with Cons.prems x have "x # xs = [] @ (t, e) # xs" "run_checked chk stp s [] = (s', None)"
      "chk s' e = Some v" by simp_all
    then show ?thesis by blast
  next
    case None
    with Cons.prems x have "run_checked chk stp (stp t s e) xs = (s', Some v)" by simp
    from Cons.IH [OF this] obtain pre u f post where
      "xs = pre @ (u, f) # post" "run_checked chk stp (stp t s e) pre = (s', None)" "chk s' f = Some v"
      by blast
    with x None have "x # xs = (x # pre) @ (u, f) # post \<and>
        run_checked chk stp s (x # pre) = (s', None) \<and> chk s' f = Some v" by simp
    then show ?thesis by blast
  qed
qed

lemma run_first_violation:
  "run_checked chk stp s xs = (s', Some v) \<longleftrightarrow>
     (\<exists>pre t e post. xs = pre @ (t, e) # post \<and> run_checked chk stp s pre = (s', None) \<and> chk s' e = Some v)"
  using run_violation_split by (auto simp: run_append)

end

end
