(* ===== verification/Rounding.thy ===== *)
theory Rounding
  imports Prelude
begin

text \<open>
  Rounding of exact rationals, the arithmetic core under every \<open>float\<close> of the Python code.
  \<open>round_half_even\<close> rounds to an integer with ties to even; \<open>rnd\<close> rounds to the nearest
  binary64 value (53 significant bits, smallest exponent -1074, no overflow yet, which
  \<open>to_f64\<close> of \<^theory_text>\<open>Float64\<close> adds); \<open>dec_round n\<close> rounds to \<open>n\<close> decimals, as the
  built-in \<open>round(x, n)\<close> does before it converts back to a float.

  The interface the other theories use is the locale \<open>rounding\<close> (monotone and idempotent)
  and its extension \<open>odd_rounding\<close>; both are interpreted here on the two roundings.
\<close>

section \<open>Bit lengths and rounding to integers\<close>

fun bit_len :: "nat \<Rightarrow> nat" where
  "bit_len n = (if n = 0 then 0 else Suc (bit_len (n div 2)))"

declare bit_len.simps [simp del]

lemma bit_len_0 [simp]: "bit_len 0 = 0"
  by (simp add: bit_len.simps)

lemma bit_len_pos: "0 < n \<Longrightarrow> bit_len n = Suc (bit_len (n div 2))"
  by (simp add: bit_len.simps [of n])

lemma bit_len_numeral [simp]:
  "bit_len (Suc 0) = 1"
  "bit_len 1 = 1"
  "bit_len (numeral num.One) = 1"
  "bit_len (numeral (num.Bit0 w)) = Suc (bit_len (numeral w))"
  "bit_len (numeral (num.Bit1 w)) = Suc (bit_len (numeral w))"
  by (simp_all add: bit_len_pos)

lemma bit_len_bounds: "0 < n \<Longrightarrow> 2 ^ (bit_len n - 1) \<le> n \<and> n < 2 ^ bit_len n"
proof (induction n rule: bit_len.induct)
  case (1 n)
  show ?case
  proof (cases "n = 1")
    case True
    then show ?thesis by simp
  next
    case False
    with 1 have IH: "2 ^ (bit_len (n div 2) - 1) \<le> n div 2" "n div 2 < 2 ^ bit_len (n div 2)"
      by auto
    have "0 < n div 2" using False 1 by simp
    then have "bit_len (n div 2) \<noteq> 0" using IH(2) by (cases "bit_len (n div 2)") auto
    then obtain k where "bit_len (n div 2) = Suc k" using not0_implies_Suc by blast
    moreover have "p \<le> n div 2 \<Longrightarrow> n div 2 < 2 * p \<Longrightarrow> 2 * p \<le> n \<and> n < 4 * p" for p :: nat
      by linarith
    ultimately show ?thesis using IH 1(2) by (simp add: bit_len_pos)
  qed
qed

definition round_half_even :: "rat \<Rightarrow> int" where
  "round_half_even x =
     (let f = \<lfloor>x\<rfloor>; d = x - of_int f
      in if d < 1 / 2 then f else if 1 / 2 < d then f + 1 else if even f then f else f + 1)"

lemma round_half_even_bounds: "\<lfloor>x\<rfloor> \<le> round_half_even x" "round_half_even x \<le> \<lfloor>x\<rfloor> + 1"
  by (auto simp: round_half_even_def Let_def)

lemma round_half_even_of_int [simp]: "round_half_even (of_int n) = n"
  by (simp add: round_half_even_def)

lemma round_half_even_mono: "x \<le> y \<Longrightarrow> round_half_even x \<le> round_half_even y"
proof -
  assume le: "x \<le> y"
  then have fl: "\<lfloor>x\<rfloor> \<le> \<lfloor>y\<rfloor>" by (rule floor_mono)
  show ?thesis
  proof (cases "\<lfloor>x\<rfloor> = \<lfloor>y\<rfloor>")
    case True
    with le show ?thesis by (auto simp: round_half_even_def Let_def)
  next
    case False
    with fl have "\<lfloor>x\<rfloor> + 1 \<le> \<lfloor>y\<rfloor>" by simp
    then show ?thesis using round_half_even_bounds(2) [of x] round_half_even_bounds(1) [of y] by linarith
  qed
qed

lemma round_half_even_le: "x \<le> of_int n \<Longrightarrow> round_half_even x \<le> n"
  using round_half_even_mono [of x "of_int n"] by simp

lemma round_half_even_ge: "of_int n \<le> x \<Longrightarrow> n \<le> round_half_even x"
  using round_half_even_mono [of "of_int n" x] by simp

lemma round_half_even_error: "\<bar>of_int (round_half_even x) - x\<bar> \<le> 1 / 2"
proof -
  have "of_int \<lfloor>x\<rfloor> \<le> x" "x < of_int \<lfloor>x\<rfloor> + 1" by linarith+
  then show ?thesis by (auto simp: round_half_even_def Let_def abs_le_iff)
qed

section \<open>The binary exponent\<close>

definition ilog2 :: "rat \<Rightarrow> int" where
  "ilog2 x = (if 1 \<le> x then int (bit_len (nat \<lfloor>x\<rfloor>)) - 1
              else - int (bit_len (nat (\<lceil>1 / x\<rceil> - 1))))"

lemma ilog2_bounds:
  assumes "0 < x"
  shows "2 powi ilog2 x \<le> x" "x < 2 powi (ilog2 x + 1)"
proof -
  have "2 powi ilog2 x \<le> x \<and> x < 2 powi (ilog2 x + 1)"
  proof (cases "1 \<le> x")
    case True
    define n where "n = nat \<lfloor>x\<rfloor>"
    have n: "0 < n" "of_nat n \<le> x" "x < of_nat n + 1" using True by (simp_all add: n_def) linarith+
    obtain k where k: "bit_len n = Suc k" using n(1) by (auto simp: bit_len_pos)
    have b: "2 ^ k \<le> n" "n < 2 ^ Suc k" using bit_len_bounds [OF n(1)] k by auto
    have "(2::rat) ^ k \<le> of_nat n" using b(1) by (metis of_nat_le_iff of_nat_numeral of_nat_power)
    then have "2 ^ k \<le> x" using n(2) by linarith
    moreover have "of_nat n + 1 \<le> (2::rat) ^ Suc k"
      using b(2) by (metis Suc_leI add.commute of_nat_Suc of_nat_le_iff of_nat_numeral of_nat_power)
    then have "x < 2 ^ Suc k" using n(3) by linarith
    moreover have "ilog2 x = int k" using True k by (simp add: ilog2_def n_def)
    moreover have "(2::rat) powi (int k + 1) = 2 ^ Suc k"
      by (metis of_nat_Suc add.commute power_int_of_nat)
    ultimately show ?thesis by simp
  next
    case False
    define n where "n = nat (\<lceil>1 / x\<rceil> - 1)"
    have inv: "1 < 1 / x" using False assms by simp
    then have c: "1 < \<lceil>1 / x\<rceil>" by linarith
    then have n0: "0 < n" by (simp add: n_def)
    have "0 \<le> \<lceil>1 / x\<rceil> - 1" using c by linarith
    then have cn: "of_nat n + 1 = (of_int \<lceil>1 / x\<rceil> :: rat)" unfolding n_def by (subst of_nat_nat) auto
    have n: "of_nat n < 1 / x" "1 / x \<le> of_nat n + 1" using cn by linarith+
    obtain k where k: "bit_len n = Suc k" using n0 by (auto simp: bit_len_pos)
    have b: "2 ^ k \<le> n" "n < 2 ^ Suc k" using bit_len_bounds [OF n0] k by auto
    have "(2::rat) ^ k \<le> of_nat n" using b(1) by (metis of_nat_le_iff of_nat_numeral of_nat_power)
    then have "(2::rat) ^ k < 1 / x" using n(1) by (rule order_le_less_trans)
    then have up: "x < 1 / 2 ^ k" using assms by (simp add: field_simps)
    have "of_nat n + 1 \<le> (2::rat) ^ Suc k"
      using b(2) by (metis Suc_leI add.commute of_nat_Suc of_nat_le_iff of_nat_numeral of_nat_power)
    then have "1 / x \<le> 2 ^ Suc k" using n by simp
    then have lo: "1 / 2 ^ Suc k \<le> x" using assms by (simp add: field_simps)
    have e: "ilog2 x = - int (Suc k)" using False k by (simp add: ilog2_def n_def)
    have "(2::rat) powi ilog2 x = 1 / 2 ^ Suc k"
      unfolding e by (simp only: power_int_minus power_int_of_nat inverse_eq_divide)
    moreover have "ilog2 x + 1 = - int k" using e by simp
    then have "(2::rat) powi (ilog2 x + 1) = 1 / 2 ^ k"
      by (simp only: power_int_minus power_int_of_nat inverse_eq_divide)
    ultimately show ?thesis using up lo by simp
  qed
  then show "2 powi ilog2 x \<le> x" "x < 2 powi (ilog2 x + 1)" by auto
qed

lemma powi2_mono: "a \<le> b \<Longrightarrow> (2::rat) powi a \<le> 2 powi b"
  by (rule power_int_increasing) auto

lemma powi2_less_iff: "(2::rat) powi a < 2 powi b \<longleftrightarrow> a < b"
  by (metis linorder_not_le one_less_numeral_iff power_int_strict_increasing semiring_norm(76) powi2_mono)

lemma ilog2_less: "0 < x \<Longrightarrow> x < 2 powi k \<Longrightarrow> ilog2 x < k"
  using ilog2_bounds(1) [of x] powi2_less_iff [of "ilog2 x" k] by simp

lemma ilog2_ge: "2 powi k \<le> x \<Longrightarrow> k \<le> ilog2 x"
proof -
  assume h: "2 powi k \<le> x"
  have "0 < x" using h by (meson less_le_trans zero_less_numeral zero_less_power_int)
  then have "(2::rat) powi k < 2 powi (ilog2 x + 1)" using ilog2_bounds(2) [of x] h by simp
  then show ?thesis by (simp add: powi2_less_iff)
qed

lemma ilog2_mono: "0 < x \<Longrightarrow> x \<le> y \<Longrightarrow> ilog2 x \<le> ilog2 y"
  by (meson ilog2_bounds(1) ilog2_ge order_trans)

lemma powi2_split: "(2::rat) powi (a + b) = 2 powi a * 2 powi b"
  by (simp add: power_int_add)

lemma powi2_of_int: "0 \<le> k \<Longrightarrow> (2::rat) powi k = of_int (2 ^ nat k)"
  by (simp add: power_int_def)


section \<open>Rounding to binary64\<close>

text \<open>The unit in the last place of the binade of \<open>x\<close>, as an exponent of two.\<close>

definition quantum :: "rat \<Rightarrow> int" where
  "quantum x = max (ilog2 x - 52) (- 1074)"

definition rnd_mag :: "rat \<Rightarrow> rat" where
  "rnd_mag x = (if x = 0 then 0
                else of_int (round_half_even (x / 2 powi quantum x)) * 2 powi quantum x)"

definition rnd :: "rat \<Rightarrow> rat" where
  "rnd x = (if x < 0 then - rnd_mag (- x) else rnd_mag x)"

lemma quantum_mono: "0 < x \<Longrightarrow> x \<le> y \<Longrightarrow> quantum x \<le> quantum y"
  using ilog2_mono [of x y] by (simp add: quantum_def)

lemma rnd_mag_nonneg: "0 \<le> x \<Longrightarrow> 0 \<le> rnd_mag x"
proof -
  assume "0 \<le> x"
  then have "0 \<le> round_half_even (x / 2 powi quantum x)"
    by (intro round_half_even_ge) simp
  then show ?thesis by (simp add: rnd_mag_def)
qed

lemma rnd_mag_mono:
  assumes "0 \<le> x" "x \<le> y"
  shows "rnd_mag x \<le> rnd_mag y"
proof (cases "x = 0")
  case True
  then show ?thesis using rnd_mag_nonneg [of y] assms by (simp add: rnd_mag_def)
next
  case False
  with assms have pos: "0 < x" "0 < y" by auto
  let ?p = "\<lambda>k. (2::rat) powi k"
  show ?thesis
  proof (cases "quantum x = quantum y")
    case True
    have "x / ?p (quantum x) \<le> y / ?p (quantum x)" using assms by (simp add: divide_right_mono)
    then show ?thesis using pos True by (simp add: rnd_mag_def round_half_even_mono mult_right_mono)
  next
    case False
    with quantum_mono [OF pos(1) assms(2)] have q: "quantum x < quantum y" by simp
    then have qy: "quantum y = ilog2 y - 52" by (auto simp: quantum_def)
    let ?e = "ilog2 y"
    have ex: "ilog2 x < ?e" using q qy by (auto simp: quantum_def)
    have "x < ?p (ilog2 x + 1)" by (rule ilog2_bounds(2) [OF pos(1)])
    also have "\<dots> \<le> ?p ?e" using ex by (intro powi2_mono) simp
    finally have xe: "x \<le> ?p ?e" by simp
    have low: "rnd_mag x \<le> ?p ?e"
    proof -
      have i: "?p (?e - quantum x) = of_int (2 ^ nat (?e - quantum x))"
        using q qy by (intro powi2_of_int) simp
      have "x / ?p (quantum x) \<le> ?p (?e - quantum x)"
        using xe by (simp add: power_int_diff divide_right_mono)
      then have "round_half_even (x / ?p (quantum x)) \<le> 2 ^ nat (?e - quantum x)"
        unfolding i by (rule round_half_even_le)
      then have "of_int (round_half_even (x / ?p (quantum x))) \<le> ?p (?e - quantum x)"
        unfolding i by (simp only: of_int_le_iff)
      then have "of_int (round_half_even (x / ?p (quantum x))) * ?p (quantum x) \<le> ?p ?e"
        by (simp add: power_int_diff pos_le_divide_eq)
      then show ?thesis using pos by (simp add: rnd_mag_def)
    qed
    have high: "?p ?e \<le> rnd_mag y"
    proof -
      have i: "?p (?e - quantum y) = of_int (2 ^ nat (?e - quantum y))"
        using qy by (intro powi2_of_int) simp
      have "?p (?e - quantum y) \<le> y / ?p (quantum y)"
        using ilog2_bounds(1) [OF pos(2)] by (simp add: power_int_diff divide_right_mono)
      then have "2 ^ nat (?e - quantum y) \<le> round_half_even (y / ?p (quantum y))"
        unfolding i by (rule round_half_even_ge)
      then have "?p (?e - quantum y) \<le> of_int (round_half_even (y / ?p (quantum y)))"
        unfolding i by (simp only: of_int_le_iff)
      then have "?p ?e \<le> of_int (round_half_even (y / ?p (quantum y))) * ?p (quantum y)"
        by (simp add: power_int_diff pos_divide_le_eq)
      then show ?thesis using pos by (simp add: rnd_mag_def)
    qed
    from low high show ?thesis by simp
  qed
qed

lemma rnd_minus: "rnd (- x) = - rnd x"
  by (cases x "0::rat" rule: linorder_cases) (simp_all add: rnd_def rnd_mag_def)

lemma rnd_0 [simp]: "rnd 0 = 0"
  by (simp add: rnd_def rnd_mag_def)

lemma rnd_mono: "x \<le> y \<Longrightarrow> rnd x \<le> rnd y"
proof -
  assume le: "x \<le> y"
  consider "y < 0" | "x < 0" "0 \<le> y" | "0 \<le> x" using le by linarith
  then show ?thesis
  proof cases
    case 1
    then show ?thesis using le by (simp add: rnd_def rnd_mag_mono)
  next
    case 2
    have "0 \<le> rnd_mag (- x)" "0 \<le> rnd_mag y" using 2 by (simp_all add: rnd_mag_nonneg)
    with 2 show ?thesis by (simp add: rnd_def)
  next
    case 3
    then show ?thesis using le by (simp add: rnd_def rnd_mag_mono)
  qed
qed

lemma rnd_mag_exact:
  assumes m: "0 \<le> m" "m < 2 ^ 53" and q: "- 1074 \<le> q" and x: "x = of_int m * 2 powi q"
  shows "rnd_mag x = x"
proof (cases "m = 0")
  case True
  then show ?thesis using x by (simp add: rnd_mag_def)
next
  case False
  then have xpos: "0 < x" using x m by simp
  have "(of_int m :: rat) < of_int (2 ^ 53)" using m by (simp only: of_int_less_iff)
  then have "x < 2 ^ 53 * 2 powi q" using x by simp
  then have "x < 2 powi (53 + q)" by (simp add: powi2_split)
  then have "ilog2 x < 53 + q" by (rule ilog2_less [OF xpos])
  then have qle: "quantum x \<le> q" using q by (simp add: quantum_def)
  have "x / 2 powi quantum x = of_int m * 2 powi (q - quantum x)"
    using x by (simp add: power_int_diff)
  also have "\<dots> = of_int (m * 2 ^ nat (q - quantum x))"
    using powi2_of_int [of "q - quantum x"] qle by simp
  finally have e: "x / 2 powi quantum x = of_int (m * 2 ^ nat (q - quantum x))" .
  have "rnd_mag x = of_int (round_half_even (x / 2 powi quantum x)) * 2 powi quantum x"
    using xpos by (simp add: rnd_mag_def)
  also have "\<dots> = x / 2 powi quantum x * 2 powi quantum x"
    by (simp only: e round_half_even_of_int)
  finally show ?thesis by simp
qed

lemma rnd_mag_form:
  assumes "0 < x"
  obtains m where "0 \<le> m" "m \<le> 2 ^ 53" "rnd_mag x = of_int m * 2 powi quantum x"
    "m = round_half_even (x / 2 powi quantum x)"
proof -
  have "x < 2 powi (ilog2 x + 1)" by (rule ilog2_bounds(2) [OF assms])
  also have "\<dots> \<le> 2 powi (quantum x + 53)" by (intro powi2_mono) (simp add: quantum_def)
  finally have "x / 2 powi quantum x < 2 ^ 53"
    by (simp add: powi2_split pos_divide_less_eq mult.commute)
  then have "x / 2 powi quantum x \<le> of_int (2 ^ 53)" by simp
  then have "round_half_even (x / 2 powi quantum x) \<le> 2 ^ 53" by (rule round_half_even_le)
  moreover have "0 \<le> round_half_even (x / 2 powi quantum x)"
    using assms by (intro round_half_even_ge) simp
  ultimately show thesis using that assms by (simp add: rnd_mag_def)
qed

lemma rnd_mag_idem:
  assumes "0 \<le> x"
  shows "rnd_mag (rnd_mag x) = rnd_mag x"
proof (cases "x = 0")
  case True
  then show ?thesis by (simp add: rnd_mag_def)
next
  case False
  with assms have "0 < x" by simp
  then obtain m where m: "0 \<le> m" "m \<le> 2 ^ 53" "rnd_mag x = of_int m * 2 powi quantum x"
    by (rule rnd_mag_form)
  have q: "- 1074 \<le> quantum x" by (simp add: quantum_def)
  show ?thesis
  proof (cases "m = 2 ^ 53")
    case True
    have "rnd_mag x = of_int (2 ^ 52) * 2 powi (quantum x + 1)"
      using m(3) True by (simp add: powi2_split)
    then show ?thesis using q by (intro rnd_mag_exact [of "2 ^ 52" "quantum x + 1"]) auto
  next
    case False
    then show ?thesis using m q by (intro rnd_mag_exact [of m "quantum x"]) auto
  qed
qed

lemma rnd_idem [simp]: "rnd (rnd x) = rnd x"
proof (cases "x < 0")
  case True
  have "rnd (rnd_mag (- x)) = rnd_mag (- x)"
    using rnd_mag_idem [of "- x"] rnd_mag_nonneg [of "- x"] True by (simp add: rnd_def)
  with True show ?thesis using rnd_minus [of "rnd_mag (- x)"] by (simp add: rnd_def)
next
  case False
  then show ?thesis using rnd_mag_idem [of x] rnd_mag_nonneg [of x] by (simp add: rnd_def)
qed

lemma rnd_of_int: "\<bar>n\<bar> \<le> 2 ^ 53 \<Longrightarrow> rnd (of_int n) = of_int n"
proof -
  assume n: "\<bar>n\<bar> \<le> 2 ^ 53"
  have "rnd_mag (of_int m) = of_int m" if "0 \<le> m" "m \<le> 2 ^ 53" for m
  proof (cases "m = 2 ^ 53")
    case True
    show ?thesis by (rule rnd_mag_exact [of "2 ^ 52" 1]) (simp_all add: True)
  next
    case False
    show ?thesis by (rule rnd_mag_exact [of m 0]) (use that False in simp_all)
  qed
  from this [of n] this [of "- n"] n show ?thesis by (cases "n < 0") (simp_all add: rnd_def)
qed


section \<open>The interface: monotone, idempotent rounding\<close>

locale rounding =
  fixes r :: "rat \<Rightarrow> rat"
  assumes mono: "x \<le> y \<Longrightarrow> r x \<le> r y"
    and idem: "r (r x) = r x"
    and zero: "r 0 = 0"
begin

lemma below_fixed: "r p = p \<Longrightarrow> x \<le> p \<Longrightarrow> r x \<le> p"
  using mono [of x p] by simp

lemma above_fixed: "r p = p \<Longrightarrow> p \<le> x \<Longrightarrow> p \<le> r x"
  using mono [of p x] by simp

lemma nonneg: "0 \<le> x \<Longrightarrow> 0 \<le> r x"
  using mono [of 0 x] zero by simp

lemma nonpos: "x \<le> 0 \<Longrightarrow> r x \<le> 0"
  using mono [of x 0] zero by simp

lemma sub_le: "r p = p \<Longrightarrow> 0 \<le> e \<Longrightarrow> r (p - e) \<le> p"
  by (rule below_fixed) simp_all

lemma add_ge: "r p = p \<Longrightarrow> 0 \<le> e \<Longrightarrow> p \<le> r (p + e)"
  by (rule above_fixed) simp_all

lemma scale_le: "r p = p \<Longrightarrow> 0 \<le> p \<Longrightarrow> k \<le> 1 \<Longrightarrow> r (p * k) \<le> p"
  by (rule below_fixed) (simp_all add: mult_left_le)

lemma between: "r p = p \<Longrightarrow> r q = q \<Longrightarrow> p \<le> x \<Longrightarrow> x \<le> q \<Longrightarrow> p \<le> r x \<and> r x \<le> q"
  by (simp add: above_fixed below_fixed)

end

locale odd_rounding = rounding +
  assumes minus: "r (- x) = - r x"
begin

lemma abs_mono: "\<bar>x\<bar> \<le> \<bar>y\<bar> \<Longrightarrow> \<bar>r x\<bar> \<le> \<bar>r y\<bar>"
proof -
  assume le: "\<bar>x\<bar> \<le> \<bar>y\<bar>"
  have "\<bar>r z\<bar> = r \<bar>z\<bar>" for z
    using nonneg [of z] nonpos [of z] minus [of z] by (cases "0 \<le> z") (auto simp: abs_if)
  with mono [OF le] show ?thesis by simp
qed

end

interpretation f64: odd_rounding rnd
  by unfold_locales (simp_all add: rnd_mono rnd_minus)

section \<open>Decimal rounding\<close>

definition dec_round :: "nat \<Rightarrow> rat \<Rightarrow> rat" where
  "dec_round n x = of_int (round_half_even (x * 10 ^ n)) / 10 ^ n"

lemma round_half_even_minus: "round_half_even (- x) = - round_half_even x"
proof (cases "x = of_int \<lfloor>x\<rfloor>")
  case True
  then show ?thesis by (metis of_int_minus round_half_even_of_int)
next
  case False
  then have c: "\<lfloor>- x\<rfloor> = - \<lfloor>x\<rfloor> - 1" by linarith
  show ?thesis by (auto simp: round_half_even_def Let_def c)
qed

lemma dec_round_mono: "x \<le> y \<Longrightarrow> dec_round n x \<le> dec_round n y"
  by (simp add: dec_round_def divide_right_mono round_half_even_mono mult_right_mono)

interpretation dec: odd_rounding "dec_round n" for n
proof unfold_locales
  show "x \<le> y \<Longrightarrow> dec_round n x \<le> dec_round n y" for x y by (rule dec_round_mono)
  show "dec_round n (dec_round n x) = dec_round n x" for x by (simp add: dec_round_def)
  show "dec_round n 0 = 0" by (simp add: dec_round_def round_half_even_def)
  show "dec_round n (- x) = - dec_round n x" for x
    using round_half_even_minus [of "x * 10 ^ n"] by (simp add: dec_round_def)
qed

lemma dec_round_of_int [simp]: "dec_round n (of_int k) = of_int k"
proof -
  have "of_int k * 10 ^ n = (of_int (k * 10 ^ n) :: rat)" by simp
  then show ?thesis unfolding dec_round_def by (simp only: round_half_even_of_int) simp
qed

section \<open>Evaluation of closed instances\<close>

lemma rat_floor_eval:
  "\<lfloor>numeral a / numeral b :: rat\<rfloor> = numeral a div numeral b"
  "\<lfloor>- (numeral a / numeral b) :: rat\<rfloor> = - numeral a div numeral b"
  "\<lfloor>1 / numeral b :: rat\<rfloor> = 1 div numeral b"
  "\<lceil>numeral a / numeral b :: rat\<rceil> = - (- numeral a div numeral b)"
  "\<lceil>1 / numeral b :: rat\<rceil> = - (- 1 div numeral b)"
proof -
  have f: "\<lfloor>of_int x / of_int y :: rat\<rfloor> = x div y" for x y
    by (rule floor_divide_of_int_eq)
  show a: "\<lfloor>numeral a / numeral b :: rat\<rfloor> = numeral a div numeral b"
    using f [of "numeral a" "numeral b"] by simp
  show c: "\<lfloor>- (numeral a / numeral b) :: rat\<rfloor> = - numeral a div numeral b"
    using f [of "- numeral a" "numeral b"] by simp
  show "\<lfloor>1 / numeral b :: rat\<rfloor> = 1 div numeral b"
    using f [of "1" "numeral b"] by simp
  show "\<lceil>numeral a / numeral b :: rat\<rceil> = - (- numeral a div numeral b)"
    using c by (simp add: ceiling_def)
  show "\<lceil>1 / numeral b :: rat\<rceil> = - (- 1 div numeral b)"
    using f [of "- 1" "numeral b"] by (simp add: ceiling_def)
qed

lemma powi2_eval:
  "(2::rat) powi numeral n = 2 ^ numeral n"
  "(2::rat) powi (- numeral n) = 1 / 2 ^ numeral n"
  "(2::rat) powi (- 1) = 1 / 2"
  by (simp_all add: power_int_def field_simps)

lemmas rounding_eval [float_eval] = rnd_def rnd_mag_def quantum_def ilog2_def round_half_even_def
  dec_round_def Let_def rat_floor_eval powi2_eval

end
