(* ===== verification/Float64.thy ===== *)
theory Float64
  imports Rounding
begin

text \<open>
  Python's \<open>float\<close>: IEEE 754 binary64 values with the arithmetic CPython gives them. A finite
  value is its exact rational; the two zeros are one value, because no operation the program
  applies to a float tells them apart (division by either raises). Every arithmetic result is
  the exact result rounded by \<open>rnd\<close>, or an infinity past \<open>f64_limit\<close>.

  \<open>float_ok\<close> is the well-formedness invariant: a finite value is a fixed point of \<open>rnd\<close> below the
  limit. Every operation keeps it.
\<close>

datatype pyfloat = Fin rat | PInf | NInf | NaN

definition f64_limit :: rat where
  "f64_limit = 2 ^ 1024"

definition to_f64 :: "rat \<Rightarrow> pyfloat" where
  "to_f64 x =
     (if f64_limit \<le> rnd x then PInf else if rnd x \<le> - f64_limit then NInf else Fin (rnd x))"

fun float_ok :: "pyfloat \<Rightarrow> bool" where
  "float_ok (Fin x) \<longleftrightarrow> rnd x = x \<and> \<bar>x\<bar> < f64_limit"
| "float_ok _ \<longleftrightarrow> True"

fun is_finite :: "pyfloat \<Rightarrow> bool" where
  "is_finite (Fin x) \<longleftrightarrow> True"
| "is_finite _ \<longleftrightarrow> False"

section \<open>Comparisons\<close>

text \<open>Python's \<open><\<close>, \<open><=\<close> and \<open>==\<close> on floats: every comparison with a NaN is false.\<close>

fun flt :: "pyfloat \<Rightarrow> pyfloat \<Rightarrow> bool" where
  "flt NaN _ \<longleftrightarrow> False"
| "flt _ NaN \<longleftrightarrow> False"
| "flt (Fin x) (Fin y) \<longleftrightarrow> x < y"
| "flt NInf y \<longleftrightarrow> y \<noteq> NInf"
| "flt (Fin x) y \<longleftrightarrow> y = PInf"
| "flt PInf _ \<longleftrightarrow> False"

definition feq :: "pyfloat \<Rightarrow> pyfloat \<Rightarrow> bool" where
  "feq x y \<longleftrightarrow> x = y \<and> x \<noteq> NaN"

definition fle :: "pyfloat \<Rightarrow> pyfloat \<Rightarrow> bool" where
  "fle x y \<longleftrightarrow> flt x y \<or> feq x y"

section \<open>Arithmetic\<close>

fun fneg :: "pyfloat \<Rightarrow> pyfloat" where
  "fneg (Fin x) = Fin (- x)"
| "fneg PInf = NInf"
| "fneg NInf = PInf"
| "fneg NaN = NaN"

fun fadd :: "pyfloat \<Rightarrow> pyfloat \<Rightarrow> pyfloat" where
  "fadd NaN _ = NaN"
| "fadd _ NaN = NaN"
| "fadd (Fin x) (Fin y) = to_f64 (x + y)"
| "fadd PInf y = (if y = NInf then NaN else PInf)"
| "fadd NInf y = (if y = PInf then NaN else NInf)"
| "fadd (Fin x) y = y"

definition fsub :: "pyfloat \<Rightarrow> pyfloat \<Rightarrow> pyfloat" where
  "fsub x y = fadd x (fneg y)"

fun fsgn :: "pyfloat \<Rightarrow> rat" where
  "fsgn (Fin x) = sgn x"
| "fsgn PInf = 1"
| "fsgn NInf = - 1"
| "fsgn NaN = 0"

definition inf_of_sign :: "rat \<Rightarrow> pyfloat" where
  "inf_of_sign s = (if s = 0 then NaN else if 0 < s then PInf else NInf)"

fun fmul :: "pyfloat \<Rightarrow> pyfloat \<Rightarrow> pyfloat" where
  "fmul NaN _ = NaN"
| "fmul _ NaN = NaN"
| "fmul (Fin x) (Fin y) = to_f64 (x * y)"
| "fmul x y = inf_of_sign (fsgn x * fsgn y)"

text \<open>Python's float division raises on a zero divisor, whatever the dividend.\<close>

fun fdiv :: "pyfloat \<Rightarrow> pyfloat \<Rightarrow> pyfloat result" where
  "fdiv x (Fin y) =
     (if y = 0 then Inl ZeroDivisionError
      else case x of
        Fin a \<Rightarrow> Inr (to_f64 (a / y))
      | NaN \<Rightarrow> Inr NaN
      | _ \<Rightarrow> Inr (inf_of_sign (fsgn x * sgn y)))"
| "fdiv x NaN = Inr NaN"
| "fdiv (Fin x) _ = Inr (Fin 0)"
| "fdiv x _ = Inr NaN"

text \<open>\<open>round(x, n)\<close> of a float, for a non-negative \<open>n\<close>: infinities and NaN are returned as they are.\<close>

fun fround :: "nat \<Rightarrow> pyfloat \<Rightarrow> pyfloat" where
  "fround n (Fin x) = to_f64 (dec_round n x)"
| "fround n x = x"

section \<open>Well-formedness\<close>

lemma f64_limit_fixed [simp]: "rnd f64_limit = f64_limit"
proof -
  have "rnd_mag f64_limit = f64_limit"
    by (rule rnd_mag_exact [of 1 1024]) (simp_all add: f64_limit_def)
  then show ?thesis by (simp add: rnd_def f64_limit_def)
qed

lemma f64_limit_pos [simp]: "0 < f64_limit"
  by (simp add: f64_limit_def)

lemma float_ok_to_f64 [simp, intro]: "float_ok (to_f64 x)"
  by (auto simp: to_f64_def abs_less_iff)

lemma to_f64_not_NaN [simp]: "to_f64 x \<noteq> NaN" "NaN \<noteq> to_f64 x"
  by (simp_all add: to_f64_def)

lemma to_f64_id: "float_ok (Fin x) \<Longrightarrow> to_f64 x = Fin x"
  by (auto simp: to_f64_def abs_less_iff)

lemma float_ok_fneg [simp]: "float_ok (fneg x) = float_ok x"
  by (cases x) (simp_all add: rnd_minus)

lemma float_ok_fadd [simp]: "float_ok x \<Longrightarrow> float_ok y \<Longrightarrow> float_ok (fadd x y)"
  by (cases "(x, y)" rule: fadd.cases) auto

lemma float_ok_fsub [simp]: "float_ok x \<Longrightarrow> float_ok y \<Longrightarrow> float_ok (fsub x y)"
  by (simp add: fsub_def)

lemma float_ok_inf_of_sign [simp]: "float_ok (inf_of_sign s)"
  by (simp add: inf_of_sign_def)

lemma float_ok_fmul [simp]: "float_ok x \<Longrightarrow> float_ok y \<Longrightarrow> float_ok (fmul x y)"
  by (cases "(x, y)" rule: fmul.cases) auto

lemma float_ok_fdiv: "fdiv x y = Inr z \<Longrightarrow> float_ok z"
  by (cases "(x, y)" rule: fdiv.cases) (auto split: if_splits pyfloat.splits)

lemma float_ok_fround [simp]: "float_ok x \<Longrightarrow> float_ok (fround n x)"
  by (cases x) auto

lemma to_f64_of_int: "\<bar>n\<bar> \<le> 2 ^ 53 \<Longrightarrow> to_f64 (of_int n) = Fin (of_int n)"
proof -
  assume n: "\<bar>n\<bar> \<le> 2 ^ 53"
  have "(of_int \<bar>n\<bar> :: rat) \<le> of_int (2 ^ 53)" using n by (simp only: of_int_le_iff)
  also have "\<dots> < f64_limit" by (simp add: f64_limit_def)
  finally show ?thesis using n by (intro to_f64_id) (simp add: rnd_of_int)
qed

lemma rnd_numeral [simp]: "numeral n \<le> (2 ^ 53 :: int) \<Longrightarrow> rnd (numeral n) = numeral n"
  using rnd_of_int [of "numeral n"] by simp

lemma rnd_1 [simp]: "rnd 1 = 1"
  using rnd_of_int [of 1] by simp

lemma f64_limit_gt [simp]: "1 < f64_limit" "numeral n \<le> (2 ^ 53 :: int) \<Longrightarrow> numeral n < f64_limit"
proof -
  show "1 < f64_limit" by (simp add: f64_limit_def)
  assume "numeral n \<le> (2 ^ 53 :: int)"
  then have "(of_int (numeral n) :: rat) \<le> of_int (2 ^ 53)" by (simp only: of_int_le_iff)
  also have "\<dots> < f64_limit" by (simp add: f64_limit_def)
  finally show "numeral n < f64_limit" by simp
qed

lemma f64_limit_gt_neg [simp]: "- 1 < f64_limit" "- numeral n < f64_limit"
  using f64_limit_pos by (simp_all add: less_trans [of _ 0])

section \<open>Order\<close>

lemma flt_irrefl [simp]: "\<not> flt x x"
  by (cases x) auto

lemma flt_trans: "flt x y \<Longrightarrow> flt y z \<Longrightarrow> flt x z"
  by (cases x; cases y; cases z) auto

lemma flt_asym: "flt x y \<Longrightarrow> \<not> flt y x"
  by (cases x; cases y) auto

lemma flt_total: "x \<noteq> NaN \<Longrightarrow> y \<noteq> NaN \<Longrightarrow> flt x y \<or> x = y \<or> flt y x"
  by (cases x; cases y) auto

lemma fle_refl: "x \<noteq> NaN \<Longrightarrow> fle x x"
  by (simp add: fle_def feq_def)

lemma fle_trans: "fle x y \<Longrightarrow> fle y z \<Longrightarrow> fle x z"
  by (auto simp: fle_def feq_def dest: flt_trans)

lemma not_flt_iff: "x \<noteq> NaN \<Longrightarrow> y \<noteq> NaN \<Longrightarrow> \<not> flt x y \<longleftrightarrow> fle y x"
  using flt_total [of x y] flt_asym [of x y] by (auto simp: fle_def feq_def)

lemma fle_Fin [simp]: "fle (Fin x) (Fin y) \<longleftrightarrow> x \<le> y"
  by (auto simp: fle_def feq_def)

lemma fle_infinities [simp]:
  "fle NInf y \<longleftrightarrow> y \<noteq> NaN" "fle x PInf \<longleftrightarrow> x \<noteq> NaN" "fle (Fin q) NInf \<longleftrightarrow> False"
  "fle PInf (Fin q) \<longleftrightarrow> False" "fle NaN y \<longleftrightarrow> False" "fle x NaN \<longleftrightarrow> False" "fle PInf NInf \<longleftrightarrow> False"
  by (cases x; cases y; auto simp: fle_def feq_def)+

lemma to_f64_mono: "x \<le> y \<Longrightarrow> fle (to_f64 x) (to_f64 y)"
proof -
  assume "x \<le> y"
  then have "rnd x \<le> rnd y" by (rule rnd_mono)
  moreover have "- f64_limit < f64_limit" using f64_limit_pos by linarith
  ultimately show ?thesis unfolding to_f64_def by auto
qed

lemma fround_mono: "fle x y \<Longrightarrow> fle (fround n x) (fround n y)"
  by (cases x; cases y) (auto intro: to_f64_mono dec_round_mono)

text \<open>
  A well-formed value bounds what is rounded below it: the fact behind \<open>p - e \<le> p\<close> and
  \<open>p * k \<le> p\<close> in binary64.
\<close>

lemma to_f64_le_ok: "float_ok (Fin p) \<Longrightarrow> x \<le> p \<Longrightarrow> fle (to_f64 x) (Fin p)"
  using to_f64_mono [of x p] by (simp add: to_f64_id)

lemma to_f64_ge_ok: "float_ok (Fin p) \<Longrightarrow> p \<le> x \<Longrightarrow> fle (Fin p) (to_f64 x)"
  using to_f64_mono [of p x] by (simp add: to_f64_id)

lemma fsub_le: "float_ok (Fin p) \<Longrightarrow> 0 \<le> e \<Longrightarrow> fle (fsub (Fin p) (Fin e)) (Fin p)"
  unfolding fsub_def fneg.simps fadd.simps by (rule to_f64_le_ok) simp_all

lemma fadd_ge: "float_ok (Fin p) \<Longrightarrow> 0 \<le> e \<Longrightarrow> fle (Fin p) (fadd (Fin p) (Fin e))"
  by (auto intro: to_f64_ge_ok)

lemma fmul_le: "float_ok (Fin p) \<Longrightarrow> 0 \<le> p \<Longrightarrow> k \<le> 1 \<Longrightarrow> fle (fmul (Fin p) (Fin k)) (Fin p)"
  by (auto intro!: to_f64_le_ok simp: mult_left_le)

lemma to_f64_nonneg: "0 \<le> x \<Longrightarrow> fle (Fin 0) (to_f64 x)"
  by (rule to_f64_ge_ok) simp_all

lemma float_ok_of_int: "\<bar>n\<bar> \<le> 2 ^ 53 \<Longrightarrow> float_ok (Fin (of_int n))"
  using float_ok_to_f64 [of "of_int n"] by (simp add: to_f64_of_int del: float_ok_to_f64)

lemma to_f64_between:
  assumes "of_int a \<le> x" "x \<le> of_int b" "\<bar>a\<bar> \<le> 2 ^ 53" "\<bar>b\<bar> \<le> 2 ^ 53"
  shows "\<exists>y. to_f64 x = Fin y \<and> of_int a \<le> y \<and> y \<le> of_int b"
  using to_f64_ge_ok [OF float_ok_of_int [OF assms(3)] assms(1)]
    to_f64_le_ok [OF float_ok_of_int [OF assms(4)] assms(2)]
  by (cases "to_f64 x") auto

lemmas float64_eval [float_eval] = to_f64_def f64_limit_def fsub_def inf_of_sign_def

end
