(* ===== verification/PyNum.thy ===== *)
theory PyNum
  imports Float64
begin

text \<open>
  Python's numeric tower as far as the program uses it: an \<open>int\<close> is unbounded, a \<open>float\<close> is a
  \<^theory_text>\<open>Float64\<close> value, and a number is one of the two. Mixed arithmetic converts the int
  first (raising OverflowError past the largest float); comparisons of an int with a float are
  exact, as CPython's are; int division by \<open>/\<close> is correctly rounded in one step.
\<close>

datatype pynum = PyI int | PyF pyfloat

section \<open>Conversions\<close>

fun finite_or_overflow :: "pyfloat \<Rightarrow> pyfloat result" where
  "finite_or_overflow (Fin x) = Inr (Fin x)"
| "finite_or_overflow _ = Inl OverflowError"

fun num_float :: "pynum \<Rightarrow> pyfloat result" where
  "num_float (PyI n) = finite_or_overflow (to_f64 (of_int n))"
| "num_float (PyF x) = Inr x"

text \<open>\<open>int(x)\<close>: truncation toward zero.\<close>

definition rat_trunc :: "rat \<Rightarrow> int" where
  "rat_trunc x = (if 0 \<le> x then \<lfloor>x\<rfloor> else \<lceil>x\<rceil>)"

fun num_int :: "pynum \<Rightarrow> int result" where
  "num_int (PyI n) = Inr n"
| "num_int (PyF (Fin x)) = Inr (rat_trunc x)"
| "num_int (PyF NaN) = Inl ValueError"
| "num_int (PyF _) = Inl OverflowError"

section \<open>Comparisons\<close>

fun num_exact :: "pynum \<Rightarrow> pyfloat" where
  "num_exact (PyI n) = Fin (of_int n)"
| "num_exact (PyF x) = x"

definition num_lt :: "pynum \<Rightarrow> pynum \<Rightarrow> bool" where
  "num_lt a b \<longleftrightarrow> flt (num_exact a) (num_exact b)"

definition num_le :: "pynum \<Rightarrow> pynum \<Rightarrow> bool" where
  "num_le a b \<longleftrightarrow> fle (num_exact a) (num_exact b)"

section \<open>Arithmetic\<close>

fun num_add :: "pynum \<Rightarrow> pynum \<Rightarrow> pynum result" where
  "num_add (PyI a) (PyI b) = Inr (PyI (a + b))"
| "num_add a b = rbind (num_float a) (\<lambda>x. rbind (num_float b) (\<lambda>y. Inr (PyF (fadd x y))))"

fun num_mul :: "pynum \<Rightarrow> pynum \<Rightarrow> pynum result" where
  "num_mul (PyI a) (PyI b) = Inr (PyI (a * b))"
| "num_mul a b = rbind (num_float a) (\<lambda>x. rbind (num_float b) (\<lambda>y. Inr (PyF (fmul x y))))"

fun num_truediv :: "pynum \<Rightarrow> pynum \<Rightarrow> pynum result" where
  "num_truediv (PyI a) (PyI b) =
     (if b = 0 then Inl ZeroDivisionError
      else rbind (finite_or_overflow (to_f64 (of_int a / of_int b))) (\<lambda>x. Inr (PyF x)))"
| "num_truediv a b =
     rbind (num_float a) (\<lambda>x. rbind (num_float b) (\<lambda>y. rbind (fdiv x y) (\<lambda>z. Inr (PyF z))))"

text \<open>\<open>round(x, n)\<close> for a non-negative \<open>n\<close>; \<open>max(a, b)\<close> and \<open>min(a, b)\<close> keep the first of two equals.\<close>

fun num_round :: "nat \<Rightarrow> pynum \<Rightarrow> pynum" where
  "num_round n (PyI k) = PyI k"
| "num_round n (PyF x) = PyF (fround n x)"

definition num_max2 :: "pynum \<Rightarrow> pynum \<Rightarrow> pynum" where
  "num_max2 a b = (if num_lt a b then b else a)"

definition num_min2 :: "pynum \<Rightarrow> pynum \<Rightarrow> pynum" where
  "num_min2 a b = (if num_lt b a then b else a)"

section \<open>Well-formedness\<close>

fun num_ok :: "pynum \<Rightarrow> bool" where
  "num_ok (PyI n) \<longleftrightarrow> True"
| "num_ok (PyF x) \<longleftrightarrow> float_ok x"

lemma finite_or_overflow_ok: "finite_or_overflow x = Inr y \<Longrightarrow> y = x \<and> is_finite y"
  by (cases x) auto

lemma num_float_ok: "num_ok a \<Longrightarrow> num_float a = Inr x \<Longrightarrow> float_ok x"
  by (cases a) (auto dest!: finite_or_overflow_ok)

lemma num_truediv_ok: "num_ok a \<Longrightarrow> num_ok b \<Longrightarrow> num_truediv a b = Inr c \<Longrightarrow> num_ok c"
  by (cases "(a, b)" rule: num_truediv.cases)
    (auto split: if_splits dest!: finite_or_overflow_ok dest: float_ok_fdiv)

lemma num_round_ok [simp]: "num_ok a \<Longrightarrow> num_ok (num_round n a)"
  by (cases a) auto

section \<open>Order\<close>

lemma num_lt_irrefl [simp]: "\<not> num_lt a a"
  by (simp add: num_lt_def)

lemma num_le_trans: "num_le a b \<Longrightarrow> num_le b c \<Longrightarrow> num_le a c"
  by (auto simp: num_le_def intro: fle_trans)

lemma num_not_lt_iff:
  "num_exact a \<noteq> NaN \<Longrightarrow> num_exact b \<noteq> NaN \<Longrightarrow> \<not> num_lt a b \<longleftrightarrow> num_le b a"
  by (simp add: num_lt_def num_le_def not_flt_iff)

lemma num_float_small: "\<bar>n\<bar> \<le> 2 ^ 53 \<Longrightarrow> num_float (PyI n) = Inr (Fin (of_int n))"
  by (simp add: to_f64_of_int)

lemma rat_trunc_bounds: "0 \<le> x \<Longrightarrow> 0 \<le> rat_trunc x \<and> of_int (rat_trunc x) \<le> x"
  by (simp add: rat_trunc_def)

lemma rat_trunc_mono: "x \<le> y \<Longrightarrow> rat_trunc x \<le> rat_trunc y"
  by (auto simp: rat_trunc_def floor_mono ceiling_mono intro: order_trans [of _ 0] ceiling_le)

lemmas pynum_eval [float_eval] = num_lt_def num_le_def num_max2_def num_min2_def rat_trunc_def

end
