(* ===== verification/Wire.thy ===== *)
theory Wire
  imports PyNum "HOL-Library.Word"
begin

text \<open>
  Bytes on the wire: the subset of the standard library's \<open>struct\<close> module the program uses
  (\<open>pack\<close>, \<open>unpack_from\<close>, \<open>calcsize\<close> for little-endian formats over Q, I, B, d and the pad
  byte x), with the bit layout of a binary64 value.

  The locale \<open>frame_codec\<close> is the interface of a fixed-width message: an encoder, a decoder that
  inverts it, and the width. Its one client lemma says that a concatenation of messages decodes
  to the list of messages; the component theories interpret it on their own formats.
\<close>

type_synonym bytes = "8 word list"

section \<open>Little-endian integers\<close>

fun le_bytes :: "nat \<Rightarrow> int \<Rightarrow> bytes" where
  "le_bytes 0 n = []"
| "le_bytes (Suc k) n = word_of_int n # le_bytes k (n div 256)"

fun le_val :: "bytes \<Rightarrow> int" where
  "le_val [] = 0"
| "le_val (b # bs) = uint b + 256 * le_val bs"

lemma length_le_bytes [simp, wire_simps]: "length (le_bytes k n) = k"
  by (induction k arbitrary: n) auto

lemma uint_word_of_int_8: "uint (word_of_int n :: 8 word) = n mod 256"
  by (simp add: uint_word_of_int)

lemma le_val_bytes: "le_val (le_bytes k n) = n mod 256 ^ k"
proof (induction k arbitrary: n)
  case 0
  then show ?case by simp
next
  case (Suc k)
  have "n mod (256 * 256 ^ k) = 256 * (n div 256 mod 256 ^ k) + n mod 256"
    by (rule zmod_zmult2_eq) simp
  then show ?case by (simp add: Suc uint_word_of_int_8)
qed

lemma le_val_bytes_id [wire_simps]: "0 \<le> n \<Longrightarrow> n < 256 ^ k \<Longrightarrow> le_val (le_bytes k n) = n"
  by (simp add: le_val_bytes)

lemma le_val_bounds: "0 \<le> le_val bs \<and> le_val bs < 256 ^ length bs"
proof (induction bs)
  case Nil
  then show ?case by simp
next
  case (Cons b bs)
  have "uint b < 256" using uint_lt2p [of b] by simp
  with Cons show ?case by auto
qed

section \<open>The bits of a binary64\<close>

definition mag_bits :: "rat \<Rightarrow> int" where
  "mag_bits x = (if x = 0 then 0
                 else \<lfloor>x / 2 powi quantum x\<rfloor> + (quantum x + 1074) * 2 ^ 52)"

fun f64_bits :: "pyfloat \<Rightarrow> int" where
  "f64_bits (Fin x) = (if x < 0 then 2 ^ 63 + mag_bits (- x) else mag_bits x)"
| "f64_bits PInf = 2047 * 2 ^ 52"
| "f64_bits NInf = 2 ^ 63 + 2047 * 2 ^ 52"
| "f64_bits NaN = 2047 * 2 ^ 52 + 2 ^ 51"

definition mag_of_bits :: "int \<Rightarrow> int \<Rightarrow> rat" where
  "mag_of_bits e f =
     (if e = 0 then of_int f * 2 powi (- 1074) else of_int (2 ^ 52 + f) * 2 powi (e - 1075))"

definition f64_of_bits :: "int \<Rightarrow> pyfloat" where
  "f64_of_bits n =
     (let s = n div 2 ^ 63; e = n div 2 ^ 52 mod 2048; f = n mod 2 ^ 52
      in if e = 2047 then (if f \<noteq> 0 then NaN else if s = 0 then PInf else NInf)
         else Fin (if s = 0 then mag_of_bits e f else - mag_of_bits e f))"

lemma mag_of_bits_ok:
  assumes "0 \<le> e" "e < 2047" "0 \<le> f" "f < 2 ^ 52"
  shows "rnd (mag_of_bits e f) = mag_of_bits e f" "0 \<le> mag_of_bits e f" "mag_of_bits e f < f64_limit"
proof -
  define m where "m = (if e = 0 then f else 2 ^ 52 + f)"
  define q where "q = (if e = 0 then - 1074 else e - 1075)"
  have x: "mag_of_bits e f = of_int m * 2 powi q" by (simp add: mag_of_bits_def m_def q_def)
  have m: "0 \<le> m" "m < 2 ^ 53" and q: "- 1074 \<le> q" "q \<le> 971"
    using assms by (auto simp: m_def q_def)
  show n: "0 \<le> mag_of_bits e f" using m by (simp add: x)
  have "rnd_mag (mag_of_bits e f) = mag_of_bits e f" by (rule rnd_mag_exact [OF m q(1) x])
  then show "rnd (mag_of_bits e f) = mag_of_bits e f" using n by (simp add: rnd_def)
  have "(of_int m :: rat) < of_int (2 ^ 53)" using m by (simp only: of_int_less_iff)
  then have "of_int m * (2 :: rat) powi q < 2 ^ 53 * 2 powi q" by simp
  also have "\<dots> = 2 powi (53 + q)" by (simp add: powi2_split)
  also have "\<dots> \<le> 2 powi 1024" using q by (intro powi2_mono) simp
  finally show "mag_of_bits e f < f64_limit" by (simp add: x f64_limit_def)
qed

lemma float_ok_of_bits [simp, intro]: "float_ok (f64_of_bits n)"
proof -
  define e f where "e = n div 2 ^ 52 mod 2048" and "f = n mod 2 ^ 52"
  have "0 \<le> e" "e < 2048" "0 \<le> f" "f < 2 ^ 52" by (simp_all add: e_def f_def)
  then have "e \<noteq> 2047 \<Longrightarrow> rnd (mag_of_bits e f) = mag_of_bits e f \<and> 0 \<le> mag_of_bits e f
      \<and> mag_of_bits e f < f64_limit"
    using mag_of_bits_ok [of e f] by auto
  then show ?thesis
    unfolding f64_of_bits_def Let_def e_def [symmetric] f_def [symmetric]
    by (auto simp: rnd_minus)
qed

lemma mag_bits_fields:
  assumes ok: "rnd x = x" "0 \<le> x" "x < f64_limit"
  shows "0 \<le> mag_bits x" "mag_bits x < 2047 * 2 ^ 52"
    "mag_of_bits (mag_bits x div 2 ^ 52) (mag_bits x mod 2 ^ 52) = x"
proof -
  have "0 \<le> mag_bits x \<and> mag_bits x < 2047 * 2 ^ 52 \<and>
    mag_of_bits (mag_bits x div 2 ^ 52) (mag_bits x mod 2 ^ 52) = x"
  proof (cases "x = 0")
    case True
    then show ?thesis by (simp add: mag_bits_def mag_of_bits_def)
  next
    case False
    with ok have pos: "0 < x" by simp
    obtain m where m: "0 \<le> m" "rnd_mag x = of_int m * 2 powi quantum x" using rnd_mag_form [OF pos] by metis
    have x: "x = of_int m * 2 powi quantum x" using m(2) ok pos by (simp add: rnd_def)
    have d: "x / 2 powi quantum x = of_int m" by (subst x) simp
    have q: "- 1074 \<le> quantum x" by (simp add: quantum_def)
    have "ilog2 x < 1024" using ok(3) by (intro ilog2_less [OF pos]) (simp add: f64_limit_def)
    then have q': "quantum x \<le> 971" by (simp add: quantum_def)
    have "ilog2 x + 1 \<le> quantum x + 53" by (simp add: quantum_def)
    then have "x < 2 powi (quantum x + 53)"
      using ilog2_bounds(2) [OF pos] powi2_mono less_le_trans by blast
    then have "of_int m < (2 ^ 53 :: rat)"
      unfolding d [symmetric] by (simp add: powi2_split pos_divide_less_eq mult.commute)
    then have m53: "m < 2 ^ 53"
      by (metis of_int_less_iff of_int_numeral of_int_power)
    have m52: "2 ^ 52 \<le> m" if "quantum x \<noteq> - 1074"
    proof -
      have "ilog2 x = quantum x + 52" using that by (auto simp: quantum_def)
      then have "2 powi (quantum x + 52) \<le> x" using ilog2_bounds(1) [OF pos] by simp
      then have "(2 ^ 52 :: rat) \<le> of_int m"
        unfolding d [symmetric] by (simp add: powi2_split pos_le_divide_eq mult.commute)
      then show ?thesis by (metis of_int_le_iff of_int_numeral of_int_power)
    qed
    have bits: "mag_bits x = m + (quantum x + 1074) * 2 ^ 52"
      using False d by (simp add: mag_bits_def)
    show ?thesis
    proof (cases "m < 2 ^ 52")
      case True
      then have "quantum x = - 1074" using m52 by fastforce
      then show ?thesis using True m(1) x by (simp add: bits mag_of_bits_def)
    next
      case False
      have b: "mag_bits x = (m - 2 ^ 52) + (quantum x + 1075) * 2 ^ 52"
        by (simp add: bits algebra_simps)
      have r: "0 \<le> m - 2 ^ 52" "m - 2 ^ 52 < 2 ^ 52" using False m53 by auto
      have z: "(2 :: int) ^ 52 \<noteq> 0" by simp
      have "mag_bits x div 2 ^ 52 = quantum x + 1075"
        unfolding b div_mult_self1 [OF z] div_pos_pos_trivial [OF r] by simp
      moreover have "mag_bits x mod 2 ^ 52 = m - 2 ^ 52"
        unfolding b mod_mult_self1 mod_pos_pos_trivial [OF r] by (rule refl)
      moreover have "mag_bits x < 2047 * 2 ^ 52" "0 \<le> mag_bits x" using r q q' unfolding b by simp_all
      ultimately show ?thesis using x q by (simp add: mag_of_bits_def)
    qed
  qed
  then show "0 \<le> mag_bits x" "mag_bits x < 2047 * 2 ^ 52"
    "mag_of_bits (mag_bits x div 2 ^ 52) (mag_bits x mod 2 ^ 52) = x" by auto
qed

lemma f64_bits_range: "float_ok x \<Longrightarrow> 0 \<le> f64_bits x \<and> f64_bits x < 2 ^ 64"
proof (cases x)
  case (Fin r)
  assume "float_ok x"
  then have "rnd \<bar>r\<bar> = \<bar>r\<bar>" "\<bar>r\<bar> < f64_limit" using Fin by (auto simp: abs_if rnd_minus)
  then show ?thesis using mag_bits_fields(1,2) [of "\<bar>r\<bar>"] Fin by (auto simp: abs_if)
qed simp_all

lemma f64_of_bits_mag:
  assumes ok: "rnd x = x" "0 \<le> x" "x < f64_limit"
  shows "f64_of_bits (mag_bits x) = Fin x" "f64_of_bits (2 ^ 63 + mag_bits x) = Fin (- x)"
proof -
  let ?b = "mag_bits x"
  note f = mag_bits_fields [OF ok]
  have e: "0 \<le> ?b div 2 ^ 52" "?b div 2 ^ 52 < 2047" using f(1,2) by auto
  have s: "?b div 2 ^ 63 = 0" using f(1,2) by simp
  have c: "2 ^ 63 + ?b = ?b + 2048 * 2 ^ 52" by simp
  have sh: "(2 ^ 63 + ?b) div 2 ^ 52 = 2048 + ?b div 2 ^ 52" "(2 ^ 63 + ?b) mod 2 ^ 52 = ?b mod 2 ^ 52"
    unfolding c by (rule div_mult_self1, simp, rule mod_mult_self1)
  have s1: "(2 ^ 63 + ?b) div 2 ^ 63 = 1" using s by (simp add: div_add_self1)
  have em: "?b div 2 ^ 52 mod 2048 = ?b div 2 ^ 52" "(2048 + ?b div 2 ^ 52) mod 2048 = ?b div 2 ^ 52"
    using e by simp_all
  show "f64_of_bits ?b = Fin x"
    unfolding f64_of_bits_def Let_def em using e s f(3) by simp
  show "f64_of_bits (2 ^ 63 + ?b) = Fin (- x)"
    unfolding f64_of_bits_def Let_def sh s1 em using e f(3) by simp
qed

lemma f64_bits_roundtrip [wire_simps]: "float_ok x \<Longrightarrow> f64_of_bits (f64_bits x) = x"
proof (cases x)
  case (Fin r)
  assume "float_ok x"
  then have "rnd \<bar>r\<bar> = \<bar>r\<bar>" "\<bar>r\<bar> < f64_limit" using Fin by (auto simp: abs_if rnd_minus)
  then show ?thesis using f64_of_bits_mag [of "\<bar>r\<bar>"] Fin by (auto simp: abs_if split: if_splits)
qed (simp_all add: f64_of_bits_def)

section \<open>The struct module\<close>

text \<open>A little-endian format is the list of its codes; a repeat count such as \<open>3x\<close> is written out.\<close>

datatype fmt_code = FQ | FI | FB | Fd | Fx

datatype sval = SInt int | SFloat pyfloat

fun code_size :: "fmt_code \<Rightarrow> nat" where
  "code_size FQ = 8"
| "code_size FI = 4"
| "code_size FB = 1"
| "code_size Fd = 8"
| "code_size Fx = 1"

definition calcsize :: "fmt_code list \<Rightarrow> nat" where
  "calcsize fs = sum_list (map code_size fs)"

definition pack_int :: "nat \<Rightarrow> int \<Rightarrow> bytes result" where
  "pack_int k n = (if 0 \<le> n \<and> n < 256 ^ k then Inr (le_bytes k n) else Inl StructError)"

fun pack1 :: "fmt_code \<Rightarrow> sval \<Rightarrow> bytes result" where
  "pack1 Fd (SFloat x) = Inr (le_bytes 8 (f64_bits x))"
| "pack1 Fd (SInt n) = rbind (num_float (PyI n)) (\<lambda>x. Inr (le_bytes 8 (f64_bits x)))"
| "pack1 c (SInt n) = pack_int (code_size c) n"
| "pack1 c (SFloat x) = Inl StructError"

fun pack :: "fmt_code list \<Rightarrow> sval list \<Rightarrow> bytes result" where
  "pack [] [] = Inr []"
| "pack [] (v # vs) = Inl StructError"
| "pack (Fx # fs) vs = rbind (pack fs vs) (\<lambda>bs. Inr (0 # bs))"
| "pack (c # fs) [] = Inl StructError"
| "pack (c # fs) (v # vs) = rbind (pack1 c v) (\<lambda>b. rbind (pack fs vs) (\<lambda>bs. Inr (b @ bs)))"

fun unpack1 :: "fmt_code \<Rightarrow> bytes \<Rightarrow> sval" where
  "unpack1 Fd bs = SFloat (f64_of_bits (le_val bs))"
| "unpack1 c bs = SInt (le_val bs)"

fun unpack :: "fmt_code list \<Rightarrow> bytes \<Rightarrow> sval list" where
  "unpack [] bs = []"
| "unpack (Fx # fs) bs = unpack fs (drop 1 bs)"
| "unpack (c # fs) bs = unpack1 c (take (code_size c) bs) # unpack fs (drop (code_size c) bs)"

definition unpack_from :: "fmt_code list \<Rightarrow> bytes \<Rightarrow> nat \<Rightarrow> sval list result" where
  "unpack_from fs buf off =
     (if length buf < off + calcsize fs then Inl StructError else Inr (unpack fs (drop off buf)))"

text \<open>Which values a format packs without loss.\<close>

fun fits1 :: "fmt_code \<Rightarrow> sval \<Rightarrow> bool" where
  "fits1 Fd (SFloat x) \<longleftrightarrow> float_ok x"
| "fits1 Fd (SInt n) \<longleftrightarrow> False"
| "fits1 c (SInt n) \<longleftrightarrow> 0 \<le> n \<and> n < 256 ^ code_size c"
| "fits1 c (SFloat x) \<longleftrightarrow> False"

fun fits :: "fmt_code list \<Rightarrow> sval list \<Rightarrow> bool" where
  "fits [] vs \<longleftrightarrow> vs = []"
| "fits (Fx # fs) vs \<longleftrightarrow> fits fs vs"
| "fits (c # fs) [] \<longleftrightarrow> False"
| "fits (c # fs) (v # vs) \<longleftrightarrow> fits1 c v \<and> fits fs vs"

lemma calcsize_simps [simp]: "calcsize [] = 0" "calcsize (c # fs) = code_size c + calcsize fs"
  by (simp_all add: calcsize_def)

lemma pack1_fits:
  "c \<noteq> Fx \<Longrightarrow> fits1 c v \<Longrightarrow>
     \<exists>b. pack1 c v = Inr b \<and> length b = code_size c \<and> unpack1 c b = v"
  using f64_bits_range [of "case v of SFloat x \<Rightarrow> x"]
  by (cases "(c, v)" rule: fits1.cases) (auto simp: pack_int_def wire_simps uint_word_of_int_8)

lemma unpack_Cons: "c \<noteq> Fx \<Longrightarrow> length b = code_size c \<Longrightarrow>
    unpack (c # fs) (b @ bs) = unpack1 c b # unpack fs bs"
  by (cases c) auto

lemma pack_Cons: "c \<noteq> Fx \<Longrightarrow>
    pack (c # fs) (v # vs) = rbind (pack1 c v) (\<lambda>b. rbind (pack fs vs) (\<lambda>bs. Inr (b @ bs)))"
  by (cases c) auto

theorem pack_roundtrip:
  "fits fs vs \<Longrightarrow>
     \<exists>bs. pack fs vs = Inr bs \<and> length bs = calcsize fs \<and> (\<forall>rest. unpack fs (bs @ rest) = vs)"
proof (induction fs arbitrary: vs)
  case Nil
  then show ?case by simp
next
  case (Cons c fs)
  show ?case
  proof (cases "c = Fx")
    case True
    with Cons obtain bs where "pack fs vs = Inr bs" "length bs = calcsize fs"
      "\<forall>rest. unpack fs (bs @ rest) = vs" by auto
    with True show ?thesis by simp
  next
    case False
    with Cons.prems obtain v ws where v: "vs = v # ws" "fits1 c v" "fits fs ws"
      by (cases c; cases vs) auto
    from Cons.IH [OF v(3)] obtain bs where bs: "pack fs ws = Inr bs" "length bs = calcsize fs"
      "\<forall>rest. unpack fs (bs @ rest) = ws" by auto
    from pack1_fits [OF False v(2)] obtain b where
      b: "pack1 c v = Inr b" "length b = code_size c" "unpack1 c b = v" by auto
    with bs v(1) False show ?thesis by (simp add: pack_Cons unpack_Cons)
  qed
qed

section \<open>Fixed-width frames\<close>

text \<open>\<open>range(0, stop, step)\<close> for a positive step.\<close>

definition range_step :: "nat \<Rightarrow> nat \<Rightarrow> nat list" where
  "range_step stop step = map (\<lambda>i. i * step) [0..<(stop + step - 1) div step]"

lemma range_step_mult: "0 < w \<Longrightarrow> range_step (n * w) w = map (\<lambda>i. i * w) [0..<n]"
proof -
  assume w: "0 < w"
  then have "n * w + w - 1 = w - 1 + n * w" by simp
  also have "\<dots> div w = n + (w - 1) div w" using w by (intro div_mult_self1) simp
  finally have "(n * w + w - 1) div w = n" using w by simp
  then show ?thesis by (simp add: range_step_def)
qed

text \<open>The loop that decodes one frame of width \<open>w\<close> at every offset of a payload.\<close>

definition decode_frames :: "nat \<Rightarrow> (bytes \<Rightarrow> nat \<Rightarrow> 'a result) \<Rightarrow> bytes \<Rightarrow> 'a list result" where
  "decode_frames w dec payload = rmap_list (dec payload) (range_step (length payload) w)"

locale frame_codec =
  fixes enc :: "'a \<Rightarrow> bytes"
    and dec :: "bytes \<Rightarrow> nat \<Rightarrow> 'a result"
    and width :: nat
    and ok :: "'a \<Rightarrow> bool"
  assumes width_pos: "0 < width"
    and enc_length: "ok x \<Longrightarrow> length (enc x) = width"
    and dec_enc: "ok x \<Longrightarrow> dec (pre @ enc x @ post) (length pre) = Inr x"
begin

lemma length_concat: "list_all ok xs \<Longrightarrow> length (concat (map enc xs)) = length xs * width"
  by (induction xs) (auto simp: enc_length)

lemma dec_nth:
  assumes "list_all ok xs" "i < length xs"
  shows "dec (concat (map enc xs)) (i * width) = Inr (xs ! i)"
proof -
  have split: "concat (map enc xs) =
      concat (map enc (take i xs)) @ enc (xs ! i) @ concat (map enc (drop (Suc i) xs))"
    using assms(2) by (subst id_take_nth_drop [of i xs]) auto
  have "list_all ok (take i xs)" using assms(1) by (auto simp: list_all_iff dest: in_set_takeD)
  then have "length (concat (map enc (take i xs))) = i * width"
    using assms(2) by (simp add: length_concat)
  moreover have "ok (xs ! i)" using assms by (simp add: list_all_length)
  then have "dec (concat (map enc xs)) (length (concat (map enc (take i xs)))) = Inr (xs ! i)"
    unfolding split by (rule dec_enc)
  ultimately show ?thesis by simp
qed

lemma decode_concat:
  assumes "list_all ok xs"
  shows "decode_frames width dec (concat (map enc xs)) = Inr xs"
proof -
  have "decode_frames width dec (concat (map enc xs)) =
      rmap_list (dec (concat (map enc xs))) (map (\<lambda>i. i * width) [0..<length xs])"
    by (simp add: decode_frames_def length_concat [OF assms] range_step_mult [OF width_pos])
  also have "\<dots> = Inr (map (\<lambda>off. xs ! (off div width)) (map (\<lambda>i. i * width) [0..<length xs]))"
    by (rule rmap_list_Inr) (use width_pos in \<open>auto simp: dec_nth [OF assms]\<close>)
  also have "map (\<lambda>off. xs ! (off div width)) (map (\<lambda>i. i * width) [0..<length xs]) = xs"
    using width_pos by (simp add: o_def map_nth)
  finally show ?thesis .
qed

lemma injective:
  assumes "list_all ok xs" "list_all ok ys" "concat (map enc xs) = concat (map enc ys)"
  shows "xs = ys"
proof -
  have "Inr xs = (Inr ys :: 'a list result)"
    by (simp only: decode_concat [OF assms(1), symmetric] decode_concat [OF assms(2), symmetric] assms(3))
  then show ?thesis by simp
qed

end

end
