(* ===== verification/PyStr.thy ===== *)
theory PyStr
  imports PyNum
begin

text \<open>
  Python's \<open>str\<close> as far as the program uses it. A string is a list of characters, a character a
  code point below 256; the texts the modelled code builds and parses are ASCII.

  Decimal integers: \<open>show_int\<close> (\<open>str\<close> of an int), \<open>comma_int\<close> (the \<open>:,\<close> format) and
  \<open>parse_int\<close> (\<open>int\<close> of a string). Floats: \<open>float_repr\<close> is the shortest decimal that rounds
  back to the value, the nearest of those when there are several, laid out as \<open>repr\<close> does.
\<close>

section \<open>Decimal integers\<close>

definition digit_char :: "nat \<Rightarrow> char" where
  "digit_char d = char_of (48 + d)"

definition is_digit :: "char \<Rightarrow> bool" where
  "is_digit c \<longleftrightarrow> 48 \<le> (of_char c :: nat) \<and> (of_char c :: nat) \<le> 57"

definition digit_val :: "char \<Rightarrow> nat" where
  "digit_val c = of_char c - 48"

fun show_nat :: "nat \<Rightarrow> string" where
  "show_nat n = (if n < 10 then [digit_char n] else show_nat (n div 10) @ [digit_char (n mod 10)])"

declare show_nat.simps [simp del]

definition show_int :: "int \<Rightarrow> string" where
  "show_int n = (if n < 0 then CHR ''-'' # show_nat (nat (- n)) else show_nat (nat n))"

fun digits_val :: "nat \<Rightarrow> string \<Rightarrow> nat" where
  "digits_val acc [] = acc"
| "digits_val acc (c # cs) = digits_val (10 * acc + digit_val c) cs"

lemma digit_char_simps [simp]:
  "d < 10 \<Longrightarrow> is_digit (digit_char d)" "d < 10 \<Longrightarrow> digit_val (digit_char d) = d"
  by (simp_all add: is_digit_def digit_char_def digit_val_def of_char_of)

lemma show_nat_nonempty [simp]: "show_nat n \<noteq> []"
  by (subst show_nat.simps) simp

lemma show_nat_digits: "list_all is_digit (show_nat n)"
proof (induction n rule: show_nat.induct)
  case (1 n)
  then show ?case by (subst show_nat.simps) simp
qed

lemma digits_val_append: "digits_val acc (xs @ ys) = digits_val (digits_val acc xs) ys"
  by (induction xs arbitrary: acc) auto

lemma digits_val_show_nat: "digits_val 0 (show_nat n) = n"
proof (induction n rule: show_nat.induct)
  case (1 n)
  show ?case
  proof (cases "n < 10")
    case True
    then show ?thesis by (subst show_nat.simps) simp
  next
    case False
    with 1 have "digits_val 0 (show_nat (n div 10)) = n div 10" by simp
    with False show ?thesis by (subst show_nat.simps) (simp add: digits_val_append)
  qed
qed

lemma show_nat_inj: "show_nat m = show_nat n \<longleftrightarrow> m = n"
  by (metis digits_val_show_nat)

text \<open>The \<open>:,\<close> format: a comma before every group of three digits, counted from the right.\<close>

fun group3 :: "string \<Rightarrow> string" where
  "group3 (a # b # c # d # rest) = a # b # c # CHR '','' # group3 (d # rest)"
| "group3 cs = cs"

definition comma_nat :: "nat \<Rightarrow> string" where
  "comma_nat n = rev (group3 (rev (show_nat n)))"

definition comma_int :: "int \<Rightarrow> string" where
  "comma_int n = (if n < 0 then CHR ''-'' # comma_nat (nat (- n)) else comma_nat (nat n))"

text \<open>\<open>s.replace(",", "")\<close> undoes the grouping.\<close>

definition drop_commas :: "string \<Rightarrow> string" where
  "drop_commas = filter (\<lambda>c. c \<noteq> CHR '','')"

lemma is_digit_not [simp]:
  "\<not> is_digit CHR '',''" "\<not> is_digit CHR '' ''" "\<not> is_digit CHR ''-''" "\<not> is_digit CHR ''|''"
  "\<not> is_digit CHR ''.''" "\<not> is_digit CHR ''+''" "\<not> is_digit CHR ''_''" "\<not> is_digit CHR ''/''"
  by (simp_all add: is_digit_def)

lemma drop_commas_group3: "list_all is_digit cs \<Longrightarrow> drop_commas (group3 cs) = cs"
proof (induction cs rule: group3.induct)
  case (1 a b c d rest)
  then show ?case by (auto simp: drop_commas_def)
qed (auto simp: drop_commas_def)

lemma drop_commas_rev: "drop_commas (rev cs) = rev (drop_commas cs)"
  by (simp add: drop_commas_def rev_filter)

lemma drop_commas_comma_nat: "drop_commas (comma_nat n) = show_nat n"
  using show_nat_digits [of n]
  by (simp add: comma_nat_def drop_commas_rev drop_commas_group3 list_all_iff)

lemma drop_commas_comma_int: "drop_commas (comma_int n) = show_int n"
  using drop_commas_comma_nat [of "nat n"] drop_commas_comma_nat [of "nat (- n)"]
  by (auto simp: comma_int_def show_int_def) (simp add: drop_commas_def)

section \<open>Substrings\<close>

definition starts_with :: "string \<Rightarrow> string \<Rightarrow> bool" where
  "starts_with p s \<longleftrightarrow> take (length p) s = p"

text \<open>\<open>p in s\<close>\<close>

fun contains :: "string \<Rightarrow> string \<Rightarrow> bool" where
  "contains p [] \<longleftrightarrow> p = []"
| "contains p (c # cs) \<longleftrightarrow> starts_with p (c # cs) \<or> contains p cs"

lemma starts_with_append [simp]: "starts_with p (p @ s)"
  by (simp add: starts_with_def)

lemma contains_prefix: "contains p (p @ s)"
  using starts_with_append [of p s] by (cases "p @ s") auto

lemma contains_append: "contains p (a @ p @ b)"
  by (induction a) (auto simp: contains_prefix)

section \<open>Shortest decimal of a float\<close>

text \<open>The decimal exponent of a positive rational: \<open>10 powi ilog10 x \<le> x < 10 powi (ilog10 x + 1)\<close>.\<close>

definition ilog10 :: "rat \<Rightarrow> int" where
  "ilog10 x = (if 1 \<le> x then int (length (show_nat (nat \<lfloor>x\<rfloor>))) - 1
               else - int (length (show_nat (nat (\<lceil>1 / x\<rceil> - 1)))))"

text \<open>
  The candidates with \<open>n\<close> digits are the two neighbours of \<open>x\<close> on the grid of that precision;
  those that round to \<open>x\<close> qualify, the nearer one first, the even one on a tie.
\<close>

definition dec_candidate :: "rat \<Rightarrow> nat \<Rightarrow> (int \<times> int) option" where
  "dec_candidate x n =
     (let k = ilog10 x - int n + 1; s = 10 powi k; near = round_half_even (x / s);
          lo = \<lfloor>x / s\<rfloor>; other = (if near = lo then lo + 1 else lo)
      in if rnd (of_int near * s) = x then Some (near, k)
         else if rnd (of_int other * s) = x then Some (other, k) else None)"

fun shortest_from :: "nat \<Rightarrow> nat \<Rightarrow> rat \<Rightarrow> (int \<times> int) option" where
  "shortest_from 0 n x = None"
| "shortest_from (Suc fuel) n x =
     (case dec_candidate x n of Some d \<Rightarrow> Some d | None \<Rightarrow> shortest_from fuel (Suc n) x)"

text \<open>No finite binary64 needs more than \<open>1400\<close> significant digits to be exact.\<close>

definition shortest_dec :: "rat \<Rightarrow> (int \<times> int) option" where
  "shortest_dec x = shortest_from 1400 1 x"

fun strip_zeros :: "nat \<Rightarrow> nat \<Rightarrow> nat \<times> nat" where
  "strip_zeros 0 d = (d, 0)"
| "strip_zeros (Suc fuel) d =
     (if d \<noteq> 0 \<and> d mod 10 = 0 then let (d', z) = strip_zeros fuel (d div 10) in (d', Suc z) else (d, 0))"

text \<open>Layout of the digits \<open>d\<close> at exponent \<open>k\<close>: positional for a point position in -3..16.\<close>

definition show_exponent :: "int \<Rightarrow> string" where
  "show_exponent e = CHR ''e'' # (if e < 0 then CHR ''-'' else CHR ''+'') #
     (let ds = show_nat (nat \<bar>e\<bar>) in if length ds < 2 then CHR ''0'' # ds else ds)"

definition layout_dec :: "nat \<Rightarrow> int \<Rightarrow> string" where
  "layout_dec d k =
     (let ds = show_nat d; pt = int (length ds) + k
      in if 16 < pt \<or> pt < - 3 then
           (case ds of c # cs \<Rightarrow> (if cs = [] then [c] else c # CHR ''.'' # cs) @ show_exponent (pt - 1) | [] \<Rightarrow> [])
         else if pt \<le> 0 then ''0.'' @ replicate (nat (- pt)) CHR ''0'' @ ds
         else if int (length ds) \<le> pt then ds @ replicate (nat pt - length ds) CHR ''0'' @ ''.0''
         else take (nat pt) ds @ ''.'' @ drop (nat pt) ds)"

definition repr_pos :: "rat \<Rightarrow> string" where
  "repr_pos x = (case shortest_dec x of
       Some (d, k) \<Rightarrow> (let (d', z) = strip_zeros 20 (nat d) in layout_dec d' (k + int z))
     | None \<Rightarrow> [])"

fun float_repr :: "pyfloat \<Rightarrow> string" where
  "float_repr (Fin x) =
     (if x = 0 then ''0.0'' else if x < 0 then CHR ''-'' # repr_pos (- x) else repr_pos x)"
| "float_repr PInf = ''inf''"
| "float_repr NInf = ''-inf''"
| "float_repr NaN = ''nan''"

end
