(* ===== verification/TradeEvents.thy ===== *)
theory TradeEvents
  imports Wire PyStr
begin

text \<open>
  The trade events that travel from the C++ engine to the scoring worker:
  the frozen dataclass \<open>TradeEvent\<close> and \<open>unpack_trade_events\<close> of
  \<^verbatim>\<open>telemetry/scoring_engine.py\<close>, and the packed struct of
  \<^verbatim>\<open>matching-engine/MarketEvents.h\<close> the engine sends, byte by byte. The codec of the two
  sides is an interpretation of \<open>frame_codec\<close>.
\<close>

record trade_event =
  match_id :: int
  buy_order_id :: int
  sell_order_id :: int
  t0_ns :: int
  t1_ns :: int
  t2_ns :: int
  price :: pyfloat
  qty :: int

definition engine_latency_ns :: "trade_event \<Rightarrow> int" where
  "engine_latency_ns e = max 0 (t2_ns e - t1_ns e)"

definition TRADE_EVENT_FORMAT :: "fmt_code list" where
  "TRADE_EVENT_FORMAT = [FQ, FQ, FQ, FQ, FQ, FQ, Fd, FI]"

definition TRADE_EVENT_SIZE :: nat where
  "TRADE_EVENT_SIZE = calcsize TRADE_EVENT_FORMAT"

lemma TRADE_EVENT_SIZE_60 [simp]: "TRADE_EVENT_SIZE = 60"
  by (simp add: TRADE_EVENT_SIZE_def TRADE_EVENT_FORMAT_def)

text \<open>\<open>TradeEvent(*fields)\<close>: the constructor takes exactly eight positional arguments.\<close>

fun trade_event_of :: "sval list \<Rightarrow> trade_event result" where
  "trade_event_of [SInt m, SInt b, SInt s, SInt t0, SInt t1, SInt t2, SFloat p, SInt q] =
     Inr \<lparr>match_id = m, buy_order_id = b, sell_order_id = s, t0_ns = t0, t1_ns = t1, t2_ns = t2,
          price = p, qty = q\<rparr>"
| "trade_event_of _ = Inl TypeError"

definition trade_event_at :: "bytes \<Rightarrow> nat \<Rightarrow> trade_event result" where
  "trade_event_at payload offset =
     rbind (unpack_from TRADE_EVENT_FORMAT payload offset) trade_event_of"

definition unpack_trade_events :: "bytes \<Rightarrow> trade_event list result" where
  "unpack_trade_events payload =
     (if length payload mod TRADE_EVENT_SIZE \<noteq> 0 then Inl ValueError
      else decode_frames TRADE_EVENT_SIZE trade_event_at payload)"

text \<open>The engine's side: the packed struct, field after field in declaration order.\<close>

definition trade_event_wire :: "trade_event \<Rightarrow> bytes" where
  "trade_event_wire e =
     le_bytes 8 (match_id e) @ le_bytes 8 (buy_order_id e) @ le_bytes 8 (sell_order_id e) @
     le_bytes 8 (t0_ns e) @ le_bytes 8 (t1_ns e) @ le_bytes 8 (t2_ns e) @
     le_bytes 8 (f64_bits (price e)) @ le_bytes 4 (qty e)"

text \<open>The values the C++ field types hold.\<close>

definition u64 :: "int \<Rightarrow> bool" where
  "u64 n \<longleftrightarrow> 0 \<le> n \<and> n < 2 ^ 64"

definition u32 :: "int \<Rightarrow> bool" where
  "u32 n \<longleftrightarrow> 0 \<le> n \<and> n < 2 ^ 32"

definition event_fits :: "trade_event \<Rightarrow> bool" where
  "event_fits e \<longleftrightarrow> u64 (match_id e) \<and> u64 (buy_order_id e) \<and> u64 (sell_order_id e) \<and>
     u64 (t0_ns e) \<and> u64 (t1_ns e) \<and> u64 (t2_ns e) \<and> float_ok (price e) \<and> u32 (qty e)"

lemma length_trade_event_wire [simp, wire_simps]: "length (trade_event_wire e) = 60"
  by (simp add: trade_event_wire_def)

definition event_svals :: "trade_event \<Rightarrow> sval list" where
  "event_svals e = [SInt (match_id e), SInt (buy_order_id e), SInt (sell_order_id e), SInt (t0_ns e),
     SInt (t1_ns e), SInt (t2_ns e), SFloat (price e), SInt (qty e)]"

lemma trade_event_of_svals [simp]: "trade_event_of (event_svals e) = Inr e"
  by (simp add: event_svals_def)

lemma pack_trade_event:
  "event_fits e \<Longrightarrow> pack TRADE_EVENT_FORMAT (event_svals e) = Inr (trade_event_wire e)"
  by (simp add: TRADE_EVENT_FORMAT_def event_svals_def trade_event_wire_def event_fits_def u64_def
      u32_def pack_int_def)

lemma fits_trade_event: "event_fits e \<Longrightarrow> fits TRADE_EVENT_FORMAT (event_svals e)"
  by (simp add: TRADE_EVENT_FORMAT_def event_svals_def event_fits_def u64_def u32_def)

lemma trade_event_at_wire:
  "event_fits e \<Longrightarrow> trade_event_at (pre @ trade_event_wire e @ post) (length pre) = Inr e"
proof -
  assume fit: "event_fits e"
  from pack_roundtrip [OF fits_trade_event [OF fit]] pack_trade_event [OF fit]
  have "unpack TRADE_EVENT_FORMAT (trade_event_wire e @ post) = event_svals e" by auto
  then show ?thesis
    by (simp add: trade_event_at_def unpack_from_def TRADE_EVENT_SIZE_60 [unfolded TRADE_EVENT_SIZE_def])
qed

interpretation trade_codec: frame_codec trade_event_wire trade_event_at TRADE_EVENT_SIZE event_fits
  by unfold_locales (simp_all add: trade_event_at_wire)

text \<open>Decoding never fails on a payload of whole frames, and every price it yields is a binary64.\<close>

lemma unpack_trade_format: "\<exists>m b s t0 t1 t2 p q. unpack TRADE_EVENT_FORMAT bs =
    [SInt m, SInt b, SInt s, SInt t0, SInt t1, SInt t2, SFloat p, SInt q] \<and> float_ok p"
  by (simp add: TRADE_EVENT_FORMAT_def)

lemma trade_event_at_total:
  assumes "offset + 60 \<le> length payload"
  shows "\<exists>e. trade_event_at payload offset = Inr e \<and> float_ok (price e)"
proof -
  obtain m b s t0 t1 t2 p q where "unpack TRADE_EVENT_FORMAT (drop offset payload) =
      [SInt m, SInt b, SInt s, SInt t0, SInt t1, SInt t2, SFloat p, SInt q]" "float_ok p"
    using unpack_trade_format by blast
  with assms show ?thesis
    by (simp add: trade_event_at_def unpack_from_def TRADE_EVENT_SIZE_60 [unfolded TRADE_EVENT_SIZE_def])
qed

lemma unpack_trade_wire:
  "list_all event_fits es \<Longrightarrow> unpack_trade_events (concat (map trade_event_wire es)) = Inr es"
  using trade_codec.decode_concat [of es] trade_codec.length_concat [of es]
  by (simp add: unpack_trade_events_def)

text \<open>
  Round trip across the two languages: whatever batch of trades the engine lays out as packed
  structs, the scoring worker's decoder yields exactly those trades, in order.
\<close>

lemma unpack_trade_events_roundtrip:
  assumes "list_all event_fits es"
  shows "unpack_trade_events (concat (map trade_event_wire es)) = Inr es"
  using assms by (rule unpack_trade_wire)

text \<open>
  The decoder is total on whole frames and raises ValueError on anything else: it succeeds
  exactly when the payload length is a multiple of 60, with one event per 60 bytes, every price a
  well-formed float.
\<close>

lemma unpack_trade_events_total:
  "if length payload mod 60 = 0
   then \<exists>es. unpack_trade_events payload = Inr es \<and> length es = length payload div 60 \<and>
             list_all (\<lambda>e. float_ok (price e)) es
   else unpack_trade_events payload = Inl ValueError"
proof (cases "length payload mod 60 = 0")
  case False
  then show ?thesis by (simp add: unpack_trade_events_def)
next
  case True
  define n where "n = length payload div 60"
  have len: "length payload = n * 60"
    using True div_mult_mod_eq [of "length payload" 60] by (simp add: n_def)
  have offs: "range_step (length payload) 60 = map (\<lambda>i. i * 60) [0..<n]"
    unfolding len by (rule range_step_mult) simp
  have one: "\<exists>e. trade_event_at payload off = Inr e \<and> float_ok (price e)"
    if "off \<in> set (map (\<lambda>i. i * 60) [0..<n])" for off
    using that len by (intro trade_event_at_total) auto
  have "\<exists>es. rmap_list (trade_event_at payload) (map (\<lambda>i. i * 60) [0..<n]) = Inr es \<and>
      length es = length (map (\<lambda>i. i * 60) [0..<n]) \<and> list_all (\<lambda>e. float_ok (price e)) es"
    by (rule rmap_list_total) (rule one)
  then obtain es where
    "rmap_list (trade_event_at payload) (map (\<lambda>i. i * 60) [0..<n]) = Inr es" "length es = n"
    "list_all (\<lambda>e. float_ok (price e)) es" by auto
  then show ?thesis using True offs by (simp add: unpack_trade_events_def decode_frames_def n_def)
qed

end
