(* ===== verification/Scoring.thy ===== *)
theory Scoring
  imports TradeEvents "HOL-Library.AList"
begin

text \<open>
  The class \<open>ContestantState\<close> of \<^verbatim>\<open>telemetry/scoring_engine.py\<close>: its state as a record, its
  methods \<open>check_price_priority\<close>, \<open>validate\<close>, \<open>accept\<close>, \<open>prune\<close> and \<open>metrics\<close>, and the
  function \<open>percentile\<close>. A reading of \<open>time.monotonic()\<close> is an argument of the method that
  takes it. The dict \<open>order_fills\<close> is an association list in insertion order; the deque
  \<open>samples\<close> is a list whose head is the oldest sample.
\<close>

section \<open>State\<close>

record contestant =
  last_match_id :: "int option"
  last_t2_ns :: int
  order_fills :: "(int \<times> int) list"
  window_seconds :: pyfloat
  samples :: "(pyfloat \<times> int) list"
  correctness :: string
  total_events :: int
  prev_event :: "trade_event option"

definition PRICE_EPSILON :: pyfloat where
  "PRICE_EPSILON = to_f64 (1 / 10 ^ 9)"

definition new_contestant :: "pyfloat \<Rightarrow> contestant" where
  "new_contestant w =
     \<lparr>last_match_id = None, last_t2_ns = 0, order_fills = [], window_seconds = w, samples = [],
      correctness = ''PASSED'', total_events = 0, prev_event = None\<rparr>"

section \<open>Violations\<close>

text \<open>The reasons \<open>validate\<close> returns, and the text of each.\<close>

datatype violation =
    MatchSequence int int
  | T2Retrograde
  | ZeroOrderId
  | SelfMatch
  | MissingTimestamp
  | TimestampOrder
  | InvalidPrice
  | InvalidQty
  | PricePriorityBuy int pyfloat pyfloat
  | PricePrioritySell int pyfloat pyfloat

fun violation_text :: "violation \<Rightarrow> string" where
  "violation_text (MatchSequence expected got) =
     ''CRITICAL_ERR: MATCH_SEQUENCE expected='' @ show_int expected @ '' got='' @ show_int got"
| "violation_text T2Retrograde = ''CRITICAL_ERR: T2_RETROGRADE''"
| "violation_text ZeroOrderId = ''CRITICAL_ERR: ZERO_ORDER_ID''"
| "violation_text SelfMatch = ''CRITICAL_ERR: SELF_MATCH''"
| "violation_text MissingTimestamp = ''CRITICAL_ERR: MISSING_TIMESTAMP''"
| "violation_text TimestampOrder = ''CRITICAL_ERR: TIMESTAMP_ORDER''"
| "violation_text InvalidPrice = ''CRITICAL_ERR: INVALID_PRICE''"
| "violation_text InvalidQty = ''CRITICAL_ERR: INVALID_QTY''"
| "violation_text (PricePriorityBuy oid p q) =
     ''CRITICAL_ERR: PRICE_PRIORITY buy_order='' @ show_int oid @ '' traded '' @ float_repr p @
     '' then '' @ float_repr q @ ''; a cheaper ask was available''"
| "violation_text (PricePrioritySell oid p q) =
     ''CRITICAL_ERR: PRICE_PRIORITY sell_order='' @ show_int oid @ '' traded '' @ float_repr p @
     '' then '' @ float_repr q @ ''; a higher bid was available''"

section \<open>Methods\<close>

definition check_price_priority :: "contestant \<Rightarrow> trade_event \<Rightarrow> violation option" where
  "check_price_priority st e =
     (case prev_event st of
        None \<Rightarrow> None
      | Some prev \<Rightarrow>
          (let same_buy = (buy_order_id e = buy_order_id prev);
               same_sell = (sell_order_id e = sell_order_id prev)
           in if same_buy \<and> \<not> same_sell \<and> flt (price e) (fsub (price prev) PRICE_EPSILON)
              then Some (PricePriorityBuy (buy_order_id e) (price prev) (price e))
              else if same_sell \<and> \<not> same_buy \<and> flt (fadd (price prev) PRICE_EPSILON) (price e)
              then Some (PricePrioritySell (sell_order_id e) (price prev) (price e))
              else None))"

definition sequence_error :: "contestant \<Rightarrow> trade_event \<Rightarrow> violation option" where
  "sequence_error st e =
     (case last_match_id st of
        None \<Rightarrow> None
      | Some l \<Rightarrow> if match_id e \<noteq> l + 1 then Some (MatchSequence (l + 1) (match_id e)) else None)"

definition validate :: "contestant \<Rightarrow> trade_event \<Rightarrow> violation option" where
  "validate st e =
     (case sequence_error st e of
        Some v \<Rightarrow> Some v
      | None \<Rightarrow>
          if t2_ns e < last_t2_ns st then Some T2Retrograde
          else if buy_order_id e = 0 \<or> sell_order_id e = 0 then Some ZeroOrderId
          else if buy_order_id e = sell_order_id e then Some SelfMatch
          else if t0_ns e = 0 \<or> t1_ns e = 0 \<or> t2_ns e = 0 then Some MissingTimestamp
          else if t1_ns e < t0_ns e \<or> t2_ns e < t1_ns e then Some TimestampOrder
          else if \<not> is_finite (price e) \<or> fle (price e) (Fin 0) then Some InvalidPrice
          else if qty e \<le> 0 then Some InvalidQty
          else check_price_priority st e)"

text \<open>The \<open>while\<close> loop of \<open>prune\<close>: pop the oldest sample while it is before the cutoff.\<close>

fun prune_loop :: "pyfloat \<Rightarrow> (pyfloat \<times> int) list \<Rightarrow> (pyfloat \<times> int) list" where
  "prune_loop cutoff [] = []"
| "prune_loop cutoff ((t, lat) # rest) =
     (if flt t cutoff then prune_loop cutoff rest else (t, lat) # rest)"

definition prune :: "pyfloat \<Rightarrow> contestant \<Rightarrow> contestant" where
  "prune now st = st\<lparr>samples := prune_loop (fsub now (window_seconds st)) (samples st)\<rparr>"

definition add_fill :: "int \<Rightarrow> int \<Rightarrow> (int \<times> int) list \<Rightarrow> (int \<times> int) list" where
  "add_fill oid q fills =
     AList.update oid ((case map_of fills oid of None \<Rightarrow> 0 | Some n \<Rightarrow> n) + q) fills"

definition accept :: "pyfloat \<Rightarrow> contestant \<Rightarrow> trade_event \<Rightarrow> contestant" where
  "accept now st e =
     prune now
       (st\<lparr>last_match_id := Some (match_id e),
           last_t2_ns := t2_ns e,
           prev_event := Some e,
           order_fills := add_fill (sell_order_id e) (qty e)
                            (add_fill (buy_order_id e) (qty e) (order_fills st)),
           samples := samples st @ [(now, engine_latency_ns e)],
           total_events := total_events st + 1\<rparr>)"

definition percentile :: "int list \<Rightarrow> pyfloat \<Rightarrow> int result" where
  "percentile vals p =
     (if vals = [] then Inr 0
      else (let ordered = sort vals
            in rbind (num_mul (PyI (int (length ordered) - 1)) (PyF p)) (\<lambda>x.
               rbind (num_int x) (\<lambda>idx. py_index ordered idx))))"

record metrics =
  m_tps :: pynum
  m_p50_lat_us :: pynum
  m_p90_lat_us :: pynum
  m_p99_lat_us :: pynum
  m_score :: pynum
  m_correctness :: string
  m_total_events :: int
  m_tracked_orders :: int
  m_last_match_id :: int

text \<open>\<open>percentile(latencies, p) / 1000 if latencies else 0\<close>\<close>

definition latency_us :: "int list \<Rightarrow> pyfloat \<Rightarrow> pynum result" where
  "latency_us lats p =
     (if lats = [] then Inr (PyI 0)
      else rbind (percentile lats p) (\<lambda>v. num_truediv (PyI v) (PyI 1000)))"

definition tps_of :: "nat \<Rightarrow> pyfloat \<Rightarrow> pynum result" where
  "tps_of n w = (if flt (Fin 0) w then num_truediv (PyI (int n)) (PyF w) else Inr (PyI 0))"

definition score_of :: "string \<Rightarrow> pynum \<Rightarrow> pynum \<Rightarrow> pynum result" where
  "score_of corr tps p99 =
     (if corr \<noteq> ''PASSED'' then Inr (PyI 0)
      else num_truediv tps (num_max2 p99 (PyF (to_f64 (1 / 10)))))"

text \<open>\<open>metrics\<close> prunes first, so it returns the new state beside the dict.\<close>

definition metrics :: "pyfloat \<Rightarrow> contestant \<Rightarrow> (metrics \<times> contestant) result" where
  "metrics now st =
     (let st = prune now st; lats = map snd (samples st)
      in rbind (latency_us lats (to_f64 (1 / 2))) (\<lambda>p50.
         rbind (latency_us lats (to_f64 (9 / 10))) (\<lambda>p90.
         rbind (latency_us lats (to_f64 (99 / 100))) (\<lambda>p99.
         rbind (tps_of (length (samples st)) (window_seconds st)) (\<lambda>tps.
         rbind (score_of (correctness st) tps p99) (\<lambda>score.
           Inr (\<lparr>m_tps = num_round 2 tps,
                 m_p50_lat_us = num_round 2 p50,
                 m_p90_lat_us = num_round 2 p90,
                 m_p99_lat_us = num_round 2 p99,
                 m_score = num_round 4 score,
                 m_correctness = correctness st,
                 m_total_events = total_events st,
                 m_tracked_orders = int (length (order_fills st)),
                 m_last_match_id = (case last_match_id st of None \<Rightarrow> 0 | Some l \<Rightarrow> l)\<rparr>, st)))))))"

section \<open>The contract of a trade stream\<close>

text \<open>
  What \<open>validate\<close> promises, stated without its state: each trade is well formed by itself, and
  each trade follows its predecessor (consecutive match id, engine timestamps that do not go back,
  price in the only direction the shared order allows).
\<close>

definition well_formed_trade :: "trade_event \<Rightarrow> bool" where
  "well_formed_trade e \<longleftrightarrow>
     buy_order_id e \<noteq> 0 \<and> sell_order_id e \<noteq> 0 \<and> buy_order_id e \<noteq> sell_order_id e \<and>
     t0_ns e \<noteq> 0 \<and> t1_ns e \<noteq> 0 \<and> t2_ns e \<noteq> 0 \<and> t0_ns e \<le> t1_ns e \<and> t1_ns e \<le> t2_ns e \<and>
     is_finite (price e) \<and> flt (Fin 0) (price e) \<and> 0 < qty e"

definition price_step_ok :: "trade_event \<Rightarrow> trade_event \<Rightarrow> bool" where
  "price_step_ok prev e \<longleftrightarrow>
     (if buy_order_id e = buy_order_id prev \<and> sell_order_id e \<noteq> sell_order_id prev
      then \<not> flt (price e) (fsub (price prev) PRICE_EPSILON)
      else if sell_order_id e = sell_order_id prev \<and> buy_order_id e \<noteq> buy_order_id prev
      then \<not> flt (fadd (price prev) PRICE_EPSILON) (price e)
      else True)"

definition follows :: "trade_event \<Rightarrow> trade_event \<Rightarrow> bool" where
  "follows prev e \<longleftrightarrow>
     match_id e = match_id prev + 1 \<and> t2_ns prev \<le> t2_ns e \<and> price_step_ok prev e"

fun legal_from :: "trade_event option \<Rightarrow> trade_event list \<Rightarrow> bool" where
  "legal_from p [] \<longleftrightarrow> True"
| "legal_from p (e # es) \<longleftrightarrow>
     well_formed_trade e \<and> (case p of None \<Rightarrow> 0 \<le> t2_ns e | Some q \<Rightarrow> follows q e) \<and>
     legal_from (Some e) es"

text \<open>The fields \<open>validate\<close> reads agree with the last accepted trade.\<close>

definition consistent :: "contestant \<Rightarrow> bool" where
  "consistent st \<longleftrightarrow>
     (case prev_event st of
        None \<Rightarrow> last_match_id st = None \<and> last_t2_ns st = 0
      | Some p \<Rightarrow> last_match_id st = Some (match_id p) \<and> last_t2_ns st = t2_ns p) \<and>
     distinct (map fst (order_fills st))"

lemma prune_simps [simp]:
  "last_match_id (prune now st) = last_match_id st" "last_t2_ns (prune now st) = last_t2_ns st"
  "prev_event (prune now st) = prev_event st" "order_fills (prune now st) = order_fills st"
  "correctness (prune now st) = correctness st" "total_events (prune now st) = total_events st"
  "window_seconds (prune now st) = window_seconds st"
  "samples (prune now st) = prune_loop (fsub now (window_seconds st)) (samples st)"
  by (simp_all add: prune_def)

lemma accept_simps [simp]:
  "last_match_id (accept now st e) = Some (match_id e)" "last_t2_ns (accept now st e) = t2_ns e"
  "prev_event (accept now st e) = Some e" "correctness (accept now st e) = correctness st"
  "window_seconds (accept now st e) = window_seconds st"
  "total_events (accept now st e) = total_events st + 1"
  "order_fills (accept now st e) =
     add_fill (sell_order_id e) (qty e) (add_fill (buy_order_id e) (qty e) (order_fills st))"
  "samples (accept now st e) =
     prune_loop (fsub now (window_seconds st)) (samples st @ [(now, engine_latency_ns e)])"
  by (simp_all add: accept_def)

lemma distinct_add_fill [simp]:
  "distinct (map fst fills) \<Longrightarrow> distinct (map fst (add_fill oid q fills))"
  by (simp add: add_fill_def distinct_update)

lemma consistent_new [simp]: "consistent (new_contestant w)"
  by (simp add: consistent_def new_contestant_def)

lemma consistent_accept [simp]: "consistent st \<Longrightarrow> consistent (accept now st e)"
  by (simp add: consistent_def)

lemma fle_zero_iff: "is_finite p \<Longrightarrow> fle p (Fin 0) \<longleftrightarrow> \<not> flt (Fin 0) p"
  by (cases p) auto

lemma check_price_priority_None:
  "check_price_priority st e = None \<longleftrightarrow>
     (case prev_event st of None \<Rightarrow> True | Some p \<Rightarrow> price_step_ok p e)"
  by (auto simp: check_price_priority_def price_step_ok_def Let_def split: option.splits)

lemma validate_None:
  assumes "consistent st"
  shows "validate st e = None \<longleftrightarrow>
    well_formed_trade e \<and> (case prev_event st of None \<Rightarrow> 0 \<le> t2_ns e | Some p \<Rightarrow> follows p e)"
proof (cases "prev_event st")
  case None
  with assms have "last_match_id st = None" "last_t2_ns st = 0" by (simp_all add: consistent_def)
  with None show ?thesis
    by (auto simp: validate_def sequence_error_def well_formed_trade_def fle_zero_iff
        check_price_priority_None)
next
  case (Some p)
  with assms have "last_match_id st = Some (match_id p)" "last_t2_ns st = t2_ns p"
    by (simp_all add: consistent_def)
  with Some show ?thesis
    by (auto simp: validate_def sequence_error_def well_formed_trade_def fle_zero_iff follows_def
        check_price_priority_None)
qed

interpretation scorer: stream_validator validate accept consistent
  by unfold_locales simp

end
