(* ===== verification/ScoringStream.thy ===== *)
theory ScoringStream
  imports Scoring
begin

text \<open>
  The validator over a whole stream of trades. Through the interpretation \<open>scorer\<close> of the
  \<open>stream_validator\<close> interface, the loop of the worker (validate, then accept, stop at the first
  violation) is related to the stateless contract \<open>legal_from\<close>; the fills the state records are
  related to the trades accepted.
\<close>

section \<open>Acceptance is legality\<close>

definition run_stream :: "contestant \<Rightarrow> (pyfloat \<times> trade_event) list \<Rightarrow> contestant \<times> violation option" where
  "run_stream = run_checked validate accept"

lemma run_accepts_iff:
  "consistent st \<Longrightarrow>
     snd (run_stream st xs) = None \<longleftrightarrow> legal_from (prev_event st) (map snd xs)"
proof (induction xs arbitrary: st)
  case Nil
  then show ?case by (simp add: run_stream_def)
next
  case (Cons x xs)
  obtain t e where x: "x = (t, e)" by (cases x)
  show ?case
  proof (cases "validate st e")
    case None
    with Cons.prems have v: "well_formed_trade e \<and>
        (case prev_event st of None \<Rightarrow> 0 \<le> t2_ns e | Some q \<Rightarrow> follows q e)"
      by (simp add: validate_None)
    have "snd (run_stream st (x # xs)) = snd (run_stream (accept t st e) xs)"
      using x None by (simp add: run_stream_def)
    with Cons.IH [of "accept t st e"] Cons.prems x v show ?thesis by simp
  next
    case (Some v)
    with Cons.prems have "\<not> (well_formed_trade e \<and>
        (case prev_event st of None \<Rightarrow> 0 \<le> t2_ns e | Some q \<Rightarrow> follows q e))"
      using validate_None [of st e] by simp
    with x Some show ?thesis by (auto simp: run_stream_def)
  qed
qed

lemma prev_event_new [simp]: "prev_event (new_contestant w) = None"
  by (simp add: new_contestant_def)

lemma fresh_stream_legal:
  "snd (run_stream (new_contestant w) xs) = None \<longleftrightarrow> legal_from None (map snd xs)"
  using run_accepts_iff [of "new_contestant w" xs] by simp

text \<open>
  The validator implements the stateless contract of a trade stream: a fresh state accepts a
  stream of trades exactly when every trade is well formed and follows its predecessor.
\<close>

lemma stream_accepted_iff_legal:
  "snd (run_stream (new_contestant w) xs) = None \<longleftrightarrow> legal_from None (map snd xs)"
  by (rule fresh_stream_legal)

text \<open>
  The worker stops at the first violation and nowhere else: the loop reports \<open>v\<close> exactly when
  the stream splits into an accepted prefix, one trade that \<open>validate\<close> rejects with \<open>v\<close> in the
  state the prefix leads to, and an arbitrary rest that is never looked at.
\<close>

lemma first_violation_stops:
  "run_stream st xs = (st', Some v) \<longleftrightarrow>
     (\<exists>pre now e post. xs = pre @ (now, e) # post \<and> run_stream st pre = (st', None) \<and>
        validate st' e = Some v)"
  unfolding run_stream_def by (rule scorer.run_first_violation)

section \<open>What a legal stream looks like\<close>

lemma legal_from_nth:
  "legal_from p es \<Longrightarrow> Suc i < length es \<Longrightarrow> follows (es ! i) (es ! Suc i)"
proof (induction es arbitrary: p i)
  case Nil
  then show ?case by simp
next
  case (Cons e es)
  show ?case
  proof (cases i)
    case 0
    with Cons.prems show ?thesis by (cases es) auto
  next
    case (Suc j)
    with Cons.prems Cons.IH [of "Some e" j] show ?thesis by simp
  qed
qed

lemma legal_from_wf: "legal_from p es \<Longrightarrow> list_all well_formed_trade es"
  by (induction es arbitrary: p) auto

lemma legal_match_ids:
  "legal_from p es \<Longrightarrow> i < length es \<Longrightarrow> match_id (es ! i) = match_id (es ! 0) + int i"
proof (induction i)
  case 0
  then show ?case by simp
next
  case (Suc i)
  then show ?case using legal_from_nth [of p es i] by (simp add: follows_def)
qed

lemma legal_t2_sorted: "legal_from p es \<Longrightarrow> sorted (map t2_ns es)"
  by (intro nondecreasing_adjacent) (auto dest: legal_from_nth simp: follows_def)

text \<open>
  An accepted stream has no gap, no repetition and no reordering: the i-th trade carries the
  first match id plus i, and the engine timestamps never decrease.
\<close>

lemma accepted_stream_ordered:
  assumes "snd (run_stream (new_contestant w) xs) = None"
  shows "map (match_id \<circ> snd) xs =
           map (\<lambda>i. match_id (snd (xs ! 0)) + int i) [0..<length xs] \<and>
         sorted (map (t2_ns \<circ> snd) xs)"
proof
  have legal: "legal_from None (map snd xs)" using assms by (simp add: fresh_stream_legal)
  show "map (match_id \<circ> snd) xs = map (\<lambda>i. match_id (snd (xs ! 0)) + int i) [0..<length xs]"
  proof (rule nth_equalityI)
    fix i assume "i < length (map (match_id \<circ> snd) xs)"
    then have i: "i < length xs" by simp
    then have "xs \<noteq> []" by auto
    with legal_match_ids [OF legal, of i] i show
      "map (match_id \<circ> snd) xs ! i = map (\<lambda>i. match_id (snd (xs ! 0)) + int i) [0..<length xs] ! i"
      by simp
  qed simp
  show "sorted (map (t2_ns \<circ> snd) xs)" using legal_t2_sorted [OF legal] by simp
qed

section \<open>Price priority\<close>

lemma PRICE_EPSILON_value:
  "PRICE_EPSILON = Fin (4835703278458517 / 4835703278458516698824704)"
  by (simp add: PRICE_EPSILON_def float_eval)

lemma PRICE_EPSILON_ok [simp]: "float_ok PRICE_EPSILON"
  by (simp add: PRICE_EPSILON_def)

definition eps :: rat where
  "eps = 4835703278458517 / 4835703278458516698824704"

lemma PRICE_EPSILON_eps: "PRICE_EPSILON = Fin eps" "0 < eps"
  by (simp_all add: PRICE_EPSILON_value eps_def)

lemma below_tolerance:
  assumes "float_ok (Fin p)" "float_ok (Fin q)" "flt (Fin q) (fsub (Fin p) PRICE_EPSILON)"
  shows "q < p - eps"
proof (rule ccontr)
  assume "\<not> q < p - eps"
  then have "fle (to_f64 (p - eps)) (Fin q)" using assms(2) by (intro to_f64_le_ok) auto
  moreover have "flt (Fin q) (to_f64 (p - eps))"
    using assms(3) by (simp add: PRICE_EPSILON_eps fsub_def)
  ultimately show False using not_flt_iff [of "Fin q" "to_f64 (p - eps)"] by simp
qed

lemma above_tolerance:
  assumes "float_ok (Fin p)" "float_ok (Fin q)" "flt (fadd (Fin p) PRICE_EPSILON) (Fin q)"
  shows "p + eps < q"
proof (rule ccontr)
  assume "\<not> p + eps < q"
  then have "fle (Fin q) (to_f64 (p + eps))" using assms(2) by (intro to_f64_ge_ok) auto
  moreover have "flt (to_f64 (p + eps)) (Fin q)"
    using assms(3) by (simp add: PRICE_EPSILON_eps)
  ultimately show False using not_flt_iff [of "to_f64 (p + eps)" "Fin q"] by simp
qed

text \<open>
  C15. The price-priority check raises no false alarm through rounding: when it fires, the exact
  prices of the two trades differ by more than the tolerance, in the forbidden direction, and
  exactly one order id is shared.
\<close>

theorem price_priority_sound:
  assumes "prev_event st = Some prev" "price prev = Fin p" "price e = Fin q"
    and "float_ok (Fin p)" "float_ok (Fin q)"
    and "check_price_priority st e = Some v"
  shows "v = PricePriorityBuy (buy_order_id e) (Fin p) (Fin q) \<and>
           buy_order_id e = buy_order_id prev \<and> sell_order_id e \<noteq> sell_order_id prev \<and> q < p - eps \<or>
         v = PricePrioritySell (sell_order_id e) (Fin p) (Fin q) \<and>
           sell_order_id e = sell_order_id prev \<and> buy_order_id e \<noteq> buy_order_id prev \<and> p + eps < q"
  using assms below_tolerance [OF assms(4,5)] above_tolerance [OF assms(4,5)]
  by (auto simp: check_price_priority_def Let_def split: if_splits)

definition sample_trade :: "int \<Rightarrow> int \<Rightarrow> int \<Rightarrow> rat \<Rightarrow> trade_event" where
  "sample_trade m b s p =
     \<lparr>match_id = m, buy_order_id = b, sell_order_id = s, t0_ns = 10, t1_ns = 20, t2_ns = 30,
      price = Fin p, qty = 5\<rparr>"

lemma sample_floats [simp]: "float_ok (Fin 10)" "float_ok (Fin (21 / 2))" "float_ok (Fin 11)"
  by (simp_all add: f64_limit_def rounding_eval)

theorem price_priority_sound_witness:
  "PricePriorityBuy 100 (Fin (21 / 2)) (Fin 10) = PricePriorityBuy 100 (Fin (21 / 2)) (Fin 10) \<and>
     (100 :: int) = 100 \<and> (201 :: int) \<noteq> 200 \<and> 10 < 21 / 2 - eps \<or>
   PricePriorityBuy 100 (Fin (21 / 2)) (Fin 10) = PricePrioritySell 201 (Fin (21 / 2)) (Fin 10) \<and>
     (201 :: int) = 200 \<and> (100 :: int) \<noteq> 100 \<and> 21 / 2 + eps < 10"
  using price_priority_sound [of "accept (Fin 0) (new_contestant (Fin 1)) (sample_trade 1 100 200 (21 / 2))"
      "sample_trade 1 100 200 (21 / 2)" "21 / 2" "sample_trade 2 100 201 10" 10
      "PricePriorityBuy 100 (Fin (21 / 2)) (Fin 10)"]
  by (simp add: sample_trade_def check_price_priority_def PRICE_EPSILON_value fsub_def float_eval)

text \<open>
  A resting order hit again and again at its own limit never trips the check: after a trade at
  a price, a trade at the same price is accepted by \<open>check_price_priority\<close> whatever orders it
  names.
\<close>

lemma flat_price_never_flagged:
  assumes "prev_event st = Some prev" "float_ok (price prev)" "price e = price prev"
  shows "check_price_priority st e = None"
proof -
  have "\<not> flt (price prev) (fsub (price prev) PRICE_EPSILON) \<and>
        \<not> flt (fadd (price prev) PRICE_EPSILON) (price prev)"
  proof (cases "price prev")
    case (Fin p)
    have "\<not> p < p - eps" "\<not> p + eps < p" using PRICE_EPSILON_eps by linarith+
    with assms(2) Fin below_tolerance [of p p] above_tolerance [of p p] show ?thesis by auto
  qed (simp_all add: fsub_def PRICE_EPSILON_eps)
  with assms show ?thesis by (simp add: check_price_priority_None price_step_ok_def)
qed

section \<open>Recorded fills\<close>

definition trade_fill :: "int \<Rightarrow> trade_event \<Rightarrow> int" where
  "trade_fill oid e =
     (if buy_order_id e = oid then qty e else 0) + (if sell_order_id e = oid then qty e else 0)"

definition fill_of :: "(int \<times> int) list \<Rightarrow> int \<Rightarrow> int" where
  "fill_of fills oid = (case map_of fills oid of None \<Rightarrow> 0 | Some n \<Rightarrow> n)"

lemma fill_of_add_fill [simp]:
  "fill_of (add_fill oid q fills) o' = fill_of fills o' + (if o' = oid then q else 0)"
  by (simp add: fill_of_def add_fill_def update_conv' split: option.splits)

lemma dom_add_fill [simp]: "fst ` set (add_fill oid q fills) = insert oid (fst ` set fills)"
  by (simp add: add_fill_def dom_update)

lemma run_stream_fills:
  "run_stream st xs = (st', None) \<Longrightarrow>
     fill_of (order_fills st') oid = fill_of (order_fills st) oid + sum_list (map (trade_fill oid \<circ> snd) xs) \<and>
     fst ` set (order_fills st') = fst ` set (order_fills st) \<union>
       (\<Union>e \<in> set (map snd xs). {buy_order_id e, sell_order_id e}) \<and>
     total_events st' = total_events st + int (length xs)"
proof (induction xs arbitrary: st)
  case Nil
  then show ?case by (simp add: run_stream_def)
next
  case (Cons x xs)
  obtain t e where x: "x = (t, e)" by (cases x)
  with Cons.prems have "run_stream (accept t st e) xs = (st', None)"
    by (auto simp: run_stream_def split: option.splits)
  from Cons.IH [OF this] x show ?case by (auto simp: trade_fill_def)
qed

lemma run_stream_consistent: "run_stream (new_contestant w) xs = (st', r) \<Longrightarrow> consistent st'"
  using scorer.run_inv [of "new_contestant w" xs] by (simp add: run_stream_def)

text \<open>
  The state's accounting is exact: after an accepted stream, each order's recorded fill is the
  sum of the quantities of the trades that name it, the number of tracked orders is the number of
  distinct order ids seen, and the event counter is the length of the stream.
\<close>

lemma accepted_fills_exact:
  assumes "run_stream (new_contestant w) xs = (st', None)"
  shows "fill_of (order_fills st') oid = sum_list (map (trade_fill oid \<circ> snd) xs) \<and>
         length (order_fills st') =
           card (\<Union>e \<in> set (map snd xs). {buy_order_id e, sell_order_id e}) \<and>
         total_events st' = int (length xs)"
proof -
  have new: "order_fills (new_contestant w) = []" "total_events (new_contestant w) = 0"
    by (simp_all add: new_contestant_def)
  note r = run_stream_fills [OF assms, of oid]
  have d: "distinct (map fst (order_fills st'))"
    using run_stream_consistent [OF assms] by (simp add: consistent_def)
  have "length (order_fills st') = card (fst ` set (order_fills st'))"
    using distinct_card [OF d] by simp
  with r new show ?thesis by (simp add: fill_of_def)
qed

end
