(* ===== verification/ScoringMetrics.thy ===== *)
theory ScoringMetrics
  imports ScoringStream
begin

text \<open>
  The rolling window and the figures computed from it: \<open>prune\<close> keeps exactly the samples inside the
  window, \<open>percentile\<close> is a rank statistic that never indexes out of range, and \<open>metrics\<close> never
  raises and publishes ordered, non-negative figures.
\<close>

section \<open>The rolling window\<close>

definition outside :: "pyfloat \<Rightarrow> pyfloat \<times> int \<Rightarrow> bool" where
  "outside cutoff s \<longleftrightarrow> flt (fst s) cutoff"

definition ascending :: "pyfloat list \<Rightarrow> bool" where
  "ascending ts \<longleftrightarrow> sorted_wrt fle ts \<and> list_all is_finite ts"

lemma prune_loop_dropWhile: "prune_loop c xs = dropWhile (outside c) xs"
  by (induction c xs rule: prune_loop.induct) (auto simp: outside_def)

lemma outside_downward: "fle t u \<Longrightarrow> flt u c \<Longrightarrow> flt t c"
  by (auto simp: fle_def feq_def dest: flt_trans)

lemma prune_loop_filter:
  "sorted_wrt fle (map fst xs) \<Longrightarrow> prune_loop c xs = filter (\<lambda>s. \<not> outside c s) xs"
proof (induction xs)
  case Nil
  then show ?case by simp
next
  case (Cons x xs)
  obtain t l where x: "x = (t, l)" by (cases x)
  have "filter (\<lambda>s. \<not> outside c s) xs = xs" if "\<not> flt t c"
    using that Cons.prems x by (intro filter_True) (auto simp: outside_def dest: outside_downward)
  with Cons x show ?case by (simp add: outside_def)
qed

lemma fsub_mono: "is_finite s \<Longrightarrow> is_finite t \<Longrightarrow> is_finite w \<Longrightarrow> fle s t \<Longrightarrow> fle (fsub s w) (fsub t w)"
  by (cases s; cases t; cases w) (auto simp: fsub_def intro: to_f64_mono)

lemma outside_mono: "fle c d \<Longrightarrow> outside c s \<Longrightarrow> outside d s"
  by (cases "fst s"; cases c; cases d) (auto simp: outside_def)

text \<open>The samples a window of width \<open>w\<close> that ends at \<open>now\<close> holds, of all trades accepted so far.\<close>

definition stamped :: "(pyfloat \<times> trade_event) list \<Rightarrow> (pyfloat \<times> int) list" where
  "stamped xs = map (\<lambda>(t, e). (t, engine_latency_ns e)) xs"

definition window_samples :: "pyfloat \<Rightarrow> pyfloat \<Rightarrow> (pyfloat \<times> trade_event) list \<Rightarrow> (pyfloat \<times> int) list" where
  "window_samples w now xs = filter (\<lambda>s. \<not> outside (fsub now w) s) (stamped xs)"

lemma map_fst_stamped [simp]: "map fst (stamped xs) = map fst xs"
  by (induction xs) (auto simp: stamped_def)

lemma stamped_simps [simp]:
  "stamped [] = []" "stamped (xs @ ys) = stamped xs @ stamped ys" "length (stamped xs) = length xs"
  by (simp_all add: stamped_def)

lemma sorted_fst_filter: "sorted_wrt fle (map fst ys) \<Longrightarrow> sorted_wrt fle (map fst (filter P ys))"
  by (induction ys) auto

lemma prune_window:
  assumes "sorted_wrt fle (map fst xs)" "is_finite w" "is_finite now" "fle now now'" "is_finite now'"
  shows "prune_loop (fsub now' w) (window_samples w now xs) = window_samples w now' xs"
proof -
  have "sorted_wrt fle (map fst (window_samples w now xs))"
    unfolding window_samples_def using assms(1) by (intro sorted_fst_filter) simp
  moreover have "fle (fsub now w) (fsub now' w)" using assms by (intro fsub_mono)
  ultimately show ?thesis
    by (auto simp: prune_loop_filter window_samples_def intro!: filter_cong dest: outside_mono)
qed

lemma run_stream_snoc:
  "run_stream st (xs @ [(t, e)]) = (st', None) \<Longrightarrow>
     \<exists>mid. run_stream st xs = (mid, None) \<and> st' = accept t mid e"
  unfolding run_stream_def scorer.run_append
  by (auto split: prod.splits option.splits)

lemma prune_loop_snoc:
  "sorted_wrt fle (map fst (ys @ [s])) \<Longrightarrow>
     prune_loop c (ys @ [s]) = prune_loop c ys @ filter (\<lambda>s. \<not> outside c s) [s]"
  using prune_loop_filter [of "ys @ [s]" c] prune_loop_filter [of ys c]
  by (simp add: sorted_wrt_append)

lemma run_stream_window:
  assumes "ascending (map fst xs)" "is_finite w" "xs \<noteq> []"
    and "run_stream (new_contestant w) xs = (st, None)"
  shows "samples st = window_samples w (fst (last xs)) xs \<and> window_seconds st = w"
  using assms
proof (induction xs arbitrary: st rule: rev_induct)
  case Nil
  then show ?case by simp
next
  case (snoc x xs)
  obtain t e where x: "x = (t, e)" by (cases x)
  from snoc.prems(4) x obtain mid where mid: "run_stream (new_contestant w) xs = (mid, None)"
    "st = accept t mid e" using run_stream_snoc by blast
  have asc: "ascending (map fst xs)" and t: "is_finite t"
    and below: "\<And>y. y \<in> set xs \<Longrightarrow> fle (fst y) t"
    using snoc.prems(1) x by (auto simp: ascending_def sorted_wrt_append)
  have step: "window_samples w t (xs @ [x]) =
      window_samples w t xs @ filter (\<lambda>s. \<not> outside (fsub t w) s) [(t, engine_latency_ns e)]"
    by (simp add: window_samples_def x stamped_def)
  show ?case
  proof (cases "xs = []")
    case True
    then have "mid = new_contestant w" using mid(1) by (simp add: run_stream_def)
    with True mid(2) x step show ?thesis
      by (simp add: new_contestant_def window_samples_def outside_def)
  next
    case False
    from snoc.IH [OF asc snoc.prems(2) False mid(1)]
    have IH: "samples mid = window_samples w (fst (last xs)) xs" "window_seconds mid = w" by auto
    have fl: "is_finite (fst (last xs))" and last: "fle (fst (last xs)) t"
      using asc False below by (auto simp: ascending_def list_all_iff)
    have "sorted_wrt fle (map fst (window_samples w (fst (last xs)) xs))"
      unfolding window_samples_def using asc by (intro sorted_fst_filter) (simp add: ascending_def)
    moreover have "fle (fst y) t" if "y \<in> set (window_samples w (fst (last xs)) xs)" for y
      using that below by (auto simp: window_samples_def stamped_def)
    ultimately
    have "sorted_wrt fle (map fst (window_samples w (fst (last xs)) xs @ [(t, engine_latency_ns e)]))"
      by (simp add: sorted_wrt_append)
    from prune_loop_snoc [OF this, of "fsub t w"]
    have "samples st = window_samples w t (xs @ [x])"
      using mid(2) IH step prune_window [OF _ snoc.prems(2) fl last t, of xs] asc
      by (simp add: ascending_def)
    with x mid IH show ?thesis by simp
  qed
qed

text \<open>
  C20. The rolling window is exact: with a clock that does not go back, whatever was pruned along
  the way, the samples left after a prune at \<open>now\<close> are those of all accepted trades whose
  acceptance time is not before \<open>now - window_seconds\<close> (the float difference the code computes).
\<close>

theorem rolling_window_exact:
  assumes "ascending (map fst xs)" "is_finite w" "xs \<noteq> []"
    and "run_stream (new_contestant w) xs = (st, None)"
    and "fle (fst (last xs)) now" "is_finite now"
  shows "samples (prune now st) = window_samples w now xs"
proof -
  from run_stream_window [OF assms(1-4)]
  have st: "samples st = window_samples w (fst (last xs)) xs" "window_seconds st = w" by auto
  have "is_finite (fst (last xs))" using assms(1,3) by (simp add: ascending_def list_all_iff)
  with st assms prune_window [of xs w "fst (last xs)" now] show ?thesis by (simp add: ascending_def)
qed

theorem rolling_window_exact_witness:
  "\<exists>st. run_stream (new_contestant (Fin 1))
       [(Fin 0, sample_trade 7 100 200 10), (Fin 2, sample_trade 8 100 201 11)] = (st, None) \<and>
     samples (prune (Fin 2) st) = [(Fin 2, 10)]"
proof -
  let ?xs = "[(Fin 0, sample_trade 7 100 200 10), (Fin 2, sample_trade 8 100 201 11)]"
  have "snd (run_stream (new_contestant (Fin 1)) ?xs) = None"
    by (simp add: stream_accepted_iff_legal well_formed_trade_def follows_def price_step_ok_def
        sample_trade_def PRICE_EPSILON_value fsub_def float_eval)
  then obtain st where st: "run_stream (new_contestant (Fin 1)) ?xs = (st, None)"
    by (metis prod.collapse)
  have "samples (prune (Fin 2) st) = window_samples (Fin 1) (Fin 2) ?xs"
    by (rule rolling_window_exact [OF _ _ _ st]) (simp_all add: ascending_def)
  also have "\<dots> = [(Fin 2, 10)]"
    by (simp add: window_samples_def stamped_def outside_def engine_latency_ns_def sample_trade_def
        fsub_def to_f64_def not_le less_le_trans)
  finally show ?thesis using st by blast
qed

section \<open>Percentiles\<close>

lemma to_f64_Fin:
  assumes "0 \<le> x" "x \<le> y" "float_ok (Fin y)"
  shows "to_f64 x = Fin (rnd x)" "0 \<le> rnd x" "rnd x \<le> y"
proof -
  have fixed: "rnd y = y" and lim: "y < f64_limit" using assms(3) by auto
  show up: "rnd x \<le> y" by (rule f64.below_fixed [OF fixed assms(2)])
  show lo: "0 \<le> rnd x" by (rule f64.nonneg [OF assms(1)])
  have "rnd x < f64_limit" "- f64_limit < rnd x"
    using up lo lim f64_limit_pos by linarith+
  then show "to_f64 x = Fin (rnd x)" by (simp add: to_f64_def)
qed

definition pct_index :: "nat \<Rightarrow> rat \<Rightarrow> nat" where
  "pct_index n k = nat (rat_trunc (rnd (of_int (int n - 1) * k)))"

lemma pct_scale:
  assumes "0 < n" "int n \<le> 2 ^ 53" "0 \<le> k" "k \<le> 1"
  shows "to_f64 (of_int (int n - 1) * k) = Fin (rnd (of_int (int n - 1) * k))"
    "0 \<le> rnd (of_int (int n - 1) * k)" "rnd (of_int (int n - 1) * k) \<le> of_int (int n - 1)"
  using assms to_f64_Fin [of "of_int (int n - 1) * k" "of_int (int n - 1)"]
    float_ok_of_int [of "int n - 1"]
  by (simp_all add: mult_left_le)

lemma pct_index_less:
  assumes "0 < n" "int n \<le> 2 ^ 53" "0 \<le> k" "k \<le> 1"
  shows "pct_index n k < n" "int (pct_index n k) = rat_trunc (rnd (of_int (int n - 1) * k))"
proof -
  note s = pct_scale [OF assms]
  have "of_int (rat_trunc (rnd (of_int (int n - 1) * k))) \<le> (of_int (int n - 1) :: rat)"
    using rat_trunc_bounds [OF s(2)] s(3) by linarith
  then have "rat_trunc (rnd (of_int (int n - 1) * k)) \<le> int n - 1" by (simp only: of_int_le_iff)
  with rat_trunc_bounds [OF s(2)] assms(1)
  show "pct_index n k < n" "int (pct_index n k) = rat_trunc (rnd (of_int (int n - 1) * k))"
    by (auto simp: pct_index_def)
qed

lemma pct_index_mono: "0 < n \<Longrightarrow> k \<le> k' \<Longrightarrow> pct_index n k \<le> pct_index n k'"
  unfolding pct_index_def
  by (intro nat_mono rat_trunc_mono rnd_mono mult_left_mono) simp_all

lemma percentile_value:
  assumes "vals \<noteq> []" "int (length vals) \<le> 2 ^ 53" "0 \<le> k" "k \<le> 1"
  shows "percentile vals (Fin k) = Inr (sort vals ! pct_index (length vals) k)"
proof -
  let ?n = "length vals"
  have n: "0 < ?n" using assms(1) by simp
  have small: "to_f64 (of_int (int ?n - 1)) = Fin (of_int (int ?n - 1))"
    using assms(2) n by (intro to_f64_of_int) simp
  note s = pct_scale [OF n assms(2-4)] and i = pct_index_less [OF n assms(2-4)]
  have "py_index (sort vals) (int (pct_index ?n k)) = Inr (sort vals ! pct_index ?n k)"
    using i(1) by (subst py_index_nat) simp_all
  then have "py_index (sort vals) (rat_trunc (rnd (of_int (int ?n - 1) * k))) =
      Inr (sort vals ! pct_index ?n k)"
    unfolding i(2) .
  then show ?thesis using assms(1) small s(1) by (simp add: percentile_def)
qed

text \<open>
  \<open>percentile\<close> never raises: for any non-empty list the program can hold and any fraction
  between 0 and 1, the computed index is in range even though it goes through a rounded float
  product, and the result is a value of the list with at least that many values at or below it and
  at least the remaining number at or above it.
\<close>

lemma percentile_rank:
  assumes "vals \<noteq> []" "int (length vals) \<le> 2 ^ 53" "0 \<le> k" "k \<le> 1"
  shows "\<exists>v i. percentile vals (Fin k) = Inr v \<and> v \<in> set vals \<and> i < length vals \<and>
           i + 1 \<le> length (filter (\<lambda>x. x \<le> v) vals) \<and>
           length vals - i \<le> length (filter (\<lambda>x. v \<le> x) vals)"
proof -
  let ?n = "length vals" and ?s = "sort vals"
  define i where "i = pct_index ?n k"
  define v where "v = ?s ! i"
  have i: "i < ?n" using pct_index_less(1) [of ?n k] assms by (simp add: i_def)
  have perm: "length (filter P ?s) = length (filter P vals)" for P
    by (simp add: filter_sort)
  have "take (Suc i) ?s = filter (\<lambda>x. x \<le> v) (take (Suc i) ?s)"
    using i by (intro filter_True [symmetric])
      (auto simp: in_set_conv_nth v_def less_Suc_eq_le intro!: sorted_nth_mono)
  then have "Suc i = length (filter (\<lambda>x. x \<le> v) (take (Suc i) ?s))"
    using i by (metis length_take length_sort Suc_leI min.absorb2)
  also have "\<dots> \<le> length (filter (\<lambda>x. x \<le> v) ?s)"
    by (metis append_take_drop_id filter_append length_append le_add1)
  finally have low: "i + 1 \<le> length (filter (\<lambda>x. x \<le> v) vals)" by (simp add: perm)
  have "drop i ?s = filter (\<lambda>x. v \<le> x) (drop i ?s)"
    using i by (intro filter_True [symmetric]) (auto simp: in_set_conv_nth v_def intro!: sorted_nth_mono)
  then have "?n - i = length (filter (\<lambda>x. v \<le> x) (drop i ?s))"
    by (metis length_drop length_sort)
  also have "\<dots> \<le> length (filter (\<lambda>x. v \<le> x) ?s)"
    by (metis append_take_drop_id filter_append length_append le_add2)
  finally have high: "?n - i \<le> length (filter (\<lambda>x. v \<le> x) vals)" by (simp add: perm)
  have "v \<in> set vals" using i unfolding v_def by (metis length_sort nth_mem set_sort)
  with low high i percentile_value [OF assms] show ?thesis unfolding v_def i_def by blast
qed

lemma percentile_mono:
  assumes "vals \<noteq> []" "int (length vals) \<le> 2 ^ 53" "0 \<le> k" "k \<le> k'" "k' \<le> 1"
    and "percentile vals (Fin k) = Inr v" "percentile vals (Fin k') = Inr v'"
  shows "v \<le> v'"
proof -
  have "0 < length vals" using assms(1) by simp
  then have "pct_index (length vals) k \<le> pct_index (length vals) k'"
    "pct_index (length vals) k' < length (sort vals)"
    using assms pct_index_mono pct_index_less(1) [of "length vals" k'] by auto
  then have "sort vals ! pct_index (length vals) k \<le> sort vals ! pct_index (length vals) k'"
    by (intro sorted_nth_mono) simp_all
  with assms percentile_value [of vals k] percentile_value [of vals k'] show ?thesis by simp
qed

section \<open>The published figures\<close>

text \<open>What the window holds when the trades come from the engine: latencies of 64-bit clocks.\<close>

definition samples_ok :: "contestant \<Rightarrow> bool" where
  "samples_ok st \<longleftrightarrow>
     list_all (\<lambda>s. 0 \<le> snd s \<and> snd s < 2 ^ 64) (samples st) \<and> int (length (samples st)) \<le> 2 ^ 53"

lemma samples_ok_prune: "samples_ok st \<Longrightarrow> samples_ok (prune now st)"
proof -
  assume ok: "samples_ok st"
  have "set (dropWhile P xs) \<subseteq> set xs" "length (dropWhile P xs) \<le> length xs"
    for P and xs :: "(pyfloat \<times> int) list"
    by (auto dest: set_dropWhileD simp: length_dropWhile_le)
  with ok show ?thesis
    unfolding samples_ok_def prune_simps prune_loop_dropWhile list_all_iff
    by (meson of_nat_mono order_trans subsetD)
qed

lemma float_ok_two64: "float_ok (Fin (2 ^ 64))"
  by (simp add: f64_limit_def rounding_eval)

lemma latency_us_value:
  assumes "lats \<noteq> []" "int (length lats) \<le> 2 ^ 53" "list_all (\<lambda>l. 0 \<le> l \<and> l < 2 ^ 64) lats"
    and "0 \<le> k" "k \<le> 1"
  shows "\<exists>v. percentile lats (Fin k) = Inr v \<and> 0 \<le> v \<and>
           latency_us lats (Fin k) = Inr (PyF (Fin (rnd (of_int v / 1000)))) \<and>
           float_ok (Fin (rnd (of_int v / 1000)))"
proof -
  obtain v where v: "percentile lats (Fin k) = Inr v" "v \<in> set lats"
    using percentile_rank [OF assms(1,2,4,5)] by blast
  then have b: "0 \<le> v" "v < 2 ^ 64" using assms(3) by (auto simp: list_all_iff)
  have "(of_int v :: rat) < of_int (2 ^ 64)" using b(2) by (simp only: of_int_less_iff)
  then have "(of_int v :: rat) / 1000 \<le> 2 ^ 64" using b(1) by simp
  then have r: "to_f64 (of_int v / 1000) = Fin (rnd (of_int v / 1000))"
    using to_f64_Fin(1) [OF _ _ float_ok_two64] b(1) by simp
  have "float_ok (Fin (rnd (of_int v / 1000)))" unfolding r [symmetric] by simp
  with v b r assms(1) show ?thesis by (simp add: latency_us_def)
qed

lemma pct_fractions:
  "to_f64 (1 / 2) = Fin (1 / 2)"
  "to_f64 (9 / 10) = Fin (8106479329266893 / 9007199254740992)"
  "to_f64 (99 / 100) = Fin (4458563631096791 / 4503599627370496)"
  "to_f64 (1 / 10) = Fin (3602879701896397 / 36028797018963968)"
  by (simp_all add: float_eval)

lemma latency_us_ordered:
  assumes "int (length lats) \<le> 2 ^ 53" "list_all (\<lambda>l. 0 \<le> l \<and> l < 2 ^ 64) lats"
  shows "\<exists>a b c. latency_us lats (to_f64 (1 / 2)) = Inr a \<and> latency_us lats (to_f64 (9 / 10)) = Inr b \<and>
           latency_us lats (to_f64 (99 / 100)) = Inr c \<and>
           num_le (PyI 0) a \<and> num_le a b \<and> num_le b c \<and>
           (a = PyI 0 \<or> (\<exists>x. a = PyF x)) \<and> (b = PyI 0 \<or> (\<exists>x. b = PyF x)) \<and>
           (c = PyI 0 \<or> (\<exists>y. c = PyF (Fin y)))"
proof (cases "lats = []")
  case True
  then show ?thesis by (simp add: latency_us_def num_le_def)
next
  case False
  let ?k1 = "1 / 2 :: rat" and ?k2 = "8106479329266893 / 9007199254740992 :: rat"
    and ?k3 = "4458563631096791 / 4503599627370496 :: rat"
  obtain u v w where u: "percentile lats (Fin ?k1) = Inr u" "0 \<le> u"
      "latency_us lats (Fin ?k1) = Inr (PyF (Fin (rnd (of_int u / 1000))))"
    and v: "percentile lats (Fin ?k2) = Inr v"
      "latency_us lats (Fin ?k2) = Inr (PyF (Fin (rnd (of_int v / 1000))))"
    and w: "percentile lats (Fin ?k3) = Inr w"
      "latency_us lats (Fin ?k3) = Inr (PyF (Fin (rnd (of_int w / 1000))))"
      "float_ok (Fin (rnd (of_int w / 1000)))"
    using latency_us_value [OF False assms, of ?k1] latency_us_value [OF False assms, of ?k2]
      latency_us_value [OF False assms, of ?k3] by auto
  have "u \<le> v" by (rule percentile_mono [OF False assms(1) _ _ _ u(1) v(1)]) simp_all
  moreover have "v \<le> w" by (rule percentile_mono [OF False assms(1) _ _ _ v(1) w(1)]) simp_all
  ultimately have "rnd (of_int u / 1000) \<le> rnd (of_int v / 1000)"
    "rnd (of_int v / 1000) \<le> rnd (of_int w / 1000)"
    by (simp_all add: rnd_mono divide_right_mono)
  moreover have "0 \<le> rnd (of_int u / 1000)" using u(2) by (intro f64.nonneg) simp
  ultimately show ?thesis using u v w by (simp add: pct_fractions num_le_def)
qed

definition nonneg_or_zero :: "pynum \<Rightarrow> bool" where
  "nonneg_or_zero t \<longleftrightarrow> t = PyI 0 \<or> (\<exists>z. t = PyF z \<and> fle (Fin 0) z)"

lemma nonneg_or_zero_le: "nonneg_or_zero t \<Longrightarrow> num_le (PyI 0) t"
  by (auto simp: nonneg_or_zero_def num_le_def)

lemma tps_of_total:
  assumes "int n \<le> 2 ^ 53"
  shows "\<exists>t. tps_of n w = Inr t \<and> nonneg_or_zero t"
proof (cases "flt (Fin 0) w")
  case True
  have n: "to_f64 (of_nat n) = Fin (of_nat n)" using to_f64_of_int [of "int n"] assms by simp
  show ?thesis
  proof (cases w)
    case (Fin x)
    with True have "0 \<le> of_nat n / x" by simp
    from to_f64_nonneg [OF this] show ?thesis
      using True Fin n by (auto simp: tps_of_def nonneg_or_zero_def)
  next
    case PInf
    with n show ?thesis by (simp add: tps_of_def nonneg_or_zero_def)
  qed (use True in auto)
next
  case False
  then show ?thesis by (simp add: tps_of_def nonneg_or_zero_def)
qed

lemma to_f64_0 [simp]: "to_f64 0 = Fin 0"
  using to_f64_of_int [of 0] by simp

lemma fdiv_pos_nonneg:
  assumes "0 < y" "fle (Fin 0) z"
  shows "\<exists>s. fdiv z (Fin y) = Inr s \<and> fle (Fin 0) s"
  using assms by (cases z) (auto simp: inf_of_sign_def intro: to_f64_nonneg)

lemma num_max2_pos:
  "0 < c \<Longrightarrow> p = PyI 0 \<or> (\<exists>y. p = PyF (Fin y)) \<Longrightarrow> \<exists>y. num_max2 p (PyF (Fin c)) = PyF (Fin y) \<and> 0 < y"
  by (auto simp: num_max2_def num_lt_def)

lemma score_of_total:
  assumes "nonneg_or_zero t" "p = PyI 0 \<or> (\<exists>y. p = PyF (Fin y))"
  shows "\<exists>s. score_of corr t p = Inr s \<and> num_le (PyI 0) s \<and> (corr \<noteq> ''PASSED'' \<longrightarrow> s = PyI 0)"
proof (cases "corr = ''PASSED''")
  case True
  obtain y where y: "num_max2 p (PyF (to_f64 (1 / 10))) = PyF (Fin y)" "0 < y"
    using num_max2_pos [OF _ assms(2), of "3602879701896397 / 36028797018963968"]
    unfolding pct_fractions by auto
  have "fle (Fin 0) z \<Longrightarrow> \<exists>s. num_truediv (PyF z) (PyF (Fin y)) = Inr s \<and> num_le (PyI 0) s" for z
    using fdiv_pos_nonneg [OF y(2), of z] by (auto simp: num_le_def)
  moreover have "\<exists>s. num_truediv (PyI 0) (PyF (Fin y)) = Inr s \<and> num_le (PyI 0) s"
    using fdiv_pos_nonneg [OF y(2), of "Fin 0"] by (auto simp: num_le_def)
  moreover have "score_of corr t p = num_truediv t (PyF (Fin y))"
    unfolding score_of_def y(1) using True by simp
  ultimately show ?thesis using assms(1) True unfolding nonneg_or_zero_def by metis
qed (simp add: score_of_def num_le_def)

lemma num_round_mono: "num_le (PyI 0) a \<Longrightarrow> num_le (PyI 0) (num_round n a)"
  using fround_mono [of "Fin 0" _ n] dec_round_of_int [of n 0]
  by (cases a) (auto simp: num_le_def)

lemma num_round_mono2:
  assumes "num_le a b" "a = PyI 0 \<or> (\<exists>x. a = PyF x)" "b = PyI 0 \<or> (\<exists>x. b = PyF x)"
  shows "num_le (num_round n a) (num_round n b)"
  using assms fround_mono [of _ _ n] dec_round_of_int [of n 0]
  by (auto simp: num_le_def) (metis fround.simps(1) fround_mono of_int_0 to_f64_0)+

lemma metrics_copies:
  "metrics now st = Inr (m, st') \<Longrightarrow>
     m_correctness m = correctness st \<and> m_total_events m = total_events st \<and>
     m_tracked_orders m = int (length (order_fills st))"
  by (auto simp: metrics_def Let_def)

lemma metrics_total:
  assumes "samples_ok st"
  shows "\<exists>m. metrics now st = Inr (m, prune now st) \<and>
           num_le (PyI 0) (m_p50_lat_us m) \<and> num_le (m_p50_lat_us m) (m_p90_lat_us m) \<and>
           num_le (m_p90_lat_us m) (m_p99_lat_us m) \<and>
           num_le (PyI 0) (m_tps m) \<and> num_le (PyI 0) (m_score m) \<and>
           (if correctness st = ''PASSED'' then m_correctness m = ''PASSED''
            else m_score m = PyI 0 \<and> m_correctness m = correctness st)"
proof -
  let ?s = "prune now st" and ?l = "map snd (samples (prune now st))"
  have ok: "samples_ok ?s" using assms by (rule samples_ok_prune)
  then have len: "int (length (samples ?s)) \<le> 2 ^ 53" unfolding samples_ok_def by blast
  have l: "int (length ?l) \<le> 2 ^ 53" "list_all (\<lambda>x. 0 \<le> x \<and> x < 2 ^ 64) ?l"
    using ok by (simp_all only: samples_ok_def length_map list.pred_map comp_def)
  from latency_us_ordered [OF l] obtain a b c where p: "latency_us ?l (to_f64 (1 / 2)) = Inr a"
    "latency_us ?l (to_f64 (9 / 10)) = Inr b" "latency_us ?l (to_f64 (99 / 100)) = Inr c"
    "num_le (PyI 0) a" "num_le a b" "num_le b c"
    and shape: "a = PyI 0 \<or> (\<exists>x. a = PyF x)" "b = PyI 0 \<or> (\<exists>x. b = PyF x)" "c = PyI 0 \<or> (\<exists>y. c = PyF (Fin y))"
    by blast
  from tps_of_total [OF len] obtain t where t: "tps_of (length (samples ?s)) (window_seconds ?s) = Inr t"
    "nonneg_or_zero t" by blast
  from score_of_total [OF t(2) shape(3)] obtain s where
    s: "score_of (correctness ?s) t c = Inr s" "num_le (PyI 0) s" "correctness ?s \<noteq> ''PASSED'' \<longrightarrow> s = PyI 0"
    by blast
  have "c = PyI 0 \<or> (\<exists>x. c = PyF x)" using shape(3) by blast
  then have r: "num_le (num_round 2 a) (num_round 2 b)" "num_le (num_round 2 b) (num_round 2 c)"
    using p(5,6) shape(1,2) by (simp_all add: num_round_mono2)
  have n: "num_le (PyI 0) (num_round 2 a)" "num_le (PyI 0) (num_round 2 t)" "num_le (PyI 0) (num_round 4 s)"
    using p(4) nonneg_or_zero_le [OF t(2)] s(2) by (simp_all add: num_round_mono)
  show ?thesis
    unfolding metrics_def Let_def p(1-3) t(1) rbind.simps s(1)
    using r n s(3) by (intro exI conjI) auto
qed

text \<open>
  C16. Reporting never fails: from any state whose samples come from 64-bit clocks, \<open>metrics\<close> raises
  nothing, returns the pruned state, and the figures it publishes are ordered
  (0 <= p50 <= p90 <= p99 after rounding to two decimals) and non-negative; a contestant whose
  correctness is not PASSED scores 0.
\<close>

theorem metrics_total_ordered:
  assumes "samples_ok st"
  shows "\<exists>m. metrics now st = Inr (m, prune now st) \<and>
           num_le (PyI 0) (m_p50_lat_us m) \<and> num_le (m_p50_lat_us m) (m_p90_lat_us m) \<and>
           num_le (m_p90_lat_us m) (m_p99_lat_us m) \<and>
           num_le (PyI 0) (m_tps m) \<and> num_le (PyI 0) (m_score m) \<and>
           (if correctness st = ''PASSED'' then m_correctness m = ''PASSED''
            else m_score m = PyI 0 \<and> m_correctness m = correctness st)"
  using assms by (rule metrics_total)

theorem metrics_total_ordered_witness:
  "\<exists>m. metrics (Fin 10) (accept (Fin 10) (new_contestant (Fin 1)) (sample_trade 1 100 200 10)) =
       Inr (m, prune (Fin 10) (accept (Fin 10) (new_contestant (Fin 1)) (sample_trade 1 100 200 10))) \<and>
     num_le (m_p90_lat_us m) (m_p99_lat_us m)"
proof -
  have "samples_ok (accept (Fin 10) (new_contestant (Fin 1)) (sample_trade 1 100 200 10))"
    by (simp add: samples_ok_def new_contestant_def engine_latency_ns_def sample_trade_def)
  from metrics_total_ordered [OF this, of "Fin 10"] show ?thesis by blast
qed

end
