(* ===== verification/PyJson.thy ===== *)
theory PyJson
  imports PyStr "HOL-Library.AList"
begin

text \<open>
  JSON values as Python holds them, and dicts as association lists in insertion order. A dict
  display or a \<open>**\<close> merge keeps the position of the first occurrence of a key and the value of
  the last, which is what \<open>AList.update\<close> does.
\<close>

datatype json =
    JNull
  | JBool bool
  | JNum pynum
  | JStr string
  | JList "json list"
  | JObj "(string \<times> json) list"

type_synonym dict = "(string \<times> json) list"

definition dict_get :: "dict \<Rightarrow> string \<Rightarrow> json \<Rightarrow> json" where
  "dict_get d k dflt = (case map_of d k of None \<Rightarrow> dflt | Some v \<Rightarrow> v)"

fun dict_merge :: "dict \<Rightarrow> dict \<Rightarrow> dict" where
  "dict_merge d [] = d"
| "dict_merge d ((k, v) # rest) = dict_merge (AList.update k v d) rest"

definition JInt :: "int \<Rightarrow> json" where
  "JInt n = JNum (PyI n)"

lemma map_of_dict_merge: "map_of (dict_merge d e) k = (map_of d ++ map_of (rev e)) k"
  by (induction d e rule: dict_merge.induct) (auto simp: update_conv' map_add_def split: option.splits)

end
