(* ===== verification/ScoringWorker.thy ===== *)
theory ScoringWorker
  imports ScoringMetrics PyJson
begin

text \<open>
  The worker process of \<^verbatim>\<open>telemetry/scoring_engine.py\<close>: \<open>publish_metrics\<close>, \<open>disqualify\<close> and the
  consume loop of \<open>main\<close>. Kafka and Redis are services: what a poll returns is an input of an
  iteration, and whether a Redis command fails is a function of the environment; the commands sent
  are logged in order. \<open>time.monotonic()\<close> is a function of how often it has been read. The three
  ways out of the loop (signal, disqualification, exception) all pass through the \<open>finally\<close> that
  closes the consumer.
\<close>

section \<open>Environment and state\<close>

datatype redis_cmd =
    ZAdd string "(string \<times> pynum) list"
  | HSet string dict
  | Publish string json

datatype poll =
    NoMessage
  | MessageError
  | Payload bytes

record env =
  clock :: "nat \<Rightarrow> pyfloat"
  time_ns :: "nat \<Rightarrow> int"
  redis_fails :: "redis_cmd list \<Rightarrow> redis_cmd \<Rightarrow> py_error option"

record worker_args =
  contestant_id :: string
  channel :: string
  leaderboard_key :: string
  metrics_interval_ms :: pyfloat

record worker =
  w_state :: contestant
  w_last_metrics :: pyfloat
  w_reads :: nat
  w_cmds :: "redis_cmd list"
  w_out :: "dict list"
  w_closed :: bool

datatype ctrl = Running | Returned | Raised py_error

section \<open>Operations\<close>

definition read_clock :: "env \<Rightarrow> worker \<Rightarrow> pyfloat \<times> worker" where
  "read_clock ev w = (clock ev (w_reads w), w\<lparr>w_reads := Suc (w_reads w)\<rparr>)"

definition redis_send :: "env \<Rightarrow> redis_cmd \<Rightarrow> worker \<Rightarrow> worker \<times> ctrl" where
  "redis_send ev c w =
     (case redis_fails ev (w_cmds w) c of
        Some e \<Rightarrow> (w, Raised e)
      | None \<Rightarrow> (w\<lparr>w_cmds := w_cmds w @ [c]\<rparr>, Running))"

fun and_then :: "worker \<times> ctrl \<Rightarrow> (worker \<Rightarrow> worker \<times> ctrl) \<Rightarrow> worker \<times> ctrl" where
  "and_then (w, Running) f = f w"
| "and_then (w, c) f = (w, c)"

definition metrics_dict :: "metrics \<Rightarrow> dict" where
  "metrics_dict m =
     [(''tps'', JNum (m_tps m)), (''p50_lat_us'', JNum (m_p50_lat_us m)),
      (''p90_lat_us'', JNum (m_p90_lat_us m)), (''p99_lat_us'', JNum (m_p99_lat_us m)),
      (''score'', JNum (m_score m)), (''correctness'', JStr (m_correctness m)),
      (''total_events'', JInt (m_total_events m)), (''tracked_orders'', JInt (m_tracked_orders m)),
      (''last_match_id'', JInt (m_last_match_id m))]"

definition publish_metrics :: "env \<Rightarrow> worker_args \<Rightarrow> metrics \<Rightarrow> worker \<Rightarrow> worker \<times> ctrl" where
  "publish_metrics ev a m w =
     and_then (redis_send ev (ZAdd (leaderboard_key a) [(contestant_id a, m_score m)]) w) (\<lambda>w.
     and_then (redis_send ev (HSet (''contestant:meta:'' @ contestant_id a) (metrics_dict m)) w) (\<lambda>w.
       redis_send ev
         (Publish (channel a)
           (JObj (dict_merge (dict_merge [(''id'', JStr (contestant_id a))] (metrics_dict m))
             [(''updated_at_ns'', JInt (time_ns ev (length (w_cmds w))))]))) w))"

definition take_metrics :: "env \<Rightarrow> worker \<Rightarrow> (metrics \<Rightarrow> worker \<Rightarrow> worker \<times> ctrl) \<Rightarrow> worker \<times> ctrl" where
  "take_metrics ev w k =
     (let (now, w) = read_clock ev w
      in case metrics now (w_state w) of
           Inl e \<Rightarrow> (w\<lparr>w_state := prune now (w_state w)\<rparr>, Raised e)
         | Inr (m, st) \<Rightarrow> k m (w\<lparr>w_state := st\<rparr>))"

definition disqualify :: "env \<Rightarrow> worker_args \<Rightarrow> string \<Rightarrow> worker \<Rightarrow> (metrics \<Rightarrow> worker \<Rightarrow> worker \<times> ctrl) \<Rightarrow> worker \<times> ctrl" where
  "disqualify ev a reason w k =
     (let w = w\<lparr>w_state := (w_state w)\<lparr>correctness := reason\<rparr>\<rparr>
      in take_metrics ev w (\<lambda>m w.
           let m = m\<lparr>m_score := PyF (Fin (- 1))\<rparr>
           in and_then (publish_metrics ev a m w) (k m)))"

definition print_json :: "string \<Rightarrow> metrics \<Rightarrow> worker \<Rightarrow> worker" where
  "print_json status m w = w\<lparr>w_out := w_out w @ [dict_merge [(''status'', JStr status)] (metrics_dict m)]\<rparr>"

fun worker_events :: "env \<Rightarrow> worker_args \<Rightarrow> trade_event list \<Rightarrow> worker \<Rightarrow> worker \<times> ctrl" where
  "worker_events ev a [] w = (w, Running)"
| "worker_events ev a (e # es) w =
     (case validate (w_state w) e of
        Some v \<Rightarrow> disqualify ev a (violation_text v) w (\<lambda>m w. (print_json ''disqualified'' m w, Returned))
      | None \<Rightarrow>
          (let (now, w) = read_clock ev w
           in worker_events ev a es (w\<lparr>w_state := accept now (w_state w) e\<rparr>)))"

definition worker_message :: "env \<Rightarrow> worker_args \<Rightarrow> poll \<Rightarrow> worker \<Rightarrow> worker \<times> ctrl" where
  "worker_message ev a msg w =
     (case msg of
        NoMessage \<Rightarrow> (w, Running)
      | MessageError \<Rightarrow> (w, Raised KafkaException)
      | Payload bs \<Rightarrow>
          (case unpack_trade_events bs of
             Inl e \<Rightarrow> (w, Raised e)
           | Inr es \<Rightarrow> worker_events ev a es w))"

text \<open>\<open>now - last_metrics >= args.metrics_interval_ms / 1000\<close>\<close>

definition report_due :: "worker_args \<Rightarrow> pyfloat \<Rightarrow> pyfloat \<Rightarrow> bool" where
  "report_due a now prev \<longleftrightarrow>
     (case fdiv (metrics_interval_ms a) (Fin 1000) of
        Inl e \<Rightarrow> False
      | Inr interval \<Rightarrow> fle interval (fsub now prev))"

definition worker_report :: "env \<Rightarrow> worker_args \<Rightarrow> worker \<Rightarrow> worker \<times> ctrl" where
  "worker_report ev a w =
     (let (now, w) = read_clock ev w
      in if report_due a now (w_last_metrics w)
         then take_metrics ev w (\<lambda>m w.
                and_then (publish_metrics ev a m w) (\<lambda>w.
                  ((print_json ''ok'' m w)\<lparr>w_last_metrics := now\<rparr>, Running)))
         else (w, Running))"

definition worker_iter :: "env \<Rightarrow> worker_args \<Rightarrow> poll \<Rightarrow> worker \<Rightarrow> worker \<times> ctrl" where
  "worker_iter ev a msg w = and_then (worker_message ev a msg w) (worker_report ev a)"

text \<open>
  The \<open>while running\<close> loop over the polls made until the signal handler clears \<open>running\<close>, and
  \<open>main\<close> from the creation of the state to the \<open>finally\<close>.
\<close>

fun worker_loop :: "env \<Rightarrow> worker_args \<Rightarrow> poll list \<Rightarrow> worker \<Rightarrow> worker \<times> ctrl" where
  "worker_loop ev a [] w = (w, Running)"
| "worker_loop ev a (msg # msgs) w = and_then (worker_iter ev a msg w) (worker_loop ev a msgs)"

definition new_worker :: "env \<Rightarrow> pyfloat \<Rightarrow> worker" where
  "new_worker ev window =
     \<lparr>w_state = new_contestant window, w_last_metrics = clock ev 0, w_reads = 1, w_cmds = [],
      w_out = [], w_closed = False\<rparr>"

definition worker_main :: "env \<Rightarrow> worker_args \<Rightarrow> pyfloat \<Rightarrow> poll list \<Rightarrow> worker \<times> ctrl" where
  "worker_main ev a window msgs =
     (let (w, c) = worker_loop ev a msgs (new_worker ev window)
      in (w\<lparr>w_closed := True\<rparr>, c))"

section \<open>Every exit closes the consumer\<close>

text \<open>
  Whatever the polls, the clock and Redis do, and whichever of the three ways the loop ends
  (signal, disqualification, exception), the consumer is closed on the way out.
\<close>

lemma consumer_always_closed: "w_closed (fst (worker_main ev a window msgs))"
  by (simp add: worker_main_def split: prod.splits)

section \<open>What the leaderboard is told\<close>

text \<open>
  \<open>honest m\<close>: a negative score goes with a violation text and a non-negative one with PASSED. A
  command is honest when what it writes is.
\<close>

definition honest :: "pynum \<Rightarrow> string \<Rightarrow> bool" where
  "honest score corr \<longleftrightarrow>
     (if corr = ''PASSED'' then num_le (PyI 0) score else score = PyF (Fin (- 1)))"

fun honest_cmd :: "redis_cmd \<Rightarrow> bool" where
  "honest_cmd (HSet key d) \<longleftrightarrow>
     (\<exists>score corr. dict_get d ''score'' JNull = JNum score \<and>
        dict_get d ''correctness'' JNull = JStr corr \<and> honest score corr)"
| "honest_cmd _ \<longleftrightarrow> True"

definition healthy :: "worker \<Rightarrow> bool" where
  "healthy w \<longleftrightarrow>
     list_all (\<lambda>s. 0 \<le> snd s) (samples (w_state w)) \<and> list_all honest_cmd (w_cmds w)"

lemma set_prune_loop: "set (prune_loop c xs) \<subseteq> set xs"
  by (auto simp: prune_loop_dropWhile dest: set_dropWhileD)

lemma nonneg_samples_prune:
  "list_all (\<lambda>s. 0 \<le> snd s) (samples st) \<Longrightarrow> list_all (\<lambda>s. 0 \<le> snd s) (samples (prune now st))"
  using set_prune_loop by (fastforce simp: list_all_iff)

lemma nonneg_samples_accept:
  "list_all (\<lambda>s. 0 \<le> snd s) (samples st) \<Longrightarrow> list_all (\<lambda>s. 0 \<le> snd s) (samples (accept now st e))"
  using set_prune_loop [of _ "samples st @ [(now, engine_latency_ns e)]"]
  by (fastforce simp: list_all_iff engine_latency_ns_def)

lemma py_index_in: "py_index xs i = Inr v \<Longrightarrow> v \<in> set xs"
proof -
  assume "py_index xs i = Inr v"
  then have i: "- int (length xs) \<le> i" "i < int (length xs)" "v = xs ! nat (i mod int (length xs))"
    by (simp_all add: py_index_def split: if_splits)
  then have "0 < int (length xs)" by linarith
  then have "0 \<le> i mod int (length xs)" "i mod int (length xs) < int (length xs)" by simp_all
  then show "v \<in> set xs" using i(3) by (simp add: nat_less_iff)
qed

lemma percentile_in: "percentile vals p = Inr v \<Longrightarrow> v \<in> set vals \<or> v = 0"
  by (auto simp: percentile_def Let_def split: if_splits dest!: py_index_in)

lemma latency_us_shape:
  "list_all (\<lambda>l. 0 \<le> l) lats \<Longrightarrow> latency_us lats p = Inr c \<Longrightarrow>
     c = PyI 0 \<or> (\<exists>y. c = PyF (Fin y))"
  by (auto simp: latency_us_def split: if_splits) (metis finite_or_overflow_ok is_finite.elims(2))

lemma tps_of_shape: "tps_of n w = Inr t \<Longrightarrow> nonneg_or_zero t"
proof (cases "flt (Fin 0) w")
  case True
  assume "tps_of n w = Inr t"
  with True obtain x z where x: "to_f64 (of_nat n) = x" "is_finite x" "fdiv x w = Inr z" "t = PyF z"
    by (auto simp: tps_of_def dest!: finite_or_overflow_ok)
  then have "fle (Fin 0) x" using to_f64_nonneg [of "of_nat n"] by auto
  with x True show ?thesis
    by (cases x; cases w) (auto simp: nonneg_or_zero_def intro: to_f64_nonneg)
next
  case False
  assume "tps_of n w = Inr t"
  with False show ?thesis by (simp add: tps_of_def nonneg_or_zero_def)
qed

lemma metrics_returned:
  assumes "metrics now st = Inr (m, st')" "list_all (\<lambda>s. 0 \<le> snd s) (samples st)"
  shows "st' = prune now st" "m_correctness m = correctness st" "num_le (PyI 0) (m_score m)"
proof -
  let ?s = "prune now st" and ?l = "map snd (samples (prune now st))"
  obtain a b c t s where r: "latency_us ?l (to_f64 (1 / 2)) = Inr a"
    "latency_us ?l (to_f64 (9 / 10)) = Inr b" "latency_us ?l (to_f64 (99 / 100)) = Inr c"
    "tps_of (length (samples ?s)) (window_seconds ?s) = Inr t" "score_of (correctness ?s) t c = Inr s"
    and m: "m_correctness m = correctness ?s" "m_score m = num_round 4 s" "st' = ?s"
    using assms(1) by (auto simp: metrics_def Let_def)
  have "list_all (\<lambda>l. 0 \<le> l) ?l"
    using nonneg_samples_prune [OF assms(2)] by (simp add: list.pred_map comp_def)
  from score_of_total [OF tps_of_shape [OF r(4)] latency_us_shape [OF this r(3)], of "correctness ?s"] r(5)
  show "st' = prune now st" "m_correctness m = correctness st" "num_le (PyI 0) (m_score m)"
    using m by (auto simp: num_round_mono)
qed

lemma violation_text_not_passed [simp]: "violation_text v \<noteq> ''PASSED''"
  by (cases v) simp_all

lemma metrics_dict_get [simp]:
  "dict_get (metrics_dict m) ''score'' JNull = JNum (m_score m)"
  "dict_get (metrics_dict m) ''correctness'' JNull = JStr (m_correctness m)"
  by (simp_all add: dict_get_def metrics_dict_def)

lemma redis_send_state [simp]: "w_state (fst (redis_send ev c w)) = w_state w"
  by (simp add: redis_send_def split: option.splits)

lemma redis_send_healthy: "healthy w \<Longrightarrow> honest_cmd c \<Longrightarrow> healthy (fst (redis_send ev c w))"
  by (simp add: redis_send_def healthy_def split: option.splits)

lemma and_then_fst:
  "P (fst r) \<Longrightarrow> (\<And>w. r = (w, Running) \<Longrightarrow> P (fst (f w))) \<Longrightarrow> P (fst (and_then r f))"
  by (cases "(r, f)" rule: and_then.cases) auto

lemma publish_metrics_healthy:
  assumes "healthy w" "honest (m_score m) (m_correctness m)"
  shows "healthy (fst (publish_metrics ev a m w)) \<and> w_state (fst (publish_metrics ev a m w)) = w_state w"
proof -
  let ?P = "\<lambda>w'. healthy w' \<and> w_state w' = w_state w"
  have send: "?P (fst (redis_send ev c w'))" if "?P w'" "honest_cmd c" for w' c
    using that redis_send_healthy by simp
  have step: "?P w''" if "redis_send ev c w' = (w'', Running)" "?P w'" "honest_cmd c" for w' w'' c
    using send [OF that(2,3)] that(1) by simp
  show ?thesis
    unfolding publish_metrics_def using assms
    by (intro and_then_fst [where P = ?P] send) (auto dest!: step)
qed

text \<open>
  A control result is in order when its worker is healthy and, if the loop goes on, still PASSED.
\<close>

definition in_order :: "worker \<times> ctrl \<Rightarrow> bool" where
  "in_order r \<longleftrightarrow>
     healthy (fst r) \<and> (snd r = Running \<longrightarrow> correctness (w_state (fst r)) = ''PASSED'')"

lemma and_then_in_order:
  "in_order r \<Longrightarrow> (\<And>w. healthy w \<Longrightarrow> correctness (w_state w) = ''PASSED'' \<Longrightarrow> in_order (f w)) \<Longrightarrow>
     in_order (and_then r f)"
  by (cases "(r, f)" rule: and_then.cases) (auto simp: in_order_def)

lemma healthy_simps [simp]:
  "healthy (w\<lparr>w_reads := n\<rparr>) = healthy w" "healthy (w\<lparr>w_last_metrics := t\<rparr>) = healthy w"
  "healthy (w\<lparr>w_out := o'\<rparr>) = healthy w" "healthy (w\<lparr>w_closed := b\<rparr>) = healthy w"
  "healthy (w\<lparr>w_state := (w_state w)\<lparr>correctness := c\<rparr>\<rparr>) = healthy w"
  by (simp_all add: healthy_def)

lemma healthy_prune: "healthy w \<Longrightarrow> healthy (w\<lparr>w_reads := n, w_state := prune t (w_state w)\<rparr>)"
  using nonneg_samples_prune [of "w_state w" t] by (simp add: healthy_def del: prune_simps)

lemma take_metrics_cases:
  assumes "healthy w"
  obtains e w' where "take_metrics ev w k = (w', Raised e)" "healthy w'"
  | m w' where "take_metrics ev w k = k m w'" "healthy w'"
      "correctness (w_state w') = correctness (w_state w)"
      "m_correctness m = correctness (w_state w)" "num_le (PyI 0) (m_score m)"
proof (cases "metrics (clock ev (w_reads w)) (w_state w)")
  case (Inl e)
  with that(1) healthy_prune [OF assms] show thesis
    by (simp add: take_metrics_def read_clock_def)
next
  case (Inr r)
  obtain m st where r: "r = (m, st)" by (cases r)
  have "list_all (\<lambda>s. 0 \<le> snd s) (samples (w_state w))" using assms by (simp add: healthy_def)
  from metrics_returned [OF Inr [unfolded r] this] Inr r that(2) healthy_prune [OF assms] show thesis
    by (simp add: take_metrics_def read_clock_def)
qed

lemma disqualify_in_order:
  assumes "healthy w" "reason \<noteq> ''PASSED''"
  shows "in_order (disqualify ev a reason w (\<lambda>m w. (print_json s m w, Returned))) \<and>
         snd (disqualify ev a reason w (\<lambda>m w. (print_json s m w, Returned))) \<noteq> Running"
proof -
  let ?w = "w\<lparr>w_state := (w_state w)\<lparr>correctness := reason\<rparr>\<rparr>"
  have "healthy ?w" using assms(1) by simp
  then show ?thesis
  proof (cases rule: take_metrics_cases [where ev = ev and k = "\<lambda>m w.
      and_then (publish_metrics ev a (m\<lparr>m_score := PyF (Fin (- 1))\<rparr>) w)
        (\<lambda>w. (print_json s (m\<lparr>m_score := PyF (Fin (- 1))\<rparr>) w, Returned))"])
    case (1 e w')
    then show ?thesis by (simp add: disqualify_def in_order_def Let_def)
  next
    case (2 m w')
    let ?m = "m\<lparr>m_score := PyF (Fin (- 1))\<rparr>"
    have "honest (m_score ?m) (m_correctness ?m)" using 2 assms(2) by (simp add: honest_def)
    with publish_metrics_healthy [OF 2(2)] have "healthy (fst (publish_metrics ev a ?m w'))" by blast
    then show ?thesis using 2(1)
      by (cases "(publish_metrics ev a ?m w', \<lambda>w. (print_json s ?m w, Returned))" rule: and_then.cases)
        (auto simp: disqualify_def in_order_def print_json_def Let_def)
  qed
qed

lemma worker_events_in_order:
  "healthy w \<Longrightarrow> correctness (w_state w) = ''PASSED'' \<Longrightarrow> in_order (worker_events ev a es w)"
proof (induction es arbitrary: w)
  case Nil
  then show ?case by (simp add: in_order_def)
next
  case (Cons e es)
  show ?case
  proof (cases "validate (w_state w) e")
    case None
    let ?w = "w\<lparr>w_reads := Suc (w_reads w), w_state := accept (clock ev (w_reads w)) (w_state w) e\<rparr>"
    have "healthy ?w" using Cons.prems nonneg_samples_accept by (simp add: healthy_def del: accept_simps)
    moreover have "correctness (w_state ?w) = ''PASSED''" using Cons.prems by simp
    ultimately show ?thesis using Cons.IH [of ?w] None by (simp add: read_clock_def)
  next
    case (Some v)
    then show ?thesis using disqualify_in_order [OF Cons.prems(1)] by simp
  qed
qed

lemma worker_report_in_order:
  assumes "healthy w" "correctness (w_state w) = ''PASSED''"
  shows "in_order (worker_report ev a w)"
proof -
  let ?w = "w\<lparr>w_reads := Suc (w_reads w)\<rparr>" and ?now = "clock ev (w_reads w)"
  let ?k = "\<lambda>m w. and_then (publish_metrics ev a m w)
      (\<lambda>w. ((print_json ''ok'' m w)\<lparr>w_last_metrics := ?now\<rparr>, Running))"
  have "healthy ?w" using assms(1) by simp
  then have "in_order (take_metrics ev ?w ?k)"
  proof (cases rule: take_metrics_cases [where ev = ev and k = ?k])
    case (1 e w')
    then show ?thesis by (simp add: in_order_def)
  next
    case (2 m w')
    have "honest (m_score m) (m_correctness m)" using 2 assms(2) by (simp add: honest_def)
    with publish_metrics_healthy [OF 2(2), of m ev a] have
      "healthy (fst (publish_metrics ev a m w'))"
      "correctness (w_state (fst (publish_metrics ev a m w'))) = ''PASSED''"
      using 2(3) assms(2) by auto
    then show ?thesis unfolding 2(1)
      by (intro and_then_in_order) (auto simp: in_order_def print_json_def)
  qed
  then show ?thesis
    using assms by (simp add: worker_report_def read_clock_def in_order_def)
qed

lemma worker_loop_in_order:
  "healthy w \<Longrightarrow> correctness (w_state w) = ''PASSED'' \<Longrightarrow> in_order (worker_loop ev a msgs w)"
proof (induction msgs arbitrary: w)
  case Nil
  then show ?case by (simp add: in_order_def)
next
  case (Cons msg msgs)
  have "in_order (worker_message ev a msg w)"
    using Cons.prems worker_events_in_order
    by (auto simp: worker_message_def in_order_def split: poll.splits sum.splits)
  then have "in_order (worker_iter ev a msg w)"
    unfolding worker_iter_def by (rule and_then_in_order) (rule worker_report_in_order)
  then show ?case unfolding worker_loop.simps by (rule and_then_in_order) (rule Cons.IH)
qed

text \<open>
  C9. The leaderboard is never told a lie: in every run of the worker, whatever bytes arrive,
  however the clock behaves and whichever Redis commands fail, every metadata record it writes
  either says PASSED with a non-negative score or carries a violation text with the score -1.
\<close>

theorem leaderboard_honest: "list_all honest_cmd (w_cmds (fst (worker_main ev a window msgs)))"
proof -
  have "healthy (new_worker ev window)" "correctness (w_state (new_worker ev window)) = ''PASSED''"
    by (simp_all add: healthy_def new_worker_def new_contestant_def)
  from worker_loop_in_order [OF this, of ev a msgs]
  have "healthy (fst (worker_loop ev a msgs (new_worker ev window)))" by (simp add: in_order_def)
  then show ?thesis
    by (cases "worker_loop ev a msgs (new_worker ev window)") (simp add: worker_main_def healthy_def)
qed

end
