(* ===== verification/ScoringVerdict.thy ===== *)
theory ScoringVerdict
  imports ScoringWorker
begin

text \<open>
  The verdict of the worker on the byte stream the engine produces, end to end: decoding, validation,
  accounting, reporting and publication composed as \<open>main\<close> composes them.
\<close>

section \<open>Stopping\<close>

lemma and_then_assoc: "and_then (and_then r f) g = and_then r (\<lambda>w. and_then (f w) g)"
  by (cases "(r, f)" rule: and_then.cases) auto

lemma worker_loop_append:
  "worker_loop ev a (xs @ ys) w = and_then (worker_loop ev a xs w) (worker_loop ev a ys)"
proof (induction xs arbitrary: w)
  case (Cons x xs)
  have "worker_loop ev a (xs @ ys) = (\<lambda>w. and_then (worker_loop ev a xs w) (worker_loop ev a ys))"
    using Cons.IH by (rule ext)
  then show ?case by (simp add: and_then_assoc)
qed simp

lemma and_then_stop: "snd r \<noteq> Running \<Longrightarrow> and_then r f = r"
  by (cases "(r, f)" rule: and_then.cases) auto

text \<open>
  Disqualification is a latch: once the worker has returned or raised, no later message can
  change its state, its output or what it told Redis.
\<close>

lemma verdict_is_final:
  assumes "snd (worker_main ev a window msgs) \<noteq> Running"
  shows "worker_main ev a window (msgs @ later) = worker_main ev a window msgs"
proof -
  have "snd (worker_loop ev a msgs (new_worker ev window)) \<noteq> Running"
    using assms by (simp add: worker_main_def split: prod.splits)
  then show ?thesis by (simp add: worker_main_def worker_loop_append and_then_stop)
qed

definition quiet_env :: env where
  "quiet_env = \<lparr>clock = (\<lambda>n. Fin (of_nat n)), time_ns = (\<lambda>n. 0), redis_fails = (\<lambda>_ _. None)\<rparr>"

definition sample_args :: worker_args where
  "sample_args = \<lparr>contestant_id = ''alice'', channel = ''leaderboard_updates'',
     leaderboard_key = ''leaderboard:scores'', metrics_interval_ms = Fin 1000\<rparr>"

section \<open>The verdict\<close>

text \<open>Room for \<open>k\<close> more samples below the size at which a length is no longer an exact float.\<close>

definition ready :: "contestant \<Rightarrow> nat \<Rightarrow> bool" where
  "ready st k \<longleftrightarrow> consistent st \<and> list_all (\<lambda>s. 0 \<le> snd s \<and> snd s < 2 ^ 64) (samples st) \<and>
     int (length (samples st)) + int k \<le> 2 ^ 53"

lemma ready_samples_ok: "ready st k \<Longrightarrow> samples_ok st"
  by (auto simp: ready_def samples_ok_def)

lemma length_prune_loop: "length (prune_loop c xs) \<le> length xs"
  by (simp add: prune_loop_dropWhile length_dropWhile_le)

lemma prune_loop_bounds:
  "list_all P xs \<Longrightarrow> list_all P (prune_loop c xs)"
  "int (length xs) + int k \<le> n \<Longrightarrow> int (length (prune_loop c xs)) + int k \<le> n"
  using set_prune_loop [of c xs] length_prune_loop [of c xs] by (auto simp: list_all_iff)

lemma consistent_prune [simp]: "consistent (prune now st) = consistent st"
  unfolding consistent_def prune_simps by simp

lemma ready_prune: "ready st k \<Longrightarrow> ready (prune now st) k"
  unfolding ready_def prune_simps by (simp add: prune_loop_bounds del: of_nat_add)

lemma latency_fits: "event_fits e \<Longrightarrow> 0 \<le> engine_latency_ns e \<and> engine_latency_ns e < 2 ^ 64"
  by (auto simp: event_fits_def u64_def engine_latency_ns_def)

lemma ready_accept_latency:
  assumes "ready st (Suc k)" "engine_latency_ns e < 2 ^ 64"
  shows "ready (accept now st e) k"
proof -
  have "list_all (\<lambda>s. 0 \<le> snd s \<and> snd s < 2 ^ 64) (samples st @ [(now, engine_latency_ns e)])"
    "int (length (samples st @ [(now, engine_latency_ns e)])) + int k \<le> 2 ^ 53"
    using assms by (auto simp: ready_def engine_latency_ns_def)
  moreover have "consistent (accept now st e)" using assms(1) by (simp add: ready_def)
  ultimately show ?thesis
    unfolding ready_def accept_simps by (blast intro: prune_loop_bounds)
qed

lemma ready_accept: "ready st (Suc k) \<Longrightarrow> event_fits e \<Longrightarrow> ready (accept now st e) k"
  using latency_fits by (blast intro: ready_accept_latency)

lemma ready_mono: "ready st k \<Longrightarrow> j \<le> k \<Longrightarrow> ready st j"
  by (auto simp: ready_def)

lemma ready_correctness: "ready (st\<lparr>correctness := c\<rparr>) k = ready st k"
  by (simp add: ready_def consistent_def cong: option.case_cong)

lemma legal_from_append:
  "legal_from p (xs @ ys) \<longleftrightarrow>
     legal_from p xs \<and> legal_from (if xs = [] then p else Some (last xs)) ys"
  by (induction xs arbitrary: p) auto

lemma redis_send_ok:
  "redis_fails ev = (\<lambda>_ _. None) \<Longrightarrow> redis_send ev c w = (w\<lparr>w_cmds := w_cmds w @ [c]\<rparr>, Running)"
  by (simp add: redis_send_def)

lemma publish_metrics_ok:
  "redis_fails ev = (\<lambda>_ _. None) \<Longrightarrow>
     \<exists>p. publish_metrics ev a m w =
       (w\<lparr>w_cmds := w_cmds w @ [ZAdd (leaderboard_key a) [(contestant_id a, m_score m)],
          HSet (''contestant:meta:'' @ contestant_id a) (metrics_dict m), Publish (channel a) p]\<rparr>, Running)"
  by (auto simp: publish_metrics_def redis_send_ok simp del: dict_merge.simps)

lemma take_metrics_ok:
  assumes "samples_ok (w_state w)"
  shows "\<exists>m w'. take_metrics ev w k = k m w' \<and> w_state w' = prune (clock ev (w_reads w)) (w_state w) \<and>
           w_cmds w' = w_cmds w \<and> m_correctness m = correctness (w_state w)"
proof -
  obtain m where m: "metrics (clock ev (w_reads w)) (w_state w) =
      Inr (m, prune (clock ev (w_reads w)) (w_state w))"
    "m_correctness m = correctness (w_state w)"
    using metrics_total [OF assms, of "clock ev (w_reads w)"] by (metis (no_types, lifting))
  then show ?thesis
    by (intro exI [of _ m] exI [of _ "w\<lparr>w_reads := Suc (w_reads w),
        w_state := prune (clock ev (w_reads w)) (w_state w)\<rparr>"])
      (simp add: take_metrics_def read_clock_def)
qed

lemma violation_steps:
  assumes "validate (w_state w) e = Some v" "samples_ok (w_state w)"
    and "redis_fails ev = (\<lambda>_ _. None)"
  shows "\<exists>w' m p. worker_events ev a (e # es) w = (w', Returned) \<and>
           w_cmds w' = w_cmds w @
             [ZAdd (leaderboard_key a) [(contestant_id a, PyF (Fin (- 1)))],
              HSet (''contestant:meta:'' @ contestant_id a) (metrics_dict m), Publish (channel a) p] \<and>
           m_score m = PyF (Fin (- 1)) \<and> m_correctness m = violation_text v \<and>
           w_out w' = w_out w @ [dict_merge [(''status'', JStr ''disqualified'')] (metrics_dict m)]"
proof -
  let ?w = "w\<lparr>w_state := (w_state w)\<lparr>correctness := violation_text v\<rparr>\<rparr>"
  have "samples_ok (w_state ?w)" using assms(2) by (simp add: samples_ok_def)
  then obtain m where m: "metrics (clock ev (w_reads w)) (w_state ?w) =
      Inr (m, prune (clock ev (w_reads w)) (w_state ?w))" "m_correctness m = violation_text v"
    using metrics_total [of "w_state ?w" "clock ev (w_reads w)"]
    by (auto split: if_splits)
  let ?m = "m\<lparr>m_score := PyF (Fin (- 1))\<rparr>"
  show ?thesis
    using assms(1) m
      publish_metrics_ok [OF assms(3), of a ?m "?w\<lparr>w_reads := Suc (w_reads w),
        w_state := prune (clock ev (w_reads w)) (w_state ?w)\<rparr>"]
    by (auto simp: disqualify_def take_metrics_def read_clock_def Let_def print_json_def
        intro!: exI [of _ ?m])
qed

text \<open>
  C10. What a disqualification does: the first trade that \<open>validate\<close> rejects makes the worker send
  exactly three commands (score -1 for this contestant, the metadata with the violation's text, the
  update message), print one line, and return without looking at the trades behind it.
\<close>

theorem violation_published:
  assumes "validate (w_state w) e = Some v" "samples_ok (w_state w)"
    and "redis_fails ev = (\<lambda>_ _. None)"
  shows "\<exists>w' m p. worker_events ev a (e # es) w = (w', Returned) \<and>
           w_cmds w' = w_cmds w @
             [ZAdd (leaderboard_key a) [(contestant_id a, PyF (Fin (- 1)))],
              HSet (''contestant:meta:'' @ contestant_id a) (metrics_dict m), Publish (channel a) p] \<and>
           m_score m = PyF (Fin (- 1)) \<and> m_correctness m = violation_text v \<and>
           w_out w' = w_out w @ [dict_merge [(''status'', JStr ''disqualified'')] (metrics_dict m)]"
  using assms by (rule violation_steps)

section \<open>End to end\<close>

lemma worker_events_verdict:
  assumes "redis_fails ev = (\<lambda>_ _. None)"
  shows "ready (w_state w) (length es + k) \<Longrightarrow> list_all event_fits es \<Longrightarrow>
     snd (worker_events ev a es w) =
       (if legal_from (prev_event (w_state w)) es then Running else Returned) \<and>
     (legal_from (prev_event (w_state w)) es \<longrightarrow>
        ready (w_state (fst (worker_events ev a es w))) k \<and>
        prev_event (w_state (fst (worker_events ev a es w))) =
          (if es = [] then prev_event (w_state w) else Some (last es)))"
proof (induction es arbitrary: w)
  case Nil
  then show ?case by simp
next
  case (Cons e es)
  have c: "consistent (w_state w)" using Cons.prems(1) by (simp add: ready_def)
  show ?case
  proof (cases "validate (w_state w) e")
    case None
    let ?w = "w\<lparr>w_reads := Suc (w_reads w), w_state := accept (clock ev (w_reads w)) (w_state w) e\<rparr>"
    have v: "legal_from (prev_event (w_state w)) (e # es) = legal_from (Some e) es"
      using validate_None [OF c] None by simp
    have "ready (w_state ?w) (length es + k)"
      using Cons.prems ready_accept [of "w_state w" "length es + k" e] by simp
    with Cons.IH [of ?w] Cons.prems(2) None show ?thesis
      unfolding v by (simp add: read_clock_def del: legal_from.simps)
  next
    case (Some v)
    then have "\<not> legal_from (prev_event (w_state w)) (e # es)" using validate_None [OF c, of e] by auto
    moreover have "snd (worker_events ev a (e # es) w) = Returned"
      using violation_steps [OF Some ready_samples_ok [OF Cons.prems(1)] assms, of a es] by auto
    ultimately show ?thesis by (simp del: legal_from.simps worker_events.simps)
  qed
qed

lemma worker_report_verdict:
  assumes "redis_fails ev = (\<lambda>_ _. None)" "ready (w_state w) k"
  shows "snd (worker_report ev a w) = Running \<and> ready (w_state (fst (worker_report ev a w))) k \<and>
           prev_event (w_state (fst (worker_report ev a w))) = prev_event (w_state w)"
proof -
  let ?w = "w\<lparr>w_reads := Suc (w_reads w)\<rparr>"
  let ?w' = "?w\<lparr>w_reads := Suc (w_reads ?w), w_state := prune (clock ev (w_reads ?w)) (w_state ?w)\<rparr>"
  obtain m where m: "metrics (clock ev (w_reads ?w)) (w_state ?w) =
      Inr (m, prune (clock ev (w_reads ?w)) (w_state ?w))"
    using metrics_total [of "w_state ?w"] ready_samples_ok [OF assms(2)] by (auto split: if_splits)
  obtain w'' where p: "publish_metrics ev a m ?w' = (w'', Running)" "w_state w'' = w_state ?w'"
    using publish_metrics_ok [OF assms(1), of a m ?w'] by auto
  from m have "take_metrics ev ?w f = f m ?w'" for f
    by (simp add: take_metrics_def read_clock_def)
  with p ready_prune [OF assms(2)] assms(2) show ?thesis
    by (simp add: worker_report_def read_clock_def print_json_def)
qed

lemma worker_loop_verdict:
  assumes "redis_fails ev = (\<lambda>_ _. None)"
  shows "ready (w_state w) (length (concat batches)) \<Longrightarrow> list_all event_fits (concat batches) \<Longrightarrow>
     snd (worker_loop ev a (map (\<lambda>b. Payload (concat (map trade_event_wire b))) batches) w) =
       (if legal_from (prev_event (w_state w)) (concat batches) then Running else Returned)"
proof (induction batches arbitrary: w)
  case Nil
  then show ?case by simp
next
  case (Cons b batches)
  let ?r = "worker_events ev a b w" and ?p = "prev_event (w_state w)"
  have m: "worker_message ev a (Payload (concat (map trade_event_wire b))) w = ?r"
    using Cons.prems(2) by (simp add: worker_message_def unpack_trade_wire)
  note v = worker_events_verdict [OF assms, of w b "length (concat batches)" a]
  have split: "legal_from ?p (concat (b # batches)) \<longleftrightarrow>
      legal_from ?p b \<and> legal_from (if b = [] then ?p else Some (last b)) (concat batches)"
    by (simp add: legal_from_append)
  obtain w' c where r: "?r = (w', c)" by (cases ?r)
  show ?case
  proof (cases "legal_from ?p b")
    case False
    then have "c = Returned" using v Cons.prems r by simp
    with False split m r show ?thesis by (simp add: worker_iter_def)
  next
    case True
    then have w': "c = Running" "ready (w_state w') (length (concat batches))"
      "prev_event (w_state w') = (if b = [] then ?p else Some (last b))"
      using v Cons.prems r by simp_all
    obtain w'' where r': "worker_report ev a w' = (w'', Running)"
      "ready (w_state w'') (length (concat batches))" "prev_event (w_state w'') = prev_event (w_state w')"
      using worker_report_verdict [OF assms w'(2), of a] by (metis prod.collapse)
    with Cons.IH [of w''] Cons.prems(2) True split w' m r show ?thesis
      by (simp add: worker_iter_def)
  qed
qed

lemma ready_new: "int n \<le> 2 ^ 53 \<Longrightarrow> ready (new_contestant window) n"
  by (simp add: ready_def new_contestant_def consistent_def)

lemma worker_main_verdict:
  assumes "redis_fails ev = (\<lambda>_ _. None)" "list_all event_fits (concat batches)"
    and "int (length (concat batches)) \<le> 2 ^ 53"
  shows "snd (worker_main ev a window
           (map (\<lambda>b. Payload (concat (map trade_event_wire b))) batches)) =
         (if legal_from None (concat batches) then Running else Returned)"
  using worker_loop_verdict [OF assms(1), of "new_worker ev window" batches a]
    ready_new [OF assms(3), of window] assms(2)
  by (cases "worker_loop ev a (map (\<lambda>b. Payload (concat (map trade_event_wire b))) batches)
      (new_worker ev window)") (simp add: worker_main_def new_worker_def)

text \<open>
  C2. The verdict is the contract, end to end: fed with the packed structs of the engine's trades,
  cut into payloads in any way along frame boundaries, with Redis answering, the worker keeps
  running exactly when the whole sequence of trades is legal, and returns otherwise; it never
  raises. (The bound on the number of trades keeps sample counts exact as floats.)
\<close>

theorem verdict_end_to_end:
  assumes "redis_fails ev = (\<lambda>_ _. None)" "list_all event_fits (concat batches)"
    and "int (length (concat batches)) \<le> 2 ^ 53"
  shows "snd (worker_main ev a window
           (map (\<lambda>b. Payload (concat (map trade_event_wire b))) batches)) =
         (if legal_from None (concat batches) then Running else Returned)"
  by (rule worker_main_verdict [OF assms])

lemma sample_trade_fits:
  "u64 m \<Longrightarrow> u64 b \<Longrightarrow> u64 s \<Longrightarrow> float_ok (Fin p) \<Longrightarrow> event_fits (sample_trade m b s p)"
  by (simp add: event_fits_def sample_trade_def u64_def u32_def)

theorem verdict_end_to_end_witness:
  "snd (worker_main quiet_env sample_args (Fin 1)
     (map (\<lambda>b. Payload (concat (map trade_event_wire b)))
       [[sample_trade 1 100 200 (21 / 2)], [sample_trade 2 100 201 10, sample_trade 3 100 202 11]])) =
   Returned"
proof -
  have "\<not> legal_from None (concat [[sample_trade 1 100 200 (21 / 2)],
      [sample_trade 2 100 201 10, sample_trade 3 100 202 11]])"
    by (simp add: follows_def price_step_ok_def sample_trade_def PRICE_EPSILON_value fsub_def float_eval)
  moreover have "event_fits (sample_trade 1 100 200 (21 / 2))" "event_fits (sample_trade 2 100 201 10)"
    "event_fits (sample_trade 3 100 202 11)"
    by (rule sample_trade_fits; simp add: u64_def f64_limit_def rounding_eval)+
  ultimately show ?thesis
    using verdict_end_to_end [of quiet_env "[[sample_trade 1 100 200 (21 / 2)],
      [sample_trade 2 100 201 10, sample_trade 3 100 202 11]]" sample_args "Fin 1"]
    by (simp add: quiet_env_def del: legal_from.simps)
qed

theorem violation_published_witness:
  "\<exists>w' m p. worker_events quiet_env sample_args [sample_trade 1 100 100 10]
       (new_worker quiet_env (Fin 1)) = (w', Returned) \<and>
     w_cmds w' = [ZAdd ''leaderboard:scores'' [(''alice'', PyF (Fin (- 1)))],
        HSet ''contestant:meta:alice'' (metrics_dict m), Publish ''leaderboard_updates'' p] \<and>
     m_correctness m = ''CRITICAL_ERR: SELF_MATCH''"
proof -
  have "validate (w_state (new_worker quiet_env (Fin 1))) (sample_trade 1 100 100 10) = Some SelfMatch"
    by (simp add: validate_def sequence_error_def new_worker_def new_contestant_def sample_trade_def)
  moreover have "samples_ok (w_state (new_worker quiet_env (Fin 1)))"
    by (simp add: samples_ok_def new_worker_def new_contestant_def)
  ultimately show ?thesis
    using violation_published [of "new_worker quiet_env (Fin 1)" "sample_trade 1 100 100 10" SelfMatch
        quiet_env sample_args "[]"]
    by (auto simp: quiet_env_def sample_args_def new_worker_def)
qed

end
