(* ===== verification/ScoringSelfTest.thy ===== *)
theory ScoringSelfTest
  imports ScoringVerdict
begin

text \<open>
  \<open>run_self_test\<close> of \<^verbatim>\<open>telemetry/scoring_engine.py\<close>: the seven scenarios it feeds through
  \<open>validate\<close> and \<open>accept\<close>, with every \<open>assert\<close> as a branch to \<open>AssertionError\<close>. The n-th
  reading of the monotonic clock is \<open>ck n\<close>; \<open>now\<close> is the reading of \<open>time.time_ns()\<close>.
\<close>

definition ev :: "int \<Rightarrow> int \<Rightarrow> int \<Rightarrow> int \<Rightarrow> rat \<Rightarrow> trade_event" where
  "ev now m b s p =
     \<lparr>match_id = m, buy_order_id = b, sell_order_id = s, t0_ns = now - 5000, t1_ns = now - 2000,
      t2_ns = now + m * 1000, price = Fin p, qty = 5\<rparr>"

text \<open>\<open>feed\<close> returns the first violation, the state it leaves behind and the clock's next reading.\<close>

fun feed :: "(nat \<Rightarrow> pyfloat) \<Rightarrow> nat \<Rightarrow> contestant \<Rightarrow> trade_event list \<Rightarrow>
    violation option \<times> contestant \<times> nat" where
  "feed ck n st [] = (None, st, n)"
| "feed ck n st (e # es) =
     (case validate st e of
        Some v \<Rightarrow> (Some v, st, n)
      | None \<Rightarrow> feed ck (Suc n) (accept (ck n) st e) es)"

definition expect_clean :: "(nat \<Rightarrow> pyfloat) \<Rightarrow> nat \<Rightarrow> trade_event list \<Rightarrow>
    (contestant \<Rightarrow> nat \<Rightarrow> 'a result) \<Rightarrow> 'a result" where
  "expect_clean ck n es k =
     (case feed ck n (new_contestant (Fin 1)) es of
        (None, st, n') \<Rightarrow> k st n'
      | (Some v, _) \<Rightarrow> Inl AssertionError)"

definition expect_violation :: "(nat \<Rightarrow> pyfloat) \<Rightarrow> nat \<Rightarrow> trade_event list \<Rightarrow> string \<Rightarrow>
    (nat \<Rightarrow> 'a result) \<Rightarrow> 'a result" where
  "expect_violation ck n es p k =
     (case feed ck n (new_contestant (Fin 1)) es of
        (Some v, st, n') \<Rightarrow> if starts_with p (violation_text v) then k n' else Inl AssertionError
      | (None, _) \<Rightarrow> Inl AssertionError)"

definition run_self_test :: "int \<Rightarrow> (nat \<Rightarrow> pyfloat) \<Rightarrow> metrics result" where
  "run_self_test now ck =
     (let e = ev now in
      expect_clean ck 0 [e 1 100 200 10, e 2 100 201 10] (\<lambda>st n.
      case validate st (e 4 100 202 10) of
        None \<Rightarrow> Inl AttributeError
      | Some v \<Rightarrow>
          if \<not> starts_with ''CRITICAL_ERR: MATCH_SEQUENCE'' (violation_text v) then Inl AssertionError
          else
      expect_clean ck n [e 1 100 200 10, e 2 100 201 (21 / 2), e 3 100 202 11] (\<lambda>_ n.
      expect_violation ck n [e 1 100 200 (21 / 2), e 2 100 201 10] ''CRITICAL_ERR: PRICE_PRIORITY'' (\<lambda>n.
      expect_clean ck n [e 1 200 100 11, e 2 201 100 (21 / 2), e 3 202 100 10] (\<lambda>_ n.
      expect_violation ck n [e 1 200 100 10, e 2 201 100 (21 / 2)] ''CRITICAL_ERR: PRICE_PRIORITY'' (\<lambda>n.
      expect_clean ck n [e 1 100 200 10, e 2 100 201 10, e 3 100 202 10] (\<lambda>_ n.
      expect_clean ck n [e 1 100 200 (21 / 2), e 2 101 201 9, e 3 102 202 12] (\<lambda>st n.
        rbind (metrics (ck n) st) (\<lambda>(m, _). Inr m)))))))))"

section \<open>The self test passes\<close>

lemma feed_clean:
  "ready st (length es + k) \<Longrightarrow> legal_from (prev_event st) es \<Longrightarrow>
   list_all (\<lambda>e. engine_latency_ns e < 2 ^ 64) es \<Longrightarrow>
     \<exists>st'. feed ck n st es = (None, st', n + length es) \<and> ready st' k \<and>
       prev_event st' = (if es = [] then prev_event st else Some (last es)) \<and>
       correctness st' = correctness st \<and> total_events st' = total_events st + int (length es)"
proof (induction es arbitrary: st n)
  case Nil
  then show ?case by simp
next
  case (Cons e es)
  let ?st = "accept (ck n) st e"
  have v: "validate st e = None" using Cons.prems by (simp add: ready_def validate_None)
  have "ready ?st (length es + k)"
    by (rule ready_accept_latency) (use Cons.prems in simp_all)
  moreover have "legal_from (prev_event ?st) es" using Cons.prems by simp
  ultimately show ?case using Cons.IH [of ?st "Suc n"] Cons.prems(3) v by auto
qed

lemma expect_clean_legal:
  assumes "legal_from None es" "es \<noteq> []" "list_all (\<lambda>e. engine_latency_ns e < 2 ^ 64) es"
    and "length es < 100"
    and "\<And>st. ready st 0 \<Longrightarrow> prev_event st = Some (last es) \<Longrightarrow> correctness st = ''PASSED'' \<Longrightarrow>
      total_events st = int (length es) \<Longrightarrow> P (k st (n + length es))"
  shows "P (expect_clean ck n es k)"
proof -
  have "ready (new_contestant (Fin 1)) (length es + 0)" using assms(4) by (intro ready_new) simp
  from feed_clean [OF this, of ck n] assms(1-3) obtain st where
    "feed ck n (new_contestant (Fin 1)) es = (None, st, n + length es)" "ready st 0"
    "prev_event st = Some (last es)" "correctness st = ''PASSED''" "total_events st = int (length es)"
    by (auto simp: new_contestant_def)
  with assms(5) show ?thesis by (simp add: expect_clean_def)
qed

lemma last_t2_new [simp]: "last_t2_ns (new_contestant w) = 0" "last_match_id (new_contestant w) = None"
  by (simp_all add: new_contestant_def)

lemmas ev_eval = well_formed_trade_def follows_def price_step_ok_def ev_def PRICE_EPSILON_value
  fsub_def float_eval

lemma ev_latency: "engine_latency_ns (ev now m b s p) = max 0 (m * 1000 + 2000)"
  by (simp add: engine_latency_ns_def ev_def)

lemma ev_well_formed:
  "5000 < now \<Longrightarrow> 0 < m \<Longrightarrow>
     well_formed_trade (ev now m b s p) \<longleftrightarrow> b \<noteq> 0 \<and> s \<noteq> 0 \<and> b \<noteq> s \<and> 0 < p"
  by (auto simp: well_formed_trade_def ev_def)

lemma flagged_pair:
  assumes "5000 < now" "well_formed_trade (ev now 1 b s p)" "well_formed_trade (ev now 2 b' s' q)"
    and "check_price_priority (accept (ck n) (new_contestant (Fin 1)) (ev now 1 b s p)) (ev now 2 b' s' q) = Some v"
    and "starts_with txt (violation_text v)"
  shows "expect_violation ck n [ev now 1 b s p, ev now 2 b' s' q] txt k = k (Suc n)"
proof -
  have "validate (new_contestant (Fin 1)) (ev now 1 b s p) = None"
    using assms(1,2) by (simp add: validate_None ev_def)
  moreover have "validate (accept (ck n) (new_contestant (Fin 1)) (ev now 1 b s p)) (ev now 2 b' s' q) = Some v"
    using assms(1,3,4)
    by (auto simp: validate_def sequence_error_def well_formed_trade_def fle_zero_iff ev_def)
  ultimately show ?thesis using assms(5) by (simp add: expect_violation_def)
qed

lemma flagged_buy:
  assumes "5000 < now"
  shows "expect_violation ck n [ev now 1 100 200 (21 / 2), ev now 2 100 201 10]
    ''CRITICAL_ERR: PRICE_PRIORITY'' k = k (Suc n)"
proof (rule flagged_pair [OF assms])
  show "check_price_priority (accept (ck n) (new_contestant (Fin 1)) (ev now 1 100 200 (21 / 2)))
      (ev now 2 100 201 10) = Some (PricePriorityBuy 100 (Fin (21 / 2)) (Fin 10))"
    by (simp add: check_price_priority_def ev_def PRICE_EPSILON_value fsub_def float_eval)
qed (use assms in \<open>simp_all add: ev_well_formed starts_with_def\<close>)

lemma flagged_sell:
  assumes "5000 < now"
  shows "expect_violation ck n [ev now 1 200 100 10, ev now 2 201 100 (21 / 2)]
    ''CRITICAL_ERR: PRICE_PRIORITY'' k = k (Suc n)"
proof (rule flagged_pair [OF assms])
  show "check_price_priority (accept (ck n) (new_contestant (Fin 1)) (ev now 1 200 100 10))
      (ev now 2 201 100 (21 / 2)) = Some (PricePrioritySell 100 (Fin 10) (Fin (21 / 2)))"
    by (simp add: check_price_priority_def ev_def PRICE_EPSILON_value float_eval)
qed (use assms in \<open>simp_all add: ev_well_formed starts_with_def\<close>)

lemma gap_flagged:
  assumes "ready st 0" "prev_event st = Some (ev now 2 100 201 10)"
  shows "\<exists>v. validate st (ev now 4 100 202 10) = Some v \<and>
    starts_with ''CRITICAL_ERR: MATCH_SEQUENCE'' (violation_text v)"
  using assms by (simp add: ready_def validate_def sequence_error_def consistent_def ev_def starts_with_def)

lemma final_metrics:
  assumes "ready st 0" "correctness st = ''PASSED''" "total_events st = 3"
  shows "\<exists>m. rbind (metrics t st) (\<lambda>(m, _). Inr m) = Inr m \<and> m_correctness m = ''PASSED'' \<and> m_total_events m = 3"
proof -
  obtain m where m: "metrics t st = Inr (m, prune t st)"
    using metrics_total [OF ready_samples_ok [OF assms(1)], of t] by auto
  with metrics_copies [OF m] assms(2,3) show ?thesis by (intro exI [of _ m]) simp
qed

text \<open>The five sequences the test expects to be accepted are legal.\<close>

lemma legal_scenarios:
  assumes "5000 < now"
  shows "legal_from None [ev now 1 100 200 10, ev now 2 100 201 10]"
    "legal_from None [ev now 1 100 200 10, ev now 2 100 201 (21 / 2), ev now 3 100 202 11]"
    "legal_from None [ev now 1 200 100 11, ev now 2 201 100 (21 / 2), ev now 3 202 100 10]"
    "legal_from None [ev now 1 100 200 10, ev now 2 100 201 10, ev now 3 100 202 10]"
    "legal_from None [ev now 1 100 200 (21 / 2), ev now 2 101 201 9, ev now 3 102 202 12]"
  using assms
  by (simp_all add: well_formed_trade_def follows_def price_step_ok_def ev_def PRICE_EPSILON_value
      fsub_def float_eval)

text \<open>
  The self test shipped with the worker passes: whatever the wall clock (past its first 5
  microseconds) and the monotonic clock read, no assertion fails, and the metrics it prints count
  the last scenario's three trades as PASSED.
\<close>

lemma self_test_passes:
  assumes "5000 < now"
  shows "\<exists>m. run_self_test now ck = Inr m \<and> m_correctness m = ''PASSED'' \<and> m_total_events m = 3"
proof -
  let ?P = "\<lambda>r. \<exists>m. r = Inr m \<and> m_correctness m = ''PASSED'' \<and> m_total_events m = 3"
  note clean = expect_clean_legal [where P = ?P]
  show ?thesis
    unfolding run_self_test_def Let_def flagged_buy [OF assms] flagged_sell [OF assms]
  proof (rule clean [OF legal_scenarios(1) [OF assms]])
    fix st assume "ready st 0" "prev_event st = Some (last [ev now 1 100 200 10, ev now 2 100 201 10])"
    then obtain v where v: "validate st (ev now 4 100 202 10) = Some v"
      "starts_with ''CRITICAL_ERR: MATCH_SEQUENCE'' (violation_text v)"
      using gap_flagged [of st now] by auto
    show "?P (case validate st (ev now 4 100 202 10) of None \<Rightarrow> Inl AttributeError
      | Some v \<Rightarrow> if \<not> starts_with ''CRITICAL_ERR: MATCH_SEQUENCE'' (violation_text v) then Inl AssertionError
        else expect_clean ck (0 + length [ev now 1 100 200 10, ev now 2 100 201 10])
          [ev now 1 100 200 10, ev now 2 100 201 (21 / 2), ev now 3 100 202 11] (\<lambda>_ n.
          expect_clean ck (Suc n) [ev now 1 200 100 11, ev now 2 201 100 (21 / 2), ev now 3 202 100 10] (\<lambda>_ n.
          expect_clean ck (Suc n) [ev now 1 100 200 10, ev now 2 100 201 10, ev now 3 100 202 10] (\<lambda>_ n.
          expect_clean ck n [ev now 1 100 200 (21 / 2), ev now 2 101 201 9, ev now 3 102 202 12] (\<lambda>st n.
            rbind (metrics (ck n) st) (\<lambda>(m, _). Inr m))))))"
      unfolding v(1) option.case
      by (subst if_not_P, use v in simp, intro clean legal_scenarios [OF assms])
        (simp_all add: ev_latency final_metrics del: rbind_eq_Inr)
  qed (simp_all add: ev_latency)
qed

end
