(* ===== verification/Handshake.thy ===== *)
theory Handshake
  imports Wire PyStr
begin

text \<open>
  The WebSocket upgrade, both sides: the helpers of \<^verbatim>\<open>matching-engine/networking/TCPServer.cpp\<close>
  (\<open>rol\<close>, \<open>sha1\<close>, \<open>base64\<close>, \<open>trim\<close>, \<open>lower\<close>, \<open>headerValue\<close>, \<open>websocketAccept\<close>, the upgrade
  branch of \<open>handleClientData\<close>) and the request and the check of \<open>Bot.connect\<close> in
  \<^verbatim>\<open>bot-fleet/main.py\<close>, whose \<open>hashlib.sha1\<close> and \<open>base64.b64encode\<close> are the same functions.
  Header text is a string; the bytes that are hashed are those of its ASCII characters.
\<close>

unbundle bit_operations_syntax

section \<open>SHA-1 and base64\<close>

definition rol :: "32 word \<Rightarrow> nat \<Rightarrow> 32 word" where
  "rol v n = push_bit n v OR drop_bit (32 - n) v"

definition be_bytes :: "nat \<Rightarrow> int \<Rightarrow> bytes" where
  "be_bytes k n = rev (le_bytes k n)"

definition be_word :: "bytes \<Rightarrow> 32 word" where
  "be_word bs = word_of_int (le_val (rev bs))"

text \<open>The \<open>0x80\<close> byte, zeros up to 56 modulo 64, the bit length as eight big-endian bytes.\<close>

definition sha1_pad :: "bytes \<Rightarrow> bytes" where
  "sha1_pad data =
     data @ [0x80] @ replicate (nat ((55 - int (length data)) mod 64)) 0 @
     be_bytes 8 (int (length data) * 8)"

fun sha1_extend :: "nat \<Rightarrow> 32 word list \<Rightarrow> 32 word list" where
  "sha1_extend 0 w = w"
| "sha1_extend (Suc k) w =
     (let i = length w
      in sha1_extend k (w @ [rol (w ! (i - 3) XOR w ! (i - 8) XOR w ! (i - 14) XOR w ! (i - 16)) 1]))"

definition sha1_schedule :: "bytes \<Rightarrow> 32 word list" where
  "sha1_schedule chunk =
     sha1_extend 64 (map (\<lambda>i. be_word (take 4 (drop (i * 4) chunk))) [0..<16])"

type_synonym sha1_state = "32 word \<times> 32 word \<times> 32 word \<times> 32 word \<times> 32 word"

definition sha1_f :: "nat \<Rightarrow> 32 word \<Rightarrow> 32 word \<Rightarrow> 32 word \<Rightarrow> 32 word \<times> 32 word" where
  "sha1_f i b c d =
     (if i < 20 then ((b AND c) OR (NOT b AND d), 0x5A827999)
      else if i < 40 then (b XOR c XOR d, 0x6ED9EBA1)
      else if i < 60 then ((b AND c) OR (b AND d) OR (c AND d), 0x8F1BBCDC)
      else (b XOR c XOR d, 0xCA62C1D6))"

fun sha1_rounds :: "nat \<Rightarrow> 32 word list \<Rightarrow> sha1_state \<Rightarrow> sha1_state" where
  "sha1_rounds i [] s = s"
| "sha1_rounds i (w # ws) (a, b, c, d, e) =
     (let (f, k) = sha1_f i b c d; temp = rol a 5 + f + e + k + w
      in sha1_rounds (Suc i) ws (temp, a, rol b 30, c, d))"

fun sha1_chunk :: "sha1_state \<Rightarrow> bytes \<Rightarrow> sha1_state" where
  "sha1_chunk (h0, h1, h2, h3, h4) chunk =
     (let (a, b, c, d, e) = sha1_rounds 0 (sha1_schedule chunk) (h0, h1, h2, h3, h4)
      in (h0 + a, h1 + b, h2 + c, h3 + d, h4 + e))"

definition sha1 :: "bytes \<Rightarrow> bytes" where
  "sha1 input =
     (let data = sha1_pad input;
          (h0, h1, h2, h3, h4) =
            foldl (\<lambda>h i. sha1_chunk h (take 64 (drop (i * 64) data)))
              (0x67452301, 0xEFCDAB89, 0x98BADCFE, 0x10325476, 0xC3D2E1F0) [0..<length data div 64]
      in concat (map (\<lambda>h. be_bytes 4 (uint h)) [h0, h1, h2, h3, h4]))"

definition b64_table :: string where
  "b64_table = ''ABCDEFGHIJKLMNOPQRSTUVWXYZabcdefghijklmnopqrstuvwxyz0123456789+/''"

definition b64_char :: "int \<Rightarrow> nat \<Rightarrow> char" where
  "b64_char n k = b64_table ! nat (n div 2 ^ k mod 64)"

fun base64 :: "bytes \<Rightarrow> string" where
  "base64 [] = []"
| "base64 [a] =
     (let n = uint a * 2 ^ 16 in [b64_char n 18, b64_char n 12, CHR ''='', CHR ''=''])"
| "base64 [a, b] =
     (let n = uint a * 2 ^ 16 + uint b * 2 ^ 8
      in [b64_char n 18, b64_char n 12, b64_char n 6, CHR ''=''])"
| "base64 (a # b # c # rest) =
     (let n = uint a * 2 ^ 16 + uint b * 2 ^ 8 + uint c
      in b64_char n 18 # b64_char n 12 # b64_char n 6 # b64_char n 0 # base64 rest)"

definition ascii :: "string \<Rightarrow> bytes" where
  "ascii s = map of_char s"

definition WS_GUID :: string where
  "WS_GUID = ''258EAFA5-E914-47DA-95CA-C5AB0DC85B11''"

definition websocketAccept :: "string \<Rightarrow> string" where
  "websocketAccept key = base64 (sha1 (ascii (key @ WS_GUID)))"

section \<open>Headers\<close>

definition is_space :: "char \<Rightarrow> bool" where
  "is_space c \<longleftrightarrow> (of_char c :: nat) = 32 \<or> 9 \<le> (of_char c :: nat) \<and> (of_char c :: nat) \<le> 13"

definition trim :: "string \<Rightarrow> string" where
  "trim s = rev (dropWhile is_space (rev (dropWhile is_space s)))"

definition to_lower :: "char \<Rightarrow> char" where
  "to_lower c = (let n = of_char c :: nat in if 65 \<le> n \<and> n \<le> 90 then char_of (n + 32) else c)"

definition lower :: "string \<Rightarrow> string" where
  "lower s = map to_lower s"

abbreviation (input) CR :: char where "CR \<equiv> CHR 0x0D"
abbreviation (input) LF :: char where "LF \<equiv> CHR 0x0A"
abbreviation (input) crlf :: string where "crlf \<equiv> [CHR 0x0D, CHR 0x0A]"

text \<open>\<open>std::getline\<close> in a loop: the pieces between newlines, no empty piece after a final newline.\<close>

fun getlines :: "string \<Rightarrow> string \<Rightarrow> string list" where
  "getlines acc [] = (if acc = [] then [] else [rev acc])"
| "getlines acc (c # cs) = (if c = LF then rev acc # getlines [] cs else getlines (c # acc) cs)"

definition chop_cr :: "string \<Rightarrow> string" where
  "chop_cr line = (if line \<noteq> [] \<and> last line = CR then butlast line else line)"

fun header_in :: "string list \<Rightarrow> string \<Rightarrow> string" where
  "header_in [] target = []"
| "header_in (l # ls) target =
     (let line = chop_cr l
      in if CHR '':'' \<notin> set line then header_in ls target
         else if lower (takeWhile (\<lambda>c. c \<noteq> CHR '':'') line) = target
              then trim (tl (dropWhile (\<lambda>c. c \<noteq> CHR '':'') line))
              else header_in ls target)"

definition headerValue :: "string \<Rightarrow> string \<Rightarrow> string" where
  "headerValue request name = header_in (getlines [] request) (lower name)"

text \<open>\<open>std::search\<close> for the blank line: the size of the header including it.\<close>

fun header_end :: "string \<Rightarrow> nat option" where
  "header_end [] = None"
| "header_end (c # cs) =
     (if starts_with (crlf @ crlf) (c # cs) then Some 4 else map_option Suc (header_end cs))"

definition upgrade_response :: "string \<Rightarrow> string" where
  "upgrade_response key =
     ''HTTP/1.1 101 Switching Protocols'' @ crlf @ ''Upgrade: websocket'' @ crlf @
     ''Connection: Upgrade'' @ crlf @ ''Sec-WebSocket-Accept: '' @ websocketAccept key @ crlf @ crlf"

datatype upgrade =
    Incomplete
  | NoKey
  | Upgraded string string

text \<open>The branch of \<open>handleClientData\<close> before the connection is ready: the response, and the rest.\<close>

definition server_upgrade :: "string \<Rightarrow> upgrade" where
  "server_upgrade buf =
     (case header_end buf of
        None \<Rightarrow> Incomplete
      | Some k \<Rightarrow>
          (let key = headerValue (take k buf) ''Sec-WebSocket-Key''
           in if key = [] then NoKey else Upgraded (upgrade_response key) (drop k buf)))"

section \<open>The bot's side\<close>

definition handshake_request :: "string \<Rightarrow> int \<Rightarrow> string \<Rightarrow> string" where
  "handshake_request host port key =
     ''GET /orders HTTP/1.1'' @ crlf @ ''Host: '' @ host @ '':'' @ show_int port @ crlf @
     ''Upgrade: websocket'' @ crlf @ ''Connection: Upgrade'' @ crlf @
     ''Sec-WebSocket-Key: '' @ key @ crlf @ ''Sec-WebSocket-Version: 13'' @ crlf @ crlf"

definition handshake_ok :: "string \<Rightarrow> string \<Rightarrow> bool" where
  "handshake_ok key response \<longleftrightarrow>
     contains '' 101 '' response \<and> contains (websocketAccept key) response"


section \<open>The upgrade succeeds\<close>

lemma getlines_line: "LF \<notin> set l \<Longrightarrow> getlines acc (l @ LF # r) = (rev acc @ l) # getlines [] r"
  by (induction l arbitrary: acc) auto

lemma chop_cr_snoc [simp]: "chop_cr (l @ [CR]) = l"
  by (simp add: chop_cr_def)

lemma getlines_crlf: "LF \<notin> set l \<Longrightarrow> getlines [] (l @ crlf @ r) = (l @ [CR]) # getlines [] r"
  using getlines_line [of "l @ [CR]" "[]" r] by simp

lemma header_end_line:
  "LF \<notin> set l \<Longrightarrow>
     header_end (l @ crlf @ t) =
       (if starts_with crlf t then Some (length l + 4)
        else map_option (\<lambda>k. length l + 2 + k) (header_end t))"
proof (induction l)
  case Nil
  show ?case by (auto simp: starts_with_def option.map_comp comp_def)
next
  case (Cons c l)
  have "\<not> starts_with (crlf @ crlf) (c # l @ crlf @ t)"
    using Cons.prems by (cases l) (auto simp: starts_with_def)
  with Cons show ?case by (simp add: option.map_comp comp_def)
qed

lemma header_end_text:
  "ls \<noteq> [] \<Longrightarrow> (\<And>l. l \<in> set ls \<Longrightarrow> LF \<notin> set l \<and> l \<noteq> [] \<and> hd l \<noteq> CR) \<Longrightarrow>
     header_end (concat (map (\<lambda>l. l @ crlf) ls) @ crlf @ r) =
       Some (length (concat (map (\<lambda>l. l @ crlf) ls)) + 2)"
proof (induction ls)
  case Nil
  then show ?case by simp
next
  case (Cons l ls)
  show ?case
  proof (cases "ls = []")
    case True
    with Cons.prems header_end_line [of l "crlf @ r"] show ?thesis by (simp add: starts_with_def)
  next
    case False
    then obtain m ms where ls: "ls = m # ms" by (cases ls) auto
    with Cons.prems have "m \<noteq> []" "hd m \<noteq> CR" by auto
    then have "\<not> starts_with crlf (concat (map (\<lambda>l. l @ crlf) ls) @ crlf @ r)"
      unfolding ls by (cases m) (auto simp: starts_with_def)
    with False Cons header_end_line [of l "concat (map (\<lambda>l. l @ crlf) ls) @ crlf @ r"] show ?thesis
      by (simp add: option.map_comp)
  qed
qed

text \<open>The characters of a base64 text.\<close>

definition is_b64 :: "char \<Rightarrow> bool" where
  "is_b64 c \<longleftrightarrow> c \<in> set b64_table \<or> c = CHR ''=''"

lemma b64_char_in [simp]: "is_b64 (b64_char n k)"
proof -
  have "nat (n div 2 ^ k mod 64) < length b64_table" by (simp add: b64_table_def nat_less_iff)
  then show ?thesis unfolding is_b64_def b64_char_def by (blast intro: nth_mem)
qed

lemma is_b64_pad [simp]: "is_b64 CHR ''=''"
  by (simp add: is_b64_def)

lemma base64_chars: "list_all is_b64 (base64 bs)"
  by (induction bs rule: base64.induct) (simp_all add: Let_def)

lemma base64_nonempty: "bs \<noteq> [] \<Longrightarrow> base64 bs \<noteq> []"
  by (cases bs rule: base64.cases) (simp_all add: Let_def)

lemma is_b64_not: "is_b64 c \<Longrightarrow> c \<noteq> LF \<and> c \<noteq> CR \<and> \<not> is_space c"
  by (auto simp: is_b64_def b64_table_def is_space_def)

lemma trim_b64: "list_all is_b64 s \<Longrightarrow> trim (CHR '' '' # s) = s"
proof -
  assume s: "list_all is_b64 s"
  have keep: "dropWhile is_space t = t" if "list_all is_b64 t" for t
    using that is_b64_not by (cases t) auto
  have "is_space CHR '' ''" by (simp add: is_space_def)
  with keep [OF s] keep [of "rev s"] s show ?thesis by (simp add: trim_def)
qed

lemma show_int_chars: "c \<in> set (show_int n) \<Longrightarrow> is_digit c \<or> c = CHR ''-''"
  using show_nat_digits [of "nat n"] show_nat_digits [of "nat (- n)"]
  by (auto simp: show_int_def list_all_iff split: if_splits)

lemma show_int_no_newline [simp]: "LF \<notin> set (show_int n)" "CR \<notin> set (show_int n)"
  using show_int_chars [of LF n] show_int_chars [of CR n] by (auto simp: is_digit_def)

definition request_lines :: "string \<Rightarrow> int \<Rightarrow> string \<Rightarrow> string list" where
  "request_lines host port key =
     [''GET /orders HTTP/1.1'', ''Host: '' @ host @ '':'' @ show_int port, ''Upgrade: websocket'',
      ''Connection: Upgrade'', ''Sec-WebSocket-Key: '' @ key, ''Sec-WebSocket-Version: 13'']"

lemma request_as_lines:
  "handshake_request host port key = concat (map (\<lambda>l. l @ crlf) (request_lines host port key)) @ crlf @ []"
  by (simp add: handshake_request_def request_lines_def)

lemma getlines_lines:
  "(\<And>l. l \<in> set ls \<Longrightarrow> LF \<notin> set l) \<Longrightarrow>
     getlines [] (concat (map (\<lambda>l. l @ crlf) ls) @ r) = map (\<lambda>l. l @ [CR]) ls @ getlines [] r"
proof (induction ls)
  case (Cons l ls)
  then show ?case using getlines_crlf [of l "concat (map (\<lambda>l. l @ crlf) ls) @ r"] by simp
qed simp

lemma request_key:
  assumes "LF \<notin> set host" "list_all is_b64 key"
  shows "headerValue (handshake_request host port key) ''Sec-WebSocket-Key'' = key"
proof -
  have "LF \<notin> set key" using assms(2) is_b64_not by (auto simp: list_all_iff)
  then have nl: "LF \<notin> set l" if "l \<in> set (request_lines host port key)" for l
    using that assms(1) by (auto simp: request_lines_def)
  have "getlines [] (handshake_request host port key) =
      map (\<lambda>l. l @ [CR]) (request_lines host port key) @ [[CR]]"
    unfolding request_as_lines using getlines_lines [OF nl, where r = "crlf @ []"] by simp
  then show ?thesis
    by (simp add: headerValue_def request_lines_def chop_cr_def lower_def to_lower_def trim_b64 [OF assms(2)])
qed

lemma upgrade_response_end: "header_end (upgrade_response key) = Some (length (upgrade_response key))"
proof -
  define ls where "ls = [''HTTP/1.1 101 Switching Protocols'', ''Upgrade: websocket'',
    ''Connection: Upgrade'', ''Sec-WebSocket-Accept: '' @ websocketAccept key]"
  have r: "upgrade_response key = concat (map (\<lambda>l. l @ crlf) ls) @ crlf @ []"
    by (simp add: upgrade_response_def ls_def)
  have "LF \<notin> set (websocketAccept key)"
    using base64_chars is_b64_not by (auto simp: websocketAccept_def list_all_iff)
  then have "header_end (concat (map (\<lambda>l. l @ crlf) ls) @ crlf @ []) =
      Some (length (concat (map (\<lambda>l. l @ crlf) ls)) + 2)"
    by (intro header_end_text) (auto simp: ls_def)
  then show ?thesis unfolding r by simp
qed

lemma handshake_ok_response: "handshake_ok key (upgrade_response key)"
proof -
  have "upgrade_response key = ''HTTP/1.1'' @ '' 101 '' @ ''Switching Protocols'' @ crlf @ ''Upgrade: websocket'' @ crlf @
     ''Connection: Upgrade'' @ crlf @ ''Sec-WebSocket-Accept: '' @ websocketAccept key @ crlf @ crlf"
    by (simp add: upgrade_response_def)
  then have "contains '' 101 '' (upgrade_response key)" by (metis contains_append)
  moreover have "upgrade_response key = (''HTTP/1.1 101 Switching Protocols'' @ crlf @ ''Upgrade: websocket'' @ crlf @
     ''Connection: Upgrade'' @ crlf @ ''Sec-WebSocket-Accept: '') @ websocketAccept key @ crlf @ crlf"
    by (simp add: upgrade_response_def)
  then have "contains (websocketAccept key) (upgrade_response key)" by (metis contains_append)
  ultimately show ?thesis by (simp add: handshake_ok_def)
qed

lemma request_upgraded:
  assumes "LF \<notin> set host" "length rand = 16"
  shows "server_upgrade (handshake_request host port (base64 rand)) = Upgraded (upgrade_response (base64 rand)) []"
proof -
  let ?key = "base64 rand" and ?req = "handshake_request host port (base64 rand)"
  have k: "list_all is_b64 ?key" by (rule base64_chars)
  then have "LF \<notin> set ?key" using is_b64_not by (auto simp: list_all_iff)
  then have "LF \<notin> set l \<and> l \<noteq> [] \<and> hd l \<noteq> CR" if "l \<in> set (request_lines host port ?key)" for l
    using that assms(1) by (auto simp: request_lines_def)
  then have "header_end (concat (map (\<lambda>l. l @ crlf) (request_lines host port ?key)) @ crlf @ []) =
      Some (length (concat (map (\<lambda>l. l @ crlf) (request_lines host port ?key))) + 2)"
    by (intro header_end_text) (simp_all add: request_lines_def)
  then have "header_end ?req = Some (length ?req)"
    unfolding request_as_lines by simp
  moreover have "?key \<noteq> []" using assms(2) by (intro base64_nonempty) auto
  ultimately show ?thesis
    by (simp add: server_upgrade_def request_key [OF assms(1) k])
qed



end
