(* ===== verification/Bots.thy ===== *)
theory Bots
  imports Handshake
begin

text \<open>
  The class \<open>Bot\<close> of \<^verbatim>\<open>bot-fleet/main.py\<close>: its state as a record, its methods as state
  transformers. asyncio's awaits are points where the environment acts: what a connection attempt,
  a read or a write does is an input, and so is whether \<open>disconnect\<close> ran meanwhile. What the bot
  does to the outside (requests and frames written, sleeps asked for) is logged in order.
\<close>

section \<open>State\<close>

datatype stream = Absent | Open | Closing

record bot =
  bot_id :: int
  host :: string
  port :: int
  reader :: bool
  writer :: stream
  running :: bool
  order_id_counter :: int
  orders_sent :: int
  failed_messages :: int
  connection_drops :: int
  log_requests :: "string list"
  log_frames :: "bytes list"
  log_sleeps :: "pyfloat list"

definition new_bot :: "int \<Rightarrow> string \<Rightarrow> int \<Rightarrow> bot" where
  "new_bot i h p =
     \<lparr>bot_id = i, host = h, port = p, reader = False, writer = Absent, running = False,
      order_id_counter = i * 1000000, orders_sent = 0, failed_messages = 0, connection_drops = 0,
      log_requests = [], log_frames = [], log_sleeps = []\<rparr>"

definition ORDER_FORMAT :: "fmt_code list" where
  "ORDER_FORMAT = [FQ, FQ, Fd, FI, FB, Fx, Fx, Fx]"

section \<open>Connecting\<close>

text \<open>
  What one attempt meets: \<open>open_connection\<close> raises; the connection breaks before the blank line of
  the response, before or after the request was written (all with an exception \<open>connect\<close> catches);
  any other exception; or a response. \<open>stopped\<close>: \<open>disconnect\<close> ran while the attempt was pending.
\<close>

datatype outcome =
    NoConnection
  | Dropped bool
  | Broken py_error
  | Replied string

record attempt =
  urandom :: bytes
  outcome :: outcome
  stopped :: bool

datatype conn_result = Connected | NotRunning | Pending | Escaped py_error

definition disconnect :: "bot \<Rightarrow> bot" where
  "disconnect b =
     b\<lparr>running := False, writer := (if writer b = Absent then Absent else Closing)\<rparr>"

text \<open>\<open>min(x, 10.0)\<close>: Python keeps the first argument unless the second is smaller.\<close>

definition cap_backoff :: "pyfloat \<Rightarrow> pyfloat" where
  "cap_backoff x = (if flt (Fin 10) x then Fin 10 else x)"

definition connection_failed :: "pyfloat \<Rightarrow> bool \<Rightarrow> bot \<Rightarrow> bot" where
  "connection_failed backoff stop b =
     (let b = b\<lparr>connection_drops := connection_drops b + 1, log_sleeps := log_sleeps b @ [backoff]\<rparr>
      in if stop then disconnect b else b)"

definition opened :: "bot \<Rightarrow> bot" where
  "opened b = b\<lparr>reader := True, writer := Open\<rparr>"

definition send_request :: "string \<Rightarrow> bot \<Rightarrow> bot" where
  "send_request key b =
     (opened b)\<lparr>log_requests := log_requests b @ [handshake_request (host b) (port b) key]\<rparr>"

fun connect_loop :: "pyfloat \<Rightarrow> attempt list \<Rightarrow> bot \<Rightarrow> bot \<times> attempt list \<times> conn_result" where
  "connect_loop backoff [] b = (b, [], if running b then Pending else NotRunning)"
| "connect_loop backoff (a # rest) b =
     (if \<not> running b then (b, a # rest, NotRunning)
      else
        (let key = base64 (urandom a);
             retry = (\<lambda>b. connect_loop (cap_backoff (fmul backoff (Fin 2))) rest
                            (connection_failed backoff (stopped a) b))
         in case outcome a of
              NoConnection \<Rightarrow> retry b
            | Dropped sent \<Rightarrow> retry (if sent then send_request key b else opened b)
            | Broken e \<Rightarrow> (b, rest, Escaped e)
            | Replied resp \<Rightarrow>
                if handshake_ok key resp then (send_request key b, rest, Connected)
                else retry ((send_request key b)\<lparr>writer := Closing\<rparr>)))"

definition connect :: "attempt list \<Rightarrow> bot \<Rightarrow> bot \<times> attempt list \<times> conn_result" where
  "connect atts b = connect_loop (Fin 1) atts b"

section \<open>Orders and frames\<close>

definition generate_order_id :: "bot \<Rightarrow> int \<times> bot" where
  "generate_order_id b =
     (let n = order_id_counter b + 1 in (n, b\<lparr>order_id_counter := n\<rparr>))"

definition side_code :: "char \<Rightarrow> int" where
  "side_code side = (if side = CHR ''B'' then 1 else 2)"

definition format_order :: "char \<Rightarrow> int \<Rightarrow> pyfloat \<Rightarrow> int \<Rightarrow> bot \<Rightarrow> bytes result \<times> bot" where
  "format_order side qty price time_ns b =
     (let code = side_code side; (oid, b) = generate_order_id b
      in (pack ORDER_FORMAT [SInt oid, SInt time_ns, SFloat price, SInt qty, SInt code], b))"

definition mask_bytes :: "bytes \<Rightarrow> bytes \<Rightarrow> bytes" where
  "mask_bytes msk payload = map (\<lambda>i. payload ! i XOR msk ! (i mod 4)) [0..<length payload]"

text \<open>\<open>to_bytes\<close> raises OverflowError when the length does not fit.\<close>

definition int_to_bytes_big :: "nat \<Rightarrow> nat \<Rightarrow> bytes result" where
  "int_to_bytes_big k n = (if n < 256 ^ k then Inr (be_bytes k (int n)) else Inl OverflowError)"

definition websocket_binary_frame :: "bytes \<Rightarrow> bytes \<Rightarrow> bytes result" where
  "websocket_binary_frame msk payload =
     (let n = length payload;
          header = (if n < 126 then Inr [0x82, word_of_nat (128 + n)]
                    else if n \<le> 65535 then rbind (int_to_bytes_big 2 n) (\<lambda>l. Inr ([0x82, 0xFE] @ l))
                    else rbind (int_to_bytes_big 8 n) (\<lambda>l. Inr ([0x82, 0xFF] @ l)))
      in rbind header (\<lambda>h. Inr (h @ msk @ mask_bytes msk payload)))"

section \<open>Reading and sending\<close>

datatype read_event =
    Data bytes
  | ReadError
  | Disconnected

definition read_exit :: "bot \<Rightarrow> bot" where
  "read_exit b =
     (if running b
      then b\<lparr>connection_drops := connection_drops b + 1,
             writer := (if writer b = Absent then Absent else Closing)\<rparr>
      else b)"

fun read_loop :: "read_event list \<Rightarrow> bot \<Rightarrow> bot" where
  "read_loop [] b = (if running b \<and> reader b then b else read_exit b)"
| "read_loop (r # rs) b =
     (if \<not> (running b \<and> reader b) then read_exit b
      else case r of
             Data bs \<Rightarrow> if bs = [] then read_exit b else read_loop rs b
           | ReadError \<Rightarrow> read_exit b
           | Disconnected \<Rightarrow> read_loop rs (disconnect b))"

datatype send_result = Sent | Failed | Skipped | Waiting | SendEscaped py_error

text \<open>
  \<open>send_order\<close>: \<open>atts\<close> are the attempts a reconnection would meet, \<open>ok\<close> whether write and drain
  go through, \<open>msk\<close> the four random bytes of the frame.
\<close>

definition write_frame :: "bool \<Rightarrow> bytes \<Rightarrow> bytes \<Rightarrow> bot \<Rightarrow> bot \<times> send_result" where
  "write_frame ok msk order b =
     (case websocket_binary_frame msk order of
        Inr frame \<Rightarrow>
          if ok then (b\<lparr>orders_sent := orders_sent b + 1, log_frames := log_frames b @ [frame]\<rparr>, Sent)
          else (b\<lparr>failed_messages := failed_messages b + 1, writer := Closing\<rparr>, Failed)
      | Inl e \<Rightarrow> (b\<lparr>failed_messages := failed_messages b + 1, writer := Closing\<rparr>, Failed))"

definition send_order :: "attempt list \<Rightarrow> bool \<Rightarrow> bytes \<Rightarrow> bytes \<Rightarrow> bot \<Rightarrow> bot \<times> attempt list \<times> send_result" where
  "send_order atts ok msk order b =
     (if writer b = Open then (let (b, r) = write_frame ok msk order b in (b, atts, r))
      else case connect atts b of
             (b, atts, Connected) \<Rightarrow> (let (b, r) = write_frame ok msk order b in (b, atts, r))
           | (b, atts, Escaped e) \<Rightarrow> (b, atts, SendEscaped e)
           | (b, atts, NotRunning) \<Rightarrow> (b, atts, Skipped)
           | (b, atts, Pending) \<Rightarrow> (b, atts, Waiting))"

section \<open>Backoff\<close>

definition backoff_delay :: "nat \<Rightarrow> rat" where
  "backoff_delay k = min (2 ^ k) 10"

lemma doubled:
  "cap_backoff (fmul (Fin 1) (Fin 2)) = Fin 2" "cap_backoff (fmul (Fin 2) (Fin 2)) = Fin 4"
  "cap_backoff (fmul (Fin 4) (Fin 2)) = Fin 8" "cap_backoff (fmul (Fin 8) (Fin 2)) = Fin 10"
  "cap_backoff (fmul (Fin 10) (Fin 2)) = Fin 10"
  by (simp_all add: cap_backoff_def float_eval)

lemma backoff_delay_values:
  "backoff_delay 0 = 1" "backoff_delay 1 = 2" "backoff_delay 2 = 4" "backoff_delay 3 = 8"
  "4 \<le> k \<Longrightarrow> backoff_delay k = 10"
proof -
  show "backoff_delay k = 10" if "4 \<le> k"
  proof -
    have "(2 :: rat) ^ 4 \<le> 2 ^ k" using that by (intro power_increasing) auto
    then show ?thesis by (simp add: backoff_delay_def)
  qed
qed (simp_all add: backoff_delay_def)

lemma backoff_delay_step: "cap_backoff (fmul (Fin (backoff_delay k)) (Fin 2)) = Fin (backoff_delay (Suc k))"
proof -
  consider "k = 0" | "k = 1" | "k = 2" | "k = 3" | "4 \<le> k" by linarith
  then show ?thesis
  proof cases
    case 2
    have "Suc 1 = 2" by simp
    with 2 show ?thesis by (simp only: backoff_delay_values doubled)
  next
    case 3
    have "Suc 2 = 3" by simp
    with 3 show ?thesis by (simp only: backoff_delay_values doubled)
  qed (simp_all add: backoff_delay_values doubled numeral_2_eq_2 [symmetric] del: fmul.simps
      flip: One_nat_def)
qed

text \<open>An attempt that sends \<open>connect\<close> back to sleep with the bot still running.\<close>

definition attempt_fails :: "attempt \<Rightarrow> bool" where
  "attempt_fails a \<longleftrightarrow>
     \<not> stopped a \<and>
     (case outcome a of
        NoConnection \<Rightarrow> True
      | Dropped _ \<Rightarrow> True
      | Broken _ \<Rightarrow> False
      | Replied resp \<Rightarrow> \<not> handshake_ok (base64 (urandom a)) resp)"

lemma log_simps [simp]:
  "connection_drops (send_request key b) = connection_drops b" "log_sleeps (send_request key b) = log_sleeps b"
  "running (send_request key b) = running b" "orders_sent (send_request key b) = orders_sent b"
  "log_frames (send_request key b) = log_frames b" "order_id_counter (send_request key b) = order_id_counter b"
  "failed_messages (send_request key b) = failed_messages b" "bot_id (send_request key b) = bot_id b"
  "connection_drops (opened b) = connection_drops b" "log_sleeps (opened b) = log_sleeps b"
  "running (opened b) = running b" "orders_sent (opened b) = orders_sent b"
  "log_frames (opened b) = log_frames b" "order_id_counter (opened b) = order_id_counter b"
  "failed_messages (opened b) = failed_messages b" "bot_id (opened b) = bot_id b"
  by (simp_all add: send_request_def opened_def)

lemma connection_failed_simps [simp]:
  "connection_drops (connection_failed t s b) = connection_drops b + 1"
  "log_sleeps (connection_failed t s b) = log_sleeps b @ [t]"
  "running (connection_failed t s b) = (running b \<and> \<not> s)"
  "orders_sent (connection_failed t s b) = orders_sent b" "log_frames (connection_failed t s b) = log_frames b"
  "order_id_counter (connection_failed t s b) = order_id_counter b"
  "failed_messages (connection_failed t s b) = failed_messages b" "bot_id (connection_failed t s b) = bot_id b"
  by (simp_all add: connection_failed_def disconnect_def Let_def)

lemma connect_loop_retry:
  assumes "running b" "attempt_fails a"
  shows "\<exists>b'. connect_loop t (a # rest) b =
      connect_loop (cap_backoff (fmul t (Fin 2))) rest (connection_failed t False b') \<and>
      running b' \<and> connection_drops b' = connection_drops b \<and> log_sleeps b' = log_sleeps b"
proof (cases "outcome a")
  case (Dropped sent)
  then show ?thesis using assms
    by (intro exI [of _ "if sent then send_request (base64 (urandom a)) b else opened b"])
      (simp add: attempt_fails_def Let_def)
next
  case (Replied resp)
  then show ?thesis using assms
    by (intro exI [of _ "(send_request (base64 (urandom a)) b)\<lparr>writer := Closing\<rparr>"])
      (simp add: attempt_fails_def Let_def)
qed (use assms in \<open>auto simp: attempt_fails_def Let_def\<close>)

lemma connect_loop_fails:
  assumes "running b" "attempt_fails a"
  shows "\<exists>b'. connect_loop (Fin (backoff_delay k)) (a # rest) b =
      connect_loop (Fin (backoff_delay (Suc k))) rest b' \<and> running b' \<and>
      connection_drops b' = connection_drops b + 1 \<and>
      log_sleeps b' = log_sleeps b @ [Fin (backoff_delay k)]"
proof -
  from connect_loop_retry [OF assms, of "Fin (backoff_delay k)" rest] obtain b' where
    "connect_loop (Fin (backoff_delay k)) (a # rest) b = connect_loop (Fin (backoff_delay (Suc k))) rest
       (connection_failed (Fin (backoff_delay k)) False b')"
    "running b'" "connection_drops b' = connection_drops b" "log_sleeps b' = log_sleeps b"
    by (auto simp only: backoff_delay_step)
  then show ?thesis
    by (intro exI [of _ "connection_failed (Fin (backoff_delay k)) False b'"])
      (simp del: connect_loop.simps)
qed

lemma connect_loop_backoff:
  "running b \<Longrightarrow> list_all attempt_fails atts \<Longrightarrow>
     \<exists>b'. connect_loop (Fin (backoff_delay k)) (atts @ more_atts) b =
        connect_loop (Fin (backoff_delay (k + length atts))) more_atts b' \<and> running b' \<and>
        connection_drops b' = connection_drops b + int (length atts) \<and>
        log_sleeps b' = log_sleeps b @ map (\<lambda>i. Fin (backoff_delay i)) [k..<k + length atts]"
proof (induction atts arbitrary: b k)
  case Nil
  then show ?case by auto
next
  case (Cons a atts)
  obtain b' where b': "connect_loop (Fin (backoff_delay k)) (a # atts @ more_atts) b =
      connect_loop (Fin (backoff_delay (Suc k))) (atts @ more_atts) b'" "running b'"
    "connection_drops b' = connection_drops b + 1"
    "log_sleeps b' = log_sleeps b @ [Fin (backoff_delay k)]"
    using connect_loop_fails [of b a k "atts @ more_atts"] Cons.prems by auto
  from Cons.IH [OF b'(2), of "Suc k"] Cons.prems(2) b' show ?case
    by (auto simp del: upt_Suc simp add: upt_conv_Cons [of k])
qed

text \<open>
  Reconnection backs off exponentially and is capped: after \<open>n\<close> failed attempts in a row,
  whatever their kind, the bot is still running and still connecting, has counted \<open>n\<close> drops and has
  slept 1, 2, 4, 8, 10, 10, ... seconds, exactly; a reply that proves the upgrade then connects it.
\<close>

lemma backoff_schedule:
  assumes "running b" "list_all attempt_fails atts"
    and "outcome a = Replied resp" "handshake_ok (base64 (urandom a)) resp"
  shows "\<exists>b'. connect (atts @ [a]) b = (b', [], Connected) \<and>
           connection_drops b' = connection_drops b + int (length atts) \<and>
           log_sleeps b' = log_sleeps b @ map (\<lambda>i. Fin (min (2 ^ i) 10)) [0..<length atts]"
proof -
  have "Fin (backoff_delay 0) = Fin 1" by (simp add: backoff_delay_def)
  with connect_loop_backoff [OF assms(1,2), of 0 "[a]"] assms(3,4) show ?thesis
    by (auto simp: connect_def Let_def) (simp_all add: backoff_delay_def)
qed

definition sample_bot :: bot where
  "sample_bot = (new_bot 7 ''engine'' 8080)\<lparr>running := True\<rparr>"

definition refused :: attempt where
  "refused = \<lparr>urandom = replicate 16 1, outcome = NoConnection, stopped = False\<rparr>"

definition answered :: attempt where
  "answered = \<lparr>urandom = replicate 16 7, outcome = Replied (upgrade_response (base64 (replicate 16 7))),
     stopped = False\<rparr>"

section \<open>Order ids\<close>

fun issue :: "nat \<Rightarrow> bot \<Rightarrow> int list \<times> bot" where
  "issue 0 b = ([], b)"
| "issue (Suc n) b =
     (let (oid, b) = generate_order_id b; (oids, b) = issue n b in (oid # oids, b))"

lemma issue_ids:
  "fst (issue n b) = map (\<lambda>i. order_id_counter b + 1 + int i) [0..<n]"
proof (induction n arbitrary: b)
  case (Suc n)
  have "[0..<Suc n] = 0 # map Suc [0..<n]" by (simp add: upt_conv_Cons map_Suc_upt del: upt_Suc)
  with Suc show ?case
    by (simp add: generate_order_id_def split_beta Let_def comp_def algebra_simps del: upt_Suc)
qed simp

lemma issued_range:
  "x \<in> set (fst (issue n (new_bot i h p))) \<longleftrightarrow> i * 1000000 < x \<and> x \<le> i * 1000000 + int n"
proof -
  have "set (fst (issue n (new_bot i h p))) = (\<lambda>k. i * 1000000 + 1 + int k) ` {0..<n}"
    by (simp add: issue_ids new_bot_def)
  also have "x \<in> \<dots> \<longleftrightarrow> i * 1000000 < x \<and> x \<le> i * 1000000 + int n"
    by (auto intro: image_eqI [of _ _ "nat (x - i * 1000000 - 1)"])
  finally show ?thesis .
qed

lemma disjoint_ids:
  assumes "i \<noteq> j" "m \<le> 1000000" "n \<le> 1000000"
  shows "set (fst (issue m (new_bot i h p))) \<inter> set (fst (issue n (new_bot j h' p'))) = {}"
proof -
  have "i < j \<or> j < i" using assms(1) by linarith
  then show ?thesis using assms(2,3) by (auto simp: issued_range)
qed

lemma distinct_ids: "distinct (fst (issue m b))"
  by (simp add: issue_ids distinct_map inj_on_def)

text \<open>The bound is sharp: the next order of bot \<open>i\<close> takes the id of the first order of bot \<open>i + 1\<close>.\<close>

lemma order_ids_collide:
  "i * 1000000 + 1000001 \<in> set (fst (issue 1000001 (new_bot i h p))) \<inter> set (fst (issue 1 (new_bot (i + 1) h p)))"
  by (simp only: Int_iff issued_range) simp

section \<open>The order on the wire\<close>

lemma ORDER_FORMAT_size [simp]: "calcsize ORDER_FORMAT = 32"
  by (simp add: ORDER_FORMAT_def)

definition order_svals :: "int \<Rightarrow> int \<Rightarrow> pyfloat \<Rightarrow> int \<Rightarrow> int \<Rightarrow> sval list" where
  "order_svals oid ts p q side = [SInt oid, SInt ts, SFloat p, SInt q, SInt side]"

lemma format_order_bytes:
  assumes "0 \<le> order_id_counter b" "order_id_counter b + 1 < 2 ^ 64" "0 \<le> ts" "ts < 2 ^ 64"
    and "float_ok price" "0 \<le> qty" "qty < 2 ^ 32"
  shows "\<exists>bs. format_order side qty price ts b = (Inr bs, b\<lparr>order_id_counter := order_id_counter b + 1\<rparr>) \<and>
      length bs = 32 \<and>
      (\<forall>rest. unpack ORDER_FORMAT (bs @ rest) =
         order_svals (order_id_counter b + 1) ts price qty (side_code side))"
proof -
  let ?v = "order_svals (order_id_counter b + 1) ts price qty (side_code side)"
  have "fits ORDER_FORMAT ?v"
    using assms by (simp add: ORDER_FORMAT_def order_svals_def side_code_def)
  from pack_roundtrip [OF this] show ?thesis
    by (auto simp: format_order_def generate_order_id_def order_svals_def Let_def)
qed

section \<open>Reachable bots\<close>

inductive bot_step :: "bot \<Rightarrow> bot \<Rightarrow> bool" where
  start: "bot_step b (b\<lparr>running := True\<rparr>)"
| connecting: "connect atts b = (b', rest, r) \<Longrightarrow> bot_step b b'"
| formatting: "format_order side qty price ts b = (r, b') \<Longrightarrow> bot_step b b'"
| sending: "send_order atts ok msk order b = (b', rest, r) \<Longrightarrow> bot_step b b'"
| reading: "bot_step b (read_loop rs b)"
| stopping: "bot_step b (disconnect b)"

inductive reachable_bot :: "bot \<Rightarrow> bot \<Rightarrow> bool" for b0 where
  initial: "reachable_bot b0 b0"
| step: "reachable_bot b0 b \<Longrightarrow> bot_step b b' \<Longrightarrow> reachable_bot b0 b'"

text \<open>The accounting of a bot: what its counters say about what it did.\<close>

definition accounts :: "bot \<Rightarrow> bool" where
  "accounts b \<longleftrightarrow>
     orders_sent b = int (length (log_frames b)) \<and> 0 \<le> failed_messages b \<and>
     int (length (log_sleeps b)) \<le> connection_drops b \<and> bot_id b * 1000000 \<le> order_id_counter b \<and>
     list_all (\<lambda>t. fle (Fin 1) t \<and> fle t (Fin 10)) (log_sleeps b)"

definition delay_ok :: "pyfloat \<Rightarrow> bool" where
  "delay_ok t \<longleftrightarrow> fle (Fin 1) t \<and> fle t (Fin 10)"

lemma to_f64_1 [simp]: "to_f64 1 = Fin 1"
  using to_f64_of_int [of 1] by simp

lemma delay_ok_next: "delay_ok t \<Longrightarrow> delay_ok (cap_backoff (fmul t (Fin 2)))"
proof (cases t)
  case (Fin x)
  assume "delay_ok t"
  with Fin have "1 \<le> x * 2" by (simp add: delay_ok_def)
  from to_f64_mono [OF this] have "fle (Fin 1) (to_f64 (x * 2))" by simp
  with Fin not_flt_iff [of "Fin 10" "to_f64 (x * 2)"] show ?thesis
    by (simp add: delay_ok_def cap_backoff_def)
qed (simp_all add: delay_ok_def)

lemma accounts_failed:
  "accounts b \<Longrightarrow> delay_ok t \<Longrightarrow> accounts (connection_failed t s b)"
  by (simp add: accounts_def delay_ok_def)

lemma accounts_quiet [simp]:
  "accounts (b\<lparr>writer := w\<rparr>) = accounts b" "accounts (b\<lparr>running := r\<rparr>) = accounts b"
  "accounts (send_request key b) = accounts b" "accounts (opened b) = accounts b"
  "accounts (disconnect b) = accounts b"
  by (simp_all add: accounts_def disconnect_def)

lemma accounts_connect_loop:
  "accounts b \<Longrightarrow> delay_ok t \<Longrightarrow> accounts (fst (connect_loop t atts b))"
proof (induction t atts b rule: connect_loop.induct)
  case (1 t b)
  then show ?case by simp
next
  case (2 t a rest b)
  show ?case
  proof (cases "running b")
    case True
    with 2 have "accounts (fst (connect_loop (cap_backoff (fmul t (Fin 2))) rest (connection_failed t (stopped a) b')))"
      if "accounts b'" for b'
      using that by (auto intro: accounts_failed delay_ok_next)
    with True 2(2) show ?thesis by (auto simp: Let_def split: outcome.splits)
  next
    case False
    with 2(2) show ?thesis by simp
  qed
qed

lemma accounts_connect: "accounts b \<Longrightarrow> accounts (fst (connect atts b))"
proof -
  have "delay_ok (Fin 1)" by (simp add: delay_ok_def)
  then show "accounts b \<Longrightarrow> accounts (fst (connect atts b))"
    by (simp add: connect_def accounts_connect_loop)
qed

lemma accounts_format_order: "accounts b \<Longrightarrow> accounts (snd (format_order side qty price ts b))"
  by (simp add: format_order_def generate_order_id_def accounts_def Let_def)

lemma accounts_write_frame: "accounts b \<Longrightarrow> accounts (fst (write_frame ok msk order b))"
  by (auto simp: write_frame_def accounts_def split: sum.splits)

lemma accounts_send_order: "accounts b \<Longrightarrow> accounts (fst (send_order atts ok msk order b))"
  using accounts_connect [of b atts]
  by (auto simp: send_order_def split_beta Let_def accounts_write_frame split: prod.splits conn_result.splits)

lemma accounts_read_loop: "accounts b \<Longrightarrow> accounts (read_loop rs b)"
proof (induction rs arbitrary: b)
  case Nil
  then show ?case by (simp add: read_exit_def accounts_def)
next
  case (Cons r rs)
  have "accounts (read_exit b)" using Cons.prems by (simp add: read_exit_def accounts_def)
  with Cons show ?case by (auto split: read_event.splits)
qed

lemma accounts_step: "bot_step b b' \<Longrightarrow> accounts b \<Longrightarrow> accounts b'"
proof (induction rule: bot_step.induct)
  case (connecting atts b b' rest r)
  then show ?case using accounts_connect [of b atts] by simp
next
  case (formatting side qty price ts b r b')
  then show ?case using accounts_format_order [of b side qty price ts] by simp
next
  case (sending atts ok msk order b b' rest r)
  then show ?case using accounts_send_order [of b atts ok msk order] by simp
qed (simp_all add: accounts_read_loop)



end
