(* ===== verification/Sdk.thy ===== *)
theory Sdk
  imports Bots PyJson
begin

text \<open>
  The contestant harness: \<open>ExchangeConnection\<close> and the tick loop of \<^verbatim>\<open>sample_bot/sandbox_sdk.py\<close>
  and the stock strategy \<open>on_market_update\<close> of \<^verbatim>\<open>sample_bot/solution.py\<close>. The websocket is an
  external library: the payloads handed to its \<open>send\<close> are logged in order.
\<close>

record exchange =
  order_sequence :: int
  submitted :: "bytes list"

definition submit_order :: "string \<Rightarrow> pynum \<Rightarrow> int \<Rightarrow> int \<Rightarrow> exchange \<Rightarrow> exchange \<times> unit result" where
  "submit_order direction price quantity time_ns x =
     (let n = order_sequence x + 1; x = x\<lparr>order_sequence := n\<rparr>;
          code = (if direction = ''BUY'' then 1 else 2)
      in case rbind (num_float price) (\<lambda>p.
                pack ORDER_FORMAT [SInt n, SInt time_ns, SFloat p, SInt quantity, SInt code]) of
           Inl e \<Rightarrow> (x, Inl e)
         | Inr payload \<Rightarrow> (x\<lparr>submitted := submitted x @ [payload]\<rparr>, Inr ()))"

text \<open>The strategy buys one unit a dollar above the market when the market is below 152.\<close>

definition on_market_update :: "dict \<Rightarrow> int \<Rightarrow> exchange \<Rightarrow> exchange \<times> unit result" where
  "on_market_update snapshot time_ns x =
     (case dict_get snapshot ''price'' (JInt 100) of
        JNum current_price \<Rightarrow>
          if num_lt current_price (PyI 152)
          then case num_add current_price (PyI 1) of
                 Inl e \<Rightarrow> (x, Inl e)
               | Inr target \<Rightarrow> submit_order ''BUY'' target 1 time_ns x
          else (x, Inr ())
      | _ \<Rightarrow> (x, Inl TypeError))"

definition market_tick :: "int \<Rightarrow> dict" where
  "market_tick price = [(''symbol'', JStr ''BTCUSD''), (''price'', JInt price)]"

text \<open>The harness loop: one tick a second, the price drawn by \<open>randint(148, 155)\<close>.\<close>

fun run_harness :: "(int \<times> int) list \<Rightarrow> exchange \<Rightarrow> exchange \<times> unit result" where
  "run_harness [] x = (x, Inr ())"
| "run_harness ((price, time_ns) # ticks) x =
     (case on_market_update (market_tick price) time_ns x of
        (x, Inl e) \<Rightarrow> (x, Inl e)
      | (x, Inr _) \<Rightarrow> run_harness ticks x)"

text \<open>
  \<open>run_sandbox_harness\<close>: \<open>connects\<close> is how the library's connect ends for an address, \<open>drawn\<close> the
  sequence number \<open>randint(10000, 99999)\<close> starts the connection with, \<open>ticks\<close> the ticks until the
  process is stopped. It prints two lines.
\<close>

definition env_get :: "(string \<Rightarrow> string option) \<Rightarrow> string \<Rightarrow> string \<Rightarrow> string" where
  "env_get env k dflt = (case env k of None \<Rightarrow> dflt | Some v \<Rightarrow> v)"

definition GATEWAY_URL :: "(string \<Rightarrow> string option) \<Rightarrow> string" where
  "GATEWAY_URL env = env_get env ''EXCHANGE_GATEWAY_URL'' ''ws://localhost:8080''"

definition CONTESTANT_ID :: "(string \<Rightarrow> string option) \<Rightarrow> string" where
  "CONTESTANT_ID env = env_get env ''CONTESTANT_ID'' ''anonymous_quant_bot''"

definition new_exchange :: "int \<Rightarrow> exchange" where
  "new_exchange drawn = \<lparr>order_sequence = drawn, submitted = []\<rparr>"

definition run_sandbox_harness :: "(string \<Rightarrow> string option) \<Rightarrow> (string \<Rightarrow> py_error option) \<Rightarrow> int \<Rightarrow>
    (int \<times> int) list \<Rightarrow> string list \<times> exchange option \<times> unit result" where
  "run_sandbox_harness env connects drawn ticks =
     (let connecting = ''[SDK] Connecting to '' @ GATEWAY_URL env @ '' as '' @ CONTESTANT_ID env @ ''...''
      in case connects (GATEWAY_URL env) of
           Some e \<Rightarrow> ([connecting], None, Inl e)
         | None \<Rightarrow>
             (let (x, r) = run_harness ticks (new_exchange drawn)
              in ([connecting, ''[SDK] Connected to exchange. Starting evaluation loop...''], Some x, r)))"

section \<open>What the stock bot sends\<close>

definition tick_ok :: "int \<times> int \<Rightarrow> bool" where
  "tick_ok t \<longleftrightarrow> 148 \<le> fst t \<and> fst t \<le> 155 \<and> 0 \<le> snd t \<and> snd t < 2 ^ 64"

lemma submit_buy:
  assumes "0 \<le> order_sequence x" "order_sequence x + 1 < 2 ^ 64" "0 \<le> ts" "ts < 2 ^ 64" "\<bar>p\<bar> \<le> 2 ^ 53"
    and "0 \<le> q" "q < 2 ^ 32"
  shows "\<exists>bs. submit_order ''BUY'' (PyI p) q ts x =
      (x\<lparr>order_sequence := order_sequence x + 1, submitted := submitted x @ [bs]\<rparr>, Inr ()) \<and>
      length bs = 32 \<and> unpack ORDER_FORMAT bs = order_svals (order_sequence x + 1) ts (Fin (of_int p)) q 1"
proof -
  let ?v = "order_svals (order_sequence x + 1) ts (Fin (of_int p)) q 1"
  have "fits ORDER_FORMAT ?v"
    using assms float_ok_of_int [OF assms(5)] by (simp add: ORDER_FORMAT_def order_svals_def)
  from pack_roundtrip [OF this] obtain bs where bs: "pack ORDER_FORMAT ?v = Inr bs" "length bs = 32"
    "\<forall>rest. unpack ORDER_FORMAT (bs @ rest) = ?v" by auto
  then have "unpack ORDER_FORMAT bs = ?v" by (metis append_Nil2)
  with bs show ?thesis
    by (intro exI [of _ bs])
      (simp add: submit_order_def num_float_small [OF assms(5)] order_svals_def Let_def del: num_float.simps)
qed

text \<open>The orders the ticks call for, as the values on the wire, numbered from \<open>n + 1\<close>.\<close>

fun called_for :: "int \<Rightarrow> (int \<times> int) list \<Rightarrow> sval list list" where
  "called_for n [] = []"
| "called_for n ((p, ts) # ticks) =
     (if p < 152 then order_svals (n + 1) ts (Fin (of_int (p + 1))) 1 1 # called_for (n + 1) ticks
      else called_for n ticks)"

lemma tick_price: "num_lt (PyI p) (PyI 152) \<longleftrightarrow> p < 152" "dict_get (market_tick p) ''price'' d = JInt p"
  by (simp_all add: num_lt_def dict_get_def market_tick_def)

lemma harness_run:
  assumes "list_all tick_ok ticks" "0 \<le> order_sequence x"
    and "order_sequence x + int (length ticks) < 2 ^ 64"
  shows "\<exists>x' new. run_harness ticks x = (x', Inr ()) \<and> submitted x' = submitted x @ new \<and>
           map (unpack ORDER_FORMAT) new = called_for (order_sequence x) ticks \<and>
           list_all (\<lambda>bs. length bs = 32) new"
  using assms
proof (induction ticks arbitrary: x)
  case Nil
  then show ?case by simp
next
  case (Cons t ticks)
  obtain p ts where t: "t = (p, ts)" by (cases t)
  note upd = on_market_update_def tick_price JInt_def
  show ?case
  proof (cases "p < 152")
    case False
    with Cons.IH [of x] Cons.prems t show ?thesis by (simp add: upd)
  next
    case True
    let ?x = "x\<lparr>order_sequence := order_sequence x + 1\<rparr>"
    have lim: "order_sequence x + 1 < 2 ^ 64" "0 \<le> ts" "ts < 2 ^ 64" "\<bar>p + 1\<bar> \<le> 2 ^ 53"
      using Cons.prems t by (simp_all add: tick_ok_def)
    obtain bs where bs: "submit_order ''BUY'' (PyI (p + 1)) 1 ts x =
        (x\<lparr>order_sequence := order_sequence x + 1, submitted := submitted x @ [bs]\<rparr>, Inr ())"
      "length bs = 32" "unpack ORDER_FORMAT bs = order_svals (order_sequence x + 1) ts (Fin (of_int (p + 1))) 1 1"
      using submit_buy [OF Cons.prems(2) lim, of 1] by auto
    then have step: "on_market_update (market_tick p) ts x =
        (x\<lparr>order_sequence := order_sequence x + 1, submitted := submitted x @ [bs]\<rparr>, Inr ())"
      using True by (simp add: upd)
    from Cons.IH [of "x\<lparr>order_sequence := order_sequence x + 1, submitted := submitted x @ [bs]\<rparr>"]
      Cons.prems step bs(2,3) True t show ?thesis by (auto simp del: unpack.simps)
  qed
qed

text \<open>
  C24. The stock contestant sends exactly the orders its strategy calls for. Once connected to the
  gateway its environment names, over any sequence of ticks the harness can draw, it raises nothing,
  and the 32-byte payloads it submits are, in order, one buy of one unit at a dollar above the tick for
  each tick below 152 and none for the others, numbered consecutively after the number drawn at the
  start.
\<close>

theorem harness_orders:
  assumes "connects (GATEWAY_URL env) = None" "list_all tick_ok ticks" "10000 \<le> drawn" "drawn \<le> 99999"
    and "length ticks < 2 ^ 63"
  shows "\<exists>out x. run_sandbox_harness env connects drawn ticks = (out, Some x, Inr ()) \<and>
           map (unpack ORDER_FORMAT) (submitted x) = called_for drawn ticks \<and>
           list_all (\<lambda>bs. length bs = 32) (submitted x)"
proof -
  have "int (length ticks) < 2 ^ 63" using assms(5) by simp
  then have "0 \<le> order_sequence (new_exchange drawn)"
    "order_sequence (new_exchange drawn) + int (length ticks) < 2 ^ 64"
    using assms(3,4) by (simp_all add: new_exchange_def)
  from harness_run [OF assms(2) this] assms(1) show ?thesis
    by (auto simp: run_sandbox_harness_def new_exchange_def simp del: unpack.simps)
qed

theorem harness_orders_witness:
  "\<exists>out x. run_sandbox_harness (\<lambda>k. None) (\<lambda>url. None) 10000 [(150, 5), (152, 6), (148, 7)] = (out, Some x, Inr ()) \<and>
     map (unpack ORDER_FORMAT) (submitted x) = [order_svals 10001 5 (Fin 151) 1 1, order_svals 10002 7 (Fin 149) 1 1]"
  using harness_orders [of "\<lambda>url. None" "\<lambda>k. None" "[(150, 5), (152, 6), (148, 7)]" 10000]
  by (auto simp: tick_ok_def simp del: run_harness.simps unpack.simps)

end
