(* ===== verification/PyText.thy ===== *)
theory PyText
  imports PyStr "HOL-Library.Char_ord" "HOL-Library.List_Lexorder"
begin

text \<open>
  The string methods the benchmark and the orchestrator read their inputs with: \<open>find\<close>, \<open>split\<close> at
  the first separator, \<open>replace\<close>, \<open>strip\<close>, \<open>splitlines\<close>, and the conversions \<open>int(s)\<close> and
  \<open>float(s)\<close>. A string is compared code point by code point.
\<close>

section \<open>Searching and splitting\<close>

fun find_sub :: "string \<Rightarrow> string \<Rightarrow> nat option" where
  "find_sub p [] = (if p = [] then Some 0 else None)"
| "find_sub p (c # cs) =
     (if starts_with p (c # cs) then Some 0 else map_option Suc (find_sub p cs))"

text \<open>\<open>s.split(p, 1)[0]\<close> and \<open>s.split(p, 1)[1]\<close>; the latter raises when \<open>p\<close> does not occur.\<close>

definition before :: "string \<Rightarrow> string \<Rightarrow> string" where
  "before p s = (case find_sub p s of Some i \<Rightarrow> take i s | None \<Rightarrow> s)"

definition after :: "string \<Rightarrow> string \<Rightarrow> string result" where
  "after p s = (case find_sub p s of Some i \<Rightarrow> Inr (drop (i + length p) s) | None \<Rightarrow> Inl IndexError)"

definition ends_with :: "string \<Rightarrow> string \<Rightarrow> bool" where
  "ends_with p s \<longleftrightarrow> starts_with (rev p) (rev s)"

text \<open>\<open>s.replace(p, q)\<close>, for a non-empty \<open>p\<close>; the fuel is the length of \<open>s\<close>.\<close>

fun replace_from :: "nat \<Rightarrow> string \<Rightarrow> string \<Rightarrow> string \<Rightarrow> string" where
  "replace_from 0 p q s = s"
| "replace_from (Suc n) p q s =
     (case s of
        [] \<Rightarrow> []
      | c # cs \<Rightarrow> if starts_with p s then q @ replace_from n p q (drop (length p) s)
                  else c # replace_from n p q cs)"

definition replace :: "string \<Rightarrow> string \<Rightarrow> string \<Rightarrow> string" where
  "replace p q s = replace_from (length s) p q s"

definition is_white :: "char \<Rightarrow> bool" where
  "is_white c \<longleftrightarrow> (let n = of_char c :: nat in
     9 \<le> n \<and> n \<le> 13 \<or> 28 \<le> n \<and> n \<le> 32 \<or> n = 133 \<or> n = 160)"

definition strip :: "string \<Rightarrow> string" where
  "strip s = rev (dropWhile is_white (rev (dropWhile is_white s)))"

text \<open>\<open>splitlines\<close>: a line ends at any of Python's boundaries; a carriage return takes a newline along.\<close>

definition is_boundary :: "char \<Rightarrow> bool" where
  "is_boundary c \<longleftrightarrow> (let n = of_char c :: nat in
     10 \<le> n \<and> n \<le> 13 \<or> 28 \<le> n \<and> n \<le> 30 \<or> n = 133)"

fun lines_from :: "string \<Rightarrow> string \<Rightarrow> string list" where
  "lines_from acc [] = (if acc = [] then [] else [rev acc])"
| "lines_from acc [c] = (if is_boundary c then [rev acc] else [rev (c # acc)])"
| "lines_from acc (c # d # cs) =
     (if c = CHR 0x0D \<and> d = CHR 0x0A then rev acc # lines_from [] cs
      else if is_boundary c then rev acc # lines_from [] (d # cs)
      else lines_from (c # acc) (d # cs))"

definition splitlines :: "string \<Rightarrow> string list" where
  "splitlines s = lines_from [] s"

section \<open>Numbers\<close>

text \<open>A run of digits; single underscores are allowed between digits.\<close>

fun digit_run :: "string \<Rightarrow> bool" where
  "digit_run [] \<longleftrightarrow> False"
| "digit_run [c] \<longleftrightarrow> is_digit c"
| "digit_run (c # d # cs) \<longleftrightarrow> is_digit c \<and> (if d = CHR ''_'' then digit_run cs else digit_run (d # cs))"

definition run_digits :: "string \<Rightarrow> string" where
  "run_digits s = filter is_digit s"

fun split_sign :: "string \<Rightarrow> bool \<times> string" where
  "split_sign [] = (False, [])"
| "split_sign (c # cs) =
     (if c = CHR ''-'' then (True, cs) else if c = CHR ''+'' then (False, cs) else (False, c # cs))"

definition parse_int :: "string \<Rightarrow> int result" where
  "parse_int s =
     (let (neg, t) = split_sign (strip s)
      in if digit_run t
         then let n = int (digits_val 0 (run_digits t)) in Inr (if neg then - n else n)
         else Inl ValueError)"

definition ascii_lower :: "char \<Rightarrow> char" where
  "ascii_lower c = (let n = of_char c :: nat in if 65 \<le> n \<and> n \<le> 90 then char_of (n + 32) else c)"

text \<open>Mantissa and exponent of a decimal literal, the exponent of the last digit included.\<close>

definition parse_mantissa :: "string \<Rightarrow> (nat \<times> int) option" where
  "parse_mantissa t =
     (case find_sub ''.'' t of
        None \<Rightarrow> if digit_run t then Some (digits_val 0 (run_digits t), 0) else None
      | Some i \<Rightarrow>
          (let a = take i t; b = drop (Suc i) t
           in if (digit_run a \<or> a = []) \<and> (digit_run b \<or> b = []) \<and> (a \<noteq> [] \<or> b \<noteq> [])
              then Some (digits_val 0 (run_digits (a @ b)), - int (length (run_digits b))) else None))"

definition parse_decimal :: "string \<Rightarrow> (nat \<times> int) option" where
  "parse_decimal t =
     (case find_sub ''e'' (map ascii_lower t) of
        None \<Rightarrow> parse_mantissa t
      | Some i \<Rightarrow>
          (case parse_mantissa (take i t) of
             None \<Rightarrow> None
           | Some (d, k) \<Rightarrow>
               (let (neg, u) = split_sign (drop (Suc i) t)
                in if digit_run u
                   then let e = int (digits_val 0 (run_digits u)) in Some (d, if neg then k - e else k + e)
                   else None)))"

definition parse_float :: "string \<Rightarrow> pyfloat result" where
  "parse_float s =
     (let (neg, t) = split_sign (strip s); low = map ascii_lower t
      in if low = ''inf'' \<or> low = ''infinity'' then Inr (if neg then NInf else PInf)
         else if low = ''nan'' then Inr NaN
         else case parse_decimal t of
                None \<Rightarrow> Inl ValueError
              | Some (d, k) \<Rightarrow>
                  (let x = to_f64 (of_nat d * 10 powi k) in Inr (if neg then fneg x else x)))"

section \<open>Facts\<close>

lemma find_sub_skip:
  "p \<noteq> [] \<Longrightarrow> hd p \<notin> set xs \<Longrightarrow> find_sub p (xs @ ys) = map_option ((+) (length xs)) (find_sub p ys)"
proof (induction xs)
  case Nil
  then show ?case by (simp add: option.map_ident)
next
  case (Cons x xs)
  then have "\<not> starts_with p (x # xs @ ys)" by (cases p) (auto simp: starts_with_def)
  with Cons show ?case by (simp add: option.map_comp comp_def)
qed

lemma find_sub_here: "find_sub p (p @ s) = Some 0"
  by (cases "p @ s") (auto simp: starts_with_def, metis append_eq_conv_conj)

lemma find_sub_contains: "contains p s \<longleftrightarrow> find_sub p s \<noteq> None"
  by (induction s) auto

lemma strip_trim: "\<not> is_white (hd s) \<Longrightarrow> \<not> is_white (last s) \<Longrightarrow> s \<noteq> [] \<Longrightarrow> strip s = s"
proof -
  assume a: "\<not> is_white (hd s)" "\<not> is_white (last s)" "s \<noteq> []"
  then have "dropWhile is_white s = s" by (cases s) auto
  moreover have "dropWhile is_white (rev s) = rev s" using a(2,3) by (cases s rule: rev_cases) auto
  ultimately show ?thesis by (simp add: strip_def)
qed

lemma is_digit_not_white [simp]: "is_digit c \<Longrightarrow> \<not> is_white c"
  by (auto simp: is_digit_def is_white_def Let_def)

lemma is_white_simps [simp]: "\<not> is_white CHR ''-''" "is_white CHR '' ''" "\<not> is_white CHR ''/''"
  by (simp_all add: is_white_def)

lemma strip_spaced:
  "s \<noteq> [] \<Longrightarrow> \<not> is_white (hd s) \<Longrightarrow> \<not> is_white (last s) \<Longrightarrow>
     strip (CHR '' '' # s @ CHR '' '' # []) = s \<and> strip (CHR '' '' # s) = s"
proof -
  assume a: "s \<noteq> []" "\<not> is_white (hd s)" "\<not> is_white (last s)"
  have "dropWhile is_white (s @ t) = s @ t" for t using a(1,2) by (cases s) auto
  moreover have "dropWhile is_white (rev s) = rev s" using a(1,3) by (cases s rule: rev_cases) auto
  moreover have "dropWhile is_white s = s" using a(1,2) by (cases s) auto
  ultimately show ?thesis by (simp add: strip_def)
qed

lemma digit_run_digits: "s \<noteq> [] \<Longrightarrow> list_all is_digit s \<Longrightarrow> digit_run s \<and> run_digits s = s"
  by (induction s rule: digit_run.induct) (auto simp: run_digits_def)

lemma show_nat_edges: "is_digit (hd (show_nat n))" "is_digit (last (show_nat n))"
  using show_nat_digits [of n] show_nat_nonempty [of n] by (auto simp: list_all_iff)

lemma parse_int_show_int: "parse_int (show_int n) = Inr n"
proof (cases "n < 0")
  case True
  let ?s = "show_nat (nat (- n))"
  have "strip (CHR ''-'' # ?s) = CHR ''-'' # ?s"
    by (rule strip_trim) (simp_all add: show_nat_edges)
  with True digit_run_digits [of ?s] show_nat_digits [of "nat (- n)"] show ?thesis
    by (simp add: parse_int_def show_int_def digits_val_show_nat)
next
  case False
  let ?s = "show_nat (nat n)"
  have s: "strip ?s = ?s" by (rule strip_trim) (simp_all add: show_nat_edges)
  have "split_sign ?s = (False, ?s)"
    using show_nat_edges(1) [of "nat n"] by (cases ?s) (auto simp: show_nat_nonempty)
  with False s digit_run_digits [of ?s] show_nat_digits [of "nat n"] show ?thesis
    by (simp add: parse_int_def show_int_def digits_val_show_nat)
qed

lemma strip_padded:
  assumes "list_all is_white xs" "list_all is_white ys" "s \<noteq> []" "\<not> is_white (hd s)" "\<not> is_white (last s)"
  shows "strip (xs @ s @ ys) = s"
proof -
  have l: "dropWhile is_white (as @ bs) = dropWhile is_white bs" if "list_all is_white as" for as bs
    using that by (induction as) auto
  have f: "dropWhile is_white (s @ ys) = s @ ys" using assms(3,4) by (cases s) auto
  have "dropWhile is_white (rev s) = rev s" using assms(3,5) by (cases s rule: rev_cases) auto
  with assms(1,2) f show ?thesis by (simp add: strip_def l)
qed

definition one_line :: "string \<Rightarrow> bool" where
  "one_line l \<longleftrightarrow> list_all (\<lambda>c. \<not> is_boundary c) l"

lemma one_line_append [simp]: "one_line (xs @ ys) \<longleftrightarrow> one_line xs \<and> one_line ys"
  by (simp add: one_line_def)

lemma lines_from_line:
  "one_line l \<Longrightarrow>
     lines_from acc (l @ CHR 0x0A # s) = (rev acc @ l) # lines_from [] s"
proof (induction l arbitrary: acc)
  case Nil
  then show ?case by (cases s) (auto simp: is_boundary_def)
next
  case (Cons c l)
  then have "c \<noteq> CHR 0x0D" "\<not> is_boundary c" "one_line l" by (auto simp: one_line_def is_boundary_def)
  moreover obtain d ds where "l @ CHR 0x0A # s = d # ds" by (cases "l @ CHR 0x0A # s") auto
  ultimately show ?case using Cons.IH [of "c # acc"] Cons.prems by simp
qed

lemma lines_from_last:
  "one_line l \<Longrightarrow> acc \<noteq> [] \<or> l \<noteq> [] \<Longrightarrow> lines_from acc l = [rev acc @ l]"
proof (induction l arbitrary: acc)
  case (Cons c l)
  then have "c \<noteq> CHR 0x0D" "\<not> is_boundary c" "one_line l" by (auto simp: one_line_def is_boundary_def)
  with Cons.IH [of "c # acc"] Cons.prems show ?case by (cases l) auto
qed simp

end
