(* ===== verification/FloatText.thy ===== *)
theory FloatText
  imports PyText
begin

text \<open>
  \<open>float(repr(x)) == x\<close>: the decimal text of a float reads back as the float. The shortest decimal
  exists, since 1400 digits write any double exactly, and rounds to the value by its selection; each
  of the four layouts is then read digit by digit.
\<close>

section \<open>The shortest decimal\<close>

lemma dec_candidate_sound: "dec_candidate x n = Some (d, k) \<Longrightarrow> rnd (of_int d * 10 powi k) = x"
  by (auto simp: dec_candidate_def Let_def split: if_splits)

lemma shortest_from_sound: "shortest_from fuel n x = Some (d, k) \<Longrightarrow> rnd (of_int d * 10 powi k) = x"
  by (induction fuel n x rule: shortest_from.induct) (auto dest: dec_candidate_sound split: option.splits)

lemma shortest_from_finds:
  "dec_candidate x m \<noteq> None \<Longrightarrow> n \<le> m \<Longrightarrow> m < n + fuel \<Longrightarrow> shortest_from fuel n x \<noteq> None"
proof (induction fuel arbitrary: n)
  case (Suc fuel)
  show ?case
  proof (cases "n = m")
    case True
    with Suc.prems(1) show ?thesis by auto
  next
    case False
    with Suc show ?thesis by (auto split: option.split)
  qed
qed simp

lemma length_show_nat: "m < 10 ^ Suc j \<Longrightarrow> length (show_nat m) \<le> Suc j"
proof (induction j arbitrary: m)
  case 0
  then show ?case by (subst show_nat.simps) simp
next
  case (Suc j)
  show ?case
  proof (cases "m < 10")
    case True
    then show ?thesis by (subst show_nat.simps) simp
  next
    case False
    from Suc.prems have "m div 10 < 10 ^ Suc j" by (simp add: div_less_iff_less_mult mult.commute)
    from Suc.IH [OF this] False show ?thesis by (subst show_nat.simps) simp
  qed
qed

lemma ilog10_bound: "0 < x \<Longrightarrow> x < f64_limit \<Longrightarrow> ilog10 x \<le> 319"
proof -
  assume x: "0 < x" "x < f64_limit"
  show ?thesis
  proof (cases "1 \<le> x")
    case True
    have "nat \<lfloor>x\<rfloor> < 2 ^ 1024"
    proof -
      have "of_int \<lfloor>x\<rfloor> < (of_int (2 ^ 1024) :: rat)"
        using x(2) of_int_floor_le [of x] by (simp add: f64_limit_def del: of_int_floor_le)
      then have "\<lfloor>x\<rfloor> < 2 ^ 1024" by (simp only: of_int_less_iff)
      then show ?thesis using True by (simp add: nat_less_iff)
    qed
    also have "2 ^ 1024 < (10 ^ Suc 319 :: nat)" by simp
    finally have "length (show_nat (nat \<lfloor>x\<rfloor>)) \<le> Suc 319" by (rule length_show_nat)
    with True show ?thesis by (simp add: ilog10_def)
  qed (simp add: ilog10_def)
qed

lemma exact_candidate:
  assumes "0 < x" "rnd x = x" "x < f64_limit"
  shows "dec_candidate x 1400 \<noteq> None"
proof -
  define k where "k = ilog10 x - 1399"
  have k: "k \<le> - 1074" using ilog10_bound [OF assms(1,3)] by (simp add: k_def)
  obtain m where m: "rnd_mag x = of_int m * 2 powi quantum x" using rnd_mag_form [OF assms(1)] by metis
  have q: "- 1074 \<le> quantum x" by (simp add: quantum_def)
  have "x = of_int m * 2 powi quantum x" using m assms(1,2) by (simp add: rnd_def)
  moreover have "2 powi quantum x / 10 powi k = (of_int (2 ^ nat (quantum x - k) * 5 ^ nat (- k)) :: rat)"
  proof -
    have "(10 :: rat) powi (- k) = 2 powi (- k) * 5 powi (- k)"
      by (simp flip: power_int_mult_distrib)
    then have "2 powi quantum x / (10 :: rat) powi k = 2 powi (quantum x - k) * 5 powi (- k)"
      by (simp add: power_int_minus power_int_diff field_simps)
    also have "\<dots> = 2 ^ nat (quantum x - k) * 5 ^ nat (- k)"
      using q k by (simp add: power_int_def)
    finally show ?thesis by simp
  qed
  ultimately have "x / 10 powi k = of_int (m * (2 ^ nat (quantum x - k) * 5 ^ nat (- k)))"
    by (metis times_divide_eq_right of_int_mult)
  then obtain i where i: "x / 10 powi k = of_int i" by blast
  then have "of_int i * 10 powi k = x" by (simp add: field_simps)
  with i assms(2) show ?thesis
    by (simp add: dec_candidate_def Let_def k_def)
qed

lemma shortest_dec_total:
  assumes "0 < x" "rnd x = x" "x < f64_limit"
  shows "\<exists>d k. shortest_dec x = Some (int d, k) \<and> 0 < d \<and> rnd (of_nat d * 10 powi k) = x"
proof -
  have "shortest_dec x \<noteq> None"
    unfolding shortest_dec_def by (rule shortest_from_finds [OF exact_candidate [OF assms]]) simp_all
  then obtain d k where dk: "shortest_dec x = Some (d, k)" by auto
  then have r: "rnd (of_int d * 10 powi k) = x" unfolding shortest_dec_def by (rule shortest_from_sound)
  have "0 < d"
  proof (rule ccontr)
    assume "\<not> 0 < d"
    then have "of_int d * 10 powi k \<le> (0 :: rat)" by (simp add: mult_nonpos_nonneg)
    from rnd_mono [OF this] r assms(1) show False by simp
  qed
  with dk r show ?thesis by (intro exI [of _ "nat d"]) auto
qed

lemma strip_zeros_value: "strip_zeros f d = (d', z) \<Longrightarrow> d = d' * 10 ^ z"
proof (induction f arbitrary: d d' z)
  case (Suc f)
  show ?case
  proof (cases "d \<noteq> 0 \<and> d mod 10 = 0")
    case True
    obtain e y where e: "strip_zeros f (d div 10) = (e, y)" by (cases "strip_zeros f (d div 10)")
    with True Suc.prems have "d' = e" "z = Suc y" by auto
    with Suc.IH [OF e] True show ?thesis by (metis mult.assoc mult.commute power_Suc div_mult_mod_eq add_0_right)
  qed (use Suc.prems in auto)
qed simp

lemma strip_zeros_pos: "0 < d \<Longrightarrow> strip_zeros f d = (d', z) \<Longrightarrow> 0 < d'"
  using strip_zeros_value [of f d d' z] by (cases d') auto

section \<open>Reading digits\<close>

lemma find_char: "c \<notin> set xs \<Longrightarrow> find_sub [c] (xs @ c # ys) = Some (length xs)"
  by (induction xs) (auto simp: starts_with_def)

lemma find_char_none: "c \<notin> set xs \<Longrightarrow> find_sub [c] xs = None"
  by (induction xs) (auto simp: starts_with_def)

lemma digit_not_point: "list_all is_digit xs \<Longrightarrow> CHR ''.'' \<notin> set xs"
  by (auto simp: list_all_iff)

lemma lower_digits: "list_all (\<lambda>c. is_digit c \<or> c = CHR ''.'') xs \<Longrightarrow> map ascii_lower xs = xs"
  by (induction xs) (auto simp: ascii_lower_def is_digit_def Let_def)

lemma no_exponent: "list_all (\<lambda>c. is_digit c \<or> c = CHR ''.'') xs \<Longrightarrow> CHR ''e'' \<notin> set xs"
  by (auto simp: list_all_iff is_digit_def)

lemma mantissa_plain: "list_all is_digit xs \<Longrightarrow> xs \<noteq> [] \<Longrightarrow> parse_mantissa xs = Some (digits_val 0 xs, 0)"
  by (simp add: parse_mantissa_def find_char_none digit_not_point digit_run_digits)

lemma mantissa_point:
  assumes "list_all is_digit a" "list_all is_digit b" "a \<noteq> []" "b \<noteq> []"
  shows "parse_mantissa (a @ CHR ''.'' # b) = Some (digits_val 0 (a @ b), - int (length b))"
  using assms digit_run_digits [of a] digit_run_digits [of b] digit_run_digits [of "a @ b"]
  by (simp add: parse_mantissa_def find_char digit_not_point)

lemma decimal_positional:
  "list_all (\<lambda>c. is_digit c \<or> c = CHR ''.'') t \<Longrightarrow> parse_decimal t = parse_mantissa t"
  by (simp add: parse_decimal_def lower_digits find_char_none no_exponent)

lemma exponent_digits: "\<exists>ds. show_exponent e = CHR ''e'' # (if e < 0 then CHR ''-'' else CHR ''+'') # ds \<and>
    ds \<noteq> [] \<and> list_all is_digit ds \<and> digits_val 0 ds = nat \<bar>e\<bar>"
proof -
  let ?ds = "show_nat (nat \<bar>e\<bar>)"
  have "is_digit CHR ''0''" by (simp add: is_digit_def)
  moreover have "digits_val 0 (CHR ''0'' # ?ds) = nat \<bar>e\<bar>" by (simp add: digit_val_def digits_val_show_nat)
  ultimately show ?thesis
    using show_nat_digits [of "nat \<bar>e\<bar>"] by (simp add: show_exponent_def Let_def digits_val_show_nat)
qed

lemma decimal_exponent:
  assumes m: "list_all (\<lambda>c. is_digit c \<or> c = CHR ''.'') m" and p: "parse_mantissa m = Some (d, k)"
  shows "parse_decimal (m @ show_exponent e) = Some (d, k + e)"
proof -
  obtain ds where ds: "show_exponent e = CHR ''e'' # (if e < 0 then CHR ''-'' else CHR ''+'') # ds"
    "ds \<noteq> []" "list_all is_digit ds" "digits_val 0 ds = nat \<bar>e\<bar>"
    using exponent_digits by blast
  have "map ascii_lower (m @ show_exponent e) = m @ CHR ''e'' # map ascii_lower (tl (show_exponent e))"
    using ds(1) by (simp add: lower_digits [OF m] ascii_lower_def)
  then have f: "find_sub ''e'' (map ascii_lower (m @ show_exponent e)) = Some (length m)"
    using find_char [OF no_exponent [OF m]] by simp
  have s: "split_sign (drop (Suc (length m)) (m @ show_exponent e)) = (e < 0, ds)"
    using ds(1) by simp
  have "digit_run ds" "run_digits ds = ds" using digit_run_digits ds(2,3) by blast+
  then show ?thesis
    unfolding parse_decimal_def f option.case using p ds(4) s
    by (simp add: Let_def)
qed

section \<open>Reading a layout\<close>

lemma digits_val_zeros: "digits_val acc (replicate n CHR ''0'') = acc * 10 ^ n"
  by (induction n arbitrary: acc) (auto simp: digit_val_def)

lemma digits_val_pad: "digits_val 0 (replicate n CHR ''0'' @ ds) = digits_val 0 ds"
  by (simp add: digits_val_append digits_val_zeros)

lemma zeros_digits: "list_all is_digit (replicate n CHR ''0'')"
  by (induction n) (auto simp: is_digit_def)

definition decimal_text :: "string \<Rightarrow> bool" where
  "decimal_text s \<longleftrightarrow> s \<noteq> [] \<and> is_digit (hd s) \<and> is_digit (last s)"

text \<open>A layout starts and ends with a digit, and reads as the value it lays out.\<close>

lemma layout_reads:
  assumes "0 < d"
  shows "decimal_text (layout_dec d k) \<and>
    (\<exists>e l. parse_decimal (layout_dec d k) = Some (e, l) \<and> of_nat e * 10 powi l = (of_nat d * 10 powi k :: rat))"
proof -
  let ?ds = "show_nat d"
  let ?pt = "int (length ?ds) + k"
  have ds: "list_all is_digit ?ds" "?ds \<noteq> []" "digits_val 0 ?ds = d"
    by (simp_all add: show_nat_digits digits_val_show_nat)
  have z: "is_digit CHR ''0''" by (simp add: is_digit_def)
  have loose: "list_all (\<lambda>c. is_digit c \<or> c = CHR ''.'') xs" if "list_all is_digit xs" for xs
    using that by (auto simp: list_all_iff)
  consider (exp) "16 < ?pt \<or> ?pt < - 3" | (small) "\<not> (16 < ?pt \<or> ?pt < - 3)" "?pt \<le> 0"
    | (whole) "\<not> (16 < ?pt \<or> ?pt < - 3)" "0 < ?pt" "int (length ?ds) \<le> ?pt"
    | (point) "\<not> (16 < ?pt \<or> ?pt < - 3)" "0 < ?pt" "?pt < int (length ?ds)" by linarith
  then show ?thesis
  proof cases
    case exp
    obtain c cs where c: "?ds = c # cs" using ds(2) by (cases ?ds) auto
    let ?m = "if cs = [] then [c] else c # CHR ''.'' # cs"
    have l: "layout_dec d k = ?m @ show_exponent (?pt - 1)" using exp c by (simp add: layout_dec_def Let_def)
    have m: "list_all (\<lambda>c. is_digit c \<or> c = CHR ''.'') ?m" using ds(1) c loose by auto
    have "parse_mantissa ?m = Some (d, - int (length cs))"
      using mantissa_plain [of "[c]"] mantissa_point [of "[c]" cs] ds c by auto
    from decimal_exponent [OF m this] have "parse_decimal (layout_dec d k) = Some (d, k)"
      using l c by (simp add: algebra_simps)
    moreover have "decimal_text (layout_dec d k)"
      using exponent_digits [of "?pt - 1"] l ds(1) c by (auto simp: decimal_text_def list_all_iff)
    ultimately show ?thesis by blast
  next
    case small
    let ?b = "replicate (nat (- ?pt)) CHR ''0'' @ ?ds"
    have l: "layout_dec d k = ''0'' @ CHR ''.'' # ?b" using small by (simp add: layout_dec_def Let_def)
    have b: "list_all is_digit ?b" "?b \<noteq> []" using ds zeros_digits by auto
    have "parse_mantissa (''0'' @ CHR ''.'' # ?b) = Some (digits_val 0 (''0'' @ ?b), - int (length ?b))"
      by (rule mantissa_point) (use b z in auto)
    moreover have "digits_val 0 (''0'' @ ?b) = d" using ds(3) digits_val_pad by (simp add: digit_val_def)
    moreover have "- int (length ?b) = k" using small by simp
    moreover have "list_all (\<lambda>c. is_digit c \<or> c = CHR ''.'') (layout_dec d k)" using l loose [OF b(1)] z by simp
    ultimately have "parse_decimal (layout_dec d k) = Some (d, k)" using decimal_positional l by metis
    moreover have "decimal_text (layout_dec d k)" using l z b ds by (auto simp: decimal_text_def list_all_iff)
    ultimately show ?thesis by blast
  next
    case whole
    let ?a = "?ds @ replicate (nat ?pt - length ?ds) CHR ''0''"
    have n: "int (nat ?pt - length ?ds) = k" "0 \<le> k" using whole by auto
    have l: "layout_dec d k = ?a @ CHR ''.'' # ''0''" using whole by (simp add: layout_dec_def Let_def)
    have a: "list_all is_digit ?a" "?a \<noteq> []" using ds zeros_digits by auto
    have "parse_mantissa (?a @ CHR ''.'' # ''0'') = Some (digits_val 0 (?a @ ''0''), - int (length ''0''))"
      by (rule mantissa_point) (use a z in auto)
    moreover have "digits_val 0 (?a @ ''0'') = d * 10 ^ (nat ?pt - length ?ds) * 10"
      using ds(3) by (simp add: digits_val_append digits_val_zeros digit_val_def)
    moreover have "list_all (\<lambda>c. is_digit c \<or> c = CHR ''.'') (layout_dec d k)" using l loose [OF a(1)] z by simp
    ultimately have "parse_decimal (layout_dec d k) = Some (d * 10 ^ nat k * 10, - 1)"
      using decimal_positional l n by (metis int_nat_eq length_Cons list.size(3) nat_int of_nat_1 One_nat_def)
    moreover have "of_nat (d * 10 ^ nat k * 10) * 10 powi (- 1) = (of_nat d * 10 powi k :: rat)"
      using n(2) by (simp add: power_int_def)
    moreover have "decimal_text (layout_dec d k)" using l z a ds by (auto simp: decimal_text_def list_all_iff)
    ultimately show ?thesis by blast
  next
    case point
    let ?a = "take (nat ?pt) ?ds" and ?b = "drop (nat ?pt) ?ds"
    have l: "layout_dec d k = ?a @ CHR ''.'' # ?b" using point by (simp add: layout_dec_def Let_def)
    have ab: "list_all is_digit ?a" "list_all is_digit ?b" "?a \<noteq> []" "?b \<noteq> []"
      using ds(1,2) point by (auto simp: list_all_iff dest: in_set_takeD in_set_dropD)
    have "parse_mantissa (?a @ CHR ''.'' # ?b) = Some (digits_val 0 (?a @ ?b), - int (length ?b))"
      by (rule mantissa_point [OF ab])
    moreover have "- int (length ?b) = k" using point by simp
    moreover have "list_all (\<lambda>c. is_digit c \<or> c = CHR ''.'') (layout_dec d k)"
      using l loose [OF ab(1)] loose [OF ab(2)] by simp
    ultimately have "parse_decimal (layout_dec d k) = Some (d, k)"
      using decimal_positional l ds(3) by (metis append_take_drop_id)
    moreover have "decimal_text (layout_dec d k)" using l ab show_nat_edges [of d] by (auto simp: decimal_text_def)
    ultimately show ?thesis by blast
  qed
qed

section \<open>The round trip\<close>

lemma decimal_text_strip: "decimal_text s \<Longrightarrow> strip s = s \<and> strip (CHR ''-'' # s) = CHR ''-'' # s"
  by (auto simp: decimal_text_def intro!: strip_trim)

lemma decimal_text_word:
  assumes "decimal_text s" "\<not> is_digit c"
  shows "map ascii_lower s \<noteq> c # cs"
proof
  assume m: "map ascii_lower s = c # cs"
  obtain x xs where s: "s = x # xs" "is_digit x" using assms(1) by (cases s) (auto simp: decimal_text_def)
  then have "ascii_lower x = x" by (auto simp: ascii_lower_def is_digit_def Let_def)
  with m s assms(2) show False by simp
qed

lemma parse_float_text:
  assumes "decimal_text s" "parse_decimal s = Some (d, k)"
  shows "parse_float s = Inr (to_f64 (of_nat d * 10 powi k))"
    and "parse_float (CHR ''-'' # s) = Inr (fneg (to_f64 (of_nat d * 10 powi k)))"
proof -
  have s: "split_sign s = (False, s)" using assms(1) by (cases s) (auto simp: decimal_text_def)
  have w: "map ascii_lower s \<noteq> ''inf''" "map ascii_lower s \<noteq> ''infinity''" "map ascii_lower s \<noteq> ''nan''"
    by (rule decimal_text_word [OF assms(1)], simp add: is_digit_def)+
  show "parse_float s = Inr (to_f64 (of_nat d * 10 powi k))"
    unfolding parse_float_def using decimal_text_strip [OF assms(1)] s w assms(2) by simp
  show "parse_float (CHR ''-'' # s) = Inr (fneg (to_f64 (of_nat d * 10 powi k)))"
    unfolding parse_float_def using decimal_text_strip [OF assms(1)] w assms(2) by simp
qed

lemma repr_pos_reads:
  assumes "0 < x" "float_ok (Fin x)"
  shows "parse_float (repr_pos x) = Inr (Fin x) \<and> parse_float (CHR ''-'' # repr_pos x) = Inr (Fin (- x))"
proof -
  have x: "rnd x = x" "x < f64_limit" using assms by auto
  obtain d k where d: "shortest_dec x = Some (int d, k)" "0 < d" "rnd (of_nat d * 10 powi k) = x"
    using shortest_dec_total [OF assms(1) x] by blast
  obtain e z where z: "strip_zeros 20 d = (e, z)" by (cases "strip_zeros 20 d")
  have r: "repr_pos x = layout_dec e (k + int z)" using d(1) z by (simp add: repr_pos_def)
  have v: "(of_nat e * 10 powi (k + int z) :: rat) = of_nat d * 10 powi k"
  proof -
    have "(10 :: rat) powi (k + int z) = 10 ^ z * 10 powi k"
      using power_int_add [of "10 :: rat" "int z" k] by (simp add: add.commute)
    moreover have "of_nat d = (of_nat e * 10 ^ z :: rat)" using strip_zeros_value [OF z] by simp
    ultimately show ?thesis by simp
  qed
  obtain e' l where p: "decimal_text (layout_dec e (k + int z))"
    "parse_decimal (layout_dec e (k + int z)) = Some (e', l)"
    "(of_nat e' * 10 powi l :: rat) = of_nat e * 10 powi (k + int z)"
    using layout_reads [OF strip_zeros_pos [OF d(2) z], of "k + int z"] by blast
  have "to_f64 (of_nat e' * 10 powi l) = Fin x"
    using p(3) v d(3) assms by (simp add: to_f64_def)
  with parse_float_text [OF p(1,2)] r show ?thesis by simp
qed

lemma parse_float_repr: "float_ok x \<Longrightarrow> parse_float (float_repr x) = Inr x"
proof (cases x)
  case (Fin r)
  assume ok: "float_ok x"
  consider "r = 0" | "r < 0" | "0 < r" by linarith
  then show ?thesis
  proof cases
    case 1
    have "decimal_text ''0.0''" by (simp add: decimal_text_def is_digit_def)
    moreover have "parse_decimal ''0.0'' = Some (0, - 1)"
      by (simp add: parse_decimal_def parse_mantissa_def starts_with_def ascii_lower_def run_digits_def
          is_digit_def digit_val_def)
    ultimately show ?thesis using parse_float_text(1) [of "''0.0''" 0 "- 1"] Fin 1 f64_limit_pos
      by (simp add: to_f64_def not_le)
  next
    case 2
    have "float_ok (Fin (- r))" using ok Fin by (simp add: rnd_minus)
    with repr_pos_reads [of "- r"] 2 Fin show ?thesis by simp
  next
    case 3
    with repr_pos_reads [of r] ok Fin show ?thesis by simp
  qed
qed (simp_all add: parse_float_def strip_def is_white_def ascii_lower_def)

end
