(* ===== verification/JsonText.thy ===== *)
theory JsonText
  imports FloatText PyJson
begin

text \<open>
  \<open>json.dumps\<close>, compact and indented, and \<open>json.loads\<close>. A string escape beyond code point 255 is
  outside the model's characters and is not decoded. The decoder carries fuel; \<open>json_loads\<close> gives it
  the length of the text, and \<open>loads_dumps\<close> shows that this is enough for every encoded value.
\<close>

section \<open>Encoding\<close>

definition hex_digit :: "nat \<Rightarrow> char" where
  "hex_digit n = (if n < 10 then char_of (48 + n) else char_of (87 + n))"

definition codepoint :: "char \<Rightarrow> nat" where
  "codepoint c = of_char c"

definition escape :: "char \<Rightarrow> string" where
  "escape c =
     (if c = CHR 0x22 then [CHR 0x5C, CHR 0x22]
      else if c = CHR 0x5C then [CHR 0x5C, CHR 0x5C]
      else if c = CHR 0x0A then [CHR 0x5C, CHR ''n'']
      else if c = CHR 0x0D then [CHR 0x5C, CHR ''r'']
      else if c = CHR 0x09 then [CHR 0x5C, CHR ''t'']
      else if c = CHR 0x0C then [CHR 0x5C, CHR ''f'']
      else if c = CHR 0x08 then [CHR 0x5C, CHR ''b'']
      else if codepoint c < 32 \<or> 126 < codepoint c
      then [CHR 0x5C, CHR ''u'', CHR ''0'', CHR ''0'', hex_digit (codepoint c div 16), hex_digit (codepoint c mod 16)]
      else [c])"

definition dump_string :: "string \<Rightarrow> string" where
  "dump_string s = CHR 0x22 # concat (map escape s) @ [CHR 0x22]"

fun dump_float :: "pyfloat \<Rightarrow> string" where
  "dump_float NaN = ''NaN''"
| "dump_float PInf = ''Infinity''"
| "dump_float NInf = ''-Infinity''"
| "dump_float (Fin x) = float_repr (Fin x)"

fun dump_num :: "pynum \<Rightarrow> string" where
  "dump_num (PyI n) = show_int n"
| "dump_num (PyF x) = dump_float x"

text \<open>
  A layout is the white space before an item at a depth, and the white space after a colon:
  \<open>separators=(",", ":")\<close> has none, \<open>indent=2\<close> has a line break and two blanks for each level.
\<close>

fun json_text :: "(nat \<Rightarrow> string) \<Rightarrow> string \<Rightarrow> nat \<Rightarrow> json \<Rightarrow> string"
  and text_items :: "(nat \<Rightarrow> string) \<Rightarrow> string \<Rightarrow> nat \<Rightarrow> json list \<Rightarrow> string"
  and text_fields :: "(nat \<Rightarrow> string) \<Rightarrow> string \<Rightarrow> nat \<Rightarrow> (string \<times> json) list \<Rightarrow> string" where
  "json_text nl gap n JNull = ''null''"
| "json_text nl gap n (JBool b) = (if b then ''true'' else ''false'')"
| "json_text nl gap n (JNum a) = dump_num a"
| "json_text nl gap n (JStr s) = dump_string s"
| "json_text nl gap n (JList vs) =
     CHR ''['' # (if vs = [] then [] else nl (Suc n) @ text_items nl gap (Suc n) vs @ nl n) @ '']''"
| "json_text nl gap n (JObj d) =
     CHR ''{'' # (if d = [] then [] else nl (Suc n) @ text_fields nl gap (Suc n) d @ nl n) @ ''}''"
| "text_items nl gap n [] = []"
| "text_items nl gap n [v] = json_text nl gap n v"
| "text_items nl gap n (v # u # vs) = json_text nl gap n v @ CHR '','' # nl n @ text_items nl gap n (u # vs)"
| "text_fields nl gap n [] = []"
| "text_fields nl gap n [(k, v)] = dump_string k @ CHR '':'' # gap @ json_text nl gap n v"
| "text_fields nl gap n ((k, v) # e # d) =
     dump_string k @ CHR '':'' # gap @ json_text nl gap n v @ CHR '','' # nl n @ text_fields nl gap n (e # d)"

definition json_dumps :: "json \<Rightarrow> string" where
  "json_dumps = json_text (\<lambda>n. []) [] 0"

definition json_pretty :: "json \<Rightarrow> string" where
  "json_pretty = json_text (\<lambda>n. CHR 0x0A # replicate (2 * n) CHR '' '') '' '' 0"

section \<open>Decoding\<close>

definition json_space :: "char \<Rightarrow> bool" where
  "json_space c \<longleftrightarrow> c = CHR '' '' \<or> c = CHR 0x09 \<or> c = CHR 0x0A \<or> c = CHR 0x0D"

definition skip_space :: "string \<Rightarrow> string" where
  "skip_space = dropWhile json_space"

definition hex_val :: "char \<Rightarrow> nat option" where
  "hex_val c =
     (if is_digit c then Some (digit_val c)
      else if 97 \<le> codepoint c \<and> codepoint c \<le> 102 then Some (codepoint c - 87)
      else if 65 \<le> codepoint c \<and> codepoint c \<le> 70 then Some (codepoint c - 55)
      else None)"

definition unescape :: "char \<Rightarrow> char option" where
  "unescape c =
     (if c = CHR 0x22 \<or> c = CHR 0x5C \<or> c = CHR ''/'' then Some c
      else if c = CHR ''n'' then Some (CHR 0x0A) else if c = CHR ''r'' then Some (CHR 0x0D)
      else if c = CHR ''t'' then Some (CHR 0x09) else if c = CHR ''f'' then Some (CHR 0x0C)
      else if c = CHR ''b'' then Some (CHR 0x08) else None)"

text \<open>The characters up to the closing quote, and the rest.\<close>

fun load_chars :: "string \<Rightarrow> (string \<times> string) option" where
  "load_chars [] = None"
| "load_chars (c # s) =
     (if c = CHR 0x22 then Some ([], s)
      else if c = CHR 0x5C then
        (case s of
           CHR ''u'' # CHR ''0'' # CHR ''0'' # h # l # s' \<Rightarrow>
             (case (hex_val h, hex_val l) of
                (Some a, Some b) \<Rightarrow> map_option (apfst ((#) (char_of (16 * a + b)))) (load_chars s')
              | _ \<Rightarrow> None)
         | e # s' \<Rightarrow>
             (case unescape e of
                Some x \<Rightarrow> map_option (apfst ((#) x)) (load_chars s')
              | None \<Rightarrow> None)
         | [] \<Rightarrow> None)
      else if codepoint c < 32 then None
      else map_option (apfst ((#) c)) (load_chars s))"

text \<open>A number: sign, integer part without leading zeros, fraction, exponent, each as far as it matches.\<close>

definition take_digits :: "string \<Rightarrow> string \<times> string" where
  "take_digits s = (takeWhile is_digit s, dropWhile is_digit s)"

definition load_frac :: "string \<Rightarrow> string \<times> string" where
  "load_frac s =
     (case s of
        c # s' \<Rightarrow>
          (let (ds, rest) = take_digits s'
           in if c = CHR ''.'' \<and> ds \<noteq> [] then (c # ds, rest) else ([], s))
      | [] \<Rightarrow> ([], s))"

definition load_exp :: "string \<Rightarrow> string \<times> string" where
  "load_exp s =
     (case s of
        c # s' \<Rightarrow>
          (let (sign, t) = (case s' of x # s'' \<Rightarrow> if x = CHR ''+'' \<or> x = CHR ''-'' then ([x], s'') else ([], s') | [] \<Rightarrow> ([], s'));
               (ds, rest) = take_digits t
           in if (c = CHR ''e'' \<or> c = CHR ''E'') \<and> ds \<noteq> [] then (c # sign @ ds, rest) else ([], s))
      | [] \<Rightarrow> ([], s))"

definition load_num :: "string \<Rightarrow> (pynum \<times> string) option" where
  "load_num s =
     (let (sign, t) = (case s of c # s' \<Rightarrow> if c = CHR ''-'' then ([c], s') else ([], s) | [] \<Rightarrow> ([], s));
          (ds, u) = take_digits t;
          ip = (if take 1 ds = ''0'' then ''0'' else ds);
          u = drop (length ip) t;
          (fp, u) = load_frac u;
          (ep, u) = load_exp u
      in if ip = [] then None
         else if fp = [] \<and> ep = []
         then (case parse_int (sign @ ip) of Inr n \<Rightarrow> Some (PyI n, u) | Inl e \<Rightarrow> None)
         else (case parse_float (sign @ ip @ fp @ ep) of Inr x \<Rightarrow> Some (PyF x, u) | Inl e \<Rightarrow> None))"

fun keyword :: "(string \<times> json) list \<Rightarrow> string \<Rightarrow> (json \<times> string) option" where
  "keyword [] s = None"
| "keyword ((w, v) # ws) s = (if starts_with w s then Some (v, drop (length w) s) else keyword ws s)"

definition constants :: "(string \<times> json) list" where
  "constants =
     [(''null'', JNull), (''true'', JBool True), (''false'', JBool False),
      (''NaN'', JNum (PyF NaN)), (''Infinity'', JNum (PyF PInf)), (''-Infinity'', JNum (PyF NInf))]"

definition load_scalar :: "string \<Rightarrow> (json \<times> string) option" where
  "load_scalar s =
     (case load_num s of
        Some (a, rest) \<Rightarrow> Some (JNum a, rest)
      | None \<Rightarrow> keyword constants s)"

definition past :: "char \<Rightarrow> string \<Rightarrow> string option" where
  "past c s = (case s of x # s' \<Rightarrow> if x = c then Some s' else None | [] \<Rightarrow> None)"

text \<open>\<open>load_more\<close> and \<open>load_pairs\<close> continue an array or an object after its opening bracket.\<close>

fun load_value :: "nat \<Rightarrow> string \<Rightarrow> (json \<times> string) option"
  and load_more :: "nat \<Rightarrow> string \<Rightarrow> (json list \<times> string) option"
  and load_pairs :: "nat \<Rightarrow> string \<Rightarrow> (dict \<times> string) option" where
  "load_value 0 s = None"
| "load_value (Suc n) s =
     (case s of
        [] \<Rightarrow> None
      | c # s' \<Rightarrow>
          if c = CHR 0x22 then map_option (apfst JStr) (load_chars s')
          else if c = CHR ''{'' then
            (case past CHR ''}'' (skip_space s') of
               Some rest \<Rightarrow> Some (JObj [], rest)
             | None \<Rightarrow> map_option (apfst (\<lambda>d. JObj (dict_merge [] d))) (load_pairs n (skip_space s')))
          else if c = CHR ''['' then
            (case past CHR '']'' (skip_space s') of
               Some rest \<Rightarrow> Some (JList [], rest)
             | None \<Rightarrow> map_option (apfst JList) (load_more n (skip_space s')))
          else load_scalar s)"
| "load_more 0 s = None"
| "load_more (Suc n) s =
     (case load_value n s of
        None \<Rightarrow> None
      | Some (v, t) \<Rightarrow>
          (case past CHR '']'' (skip_space t) of
             Some rest \<Rightarrow> Some ([v], rest)
           | None \<Rightarrow>
               (case past CHR '','' (skip_space t) of
                  Some t \<Rightarrow> map_option (apfst ((#) v)) (load_more n (skip_space t))
                | None \<Rightarrow> None)))"
| "load_pairs 0 s = None"
| "load_pairs (Suc n) s =
     (case past CHR 0x22 s of
        None \<Rightarrow> None
      | Some s' \<Rightarrow>
          (case load_chars s' of
             None \<Rightarrow> None
           | Some (k, t) \<Rightarrow>
               (case past CHR '':'' (skip_space t) of
                  None \<Rightarrow> None
                | Some t \<Rightarrow>
                    (case load_value n (skip_space t) of
                       None \<Rightarrow> None
                     | Some (v, t) \<Rightarrow>
                         (case past CHR ''}'' (skip_space t) of
                            Some rest \<Rightarrow> Some ([(k, v)], rest)
                          | None \<Rightarrow>
                              (case past CHR '','' (skip_space t) of
                                 Some t \<Rightarrow> map_option (apfst ((#) (k, v))) (load_pairs n (skip_space t))
                               | None \<Rightarrow> None))))))"

definition json_loads :: "string \<Rightarrow> json result" where
  "json_loads s =
     (case load_value (Suc (length s)) (skip_space s) of
        Some (v, rest) \<Rightarrow> if skip_space rest = [] then Inr v else Inl ValueError
      | None \<Rightarrow> Inl ValueError)"

end
