(* ===== verification/JsonRound.thy ===== *)
theory JsonRound
  imports JsonText
begin

text \<open>\<open>json.loads(json.dumps(v)) == v\<close>: strings, numbers, then values by mutual induction.\<close>

section \<open>Strings\<close>

lemma codepoint_less [simp]: "codepoint c < 256"
  by (simp add: codepoint_def)

lemma hex_round: "n < 16 \<Longrightarrow> hex_val (hex_digit n) = Some n"
  by (auto simp: hex_val_def hex_digit_def is_digit_def digit_val_def codepoint_def of_char_of)

lemma char_split: "char_of (16 * (codepoint c div 16) + codepoint c mod 16) = c"
  by (simp add: codepoint_def)

lemma load_escape: "load_chars (escape c @ s) = map_option (apfst ((#) c)) (load_chars s)"
proof -
  consider "c = CHR 0x22" | "c = CHR 0x5C" | "c = CHR 0x0A" | "c = CHR 0x0D" | "c = CHR 0x09" | "c = CHR 0x0C"
    | "c = CHR 0x08" | (ctrl) "c \<notin> {CHR 0x22, CHR 0x5C, CHR 0x0A, CHR 0x0D, CHR 0x09, CHR 0x0C, CHR 0x08}"
      "codepoint c < 32 \<or> 126 < codepoint c"
    | (plain) "c \<notin> {CHR 0x22, CHR 0x5C, CHR 0x0A, CHR 0x0D, CHR 0x09, CHR 0x0C, CHR 0x08}"
      "\<not> (codepoint c < 32 \<or> 126 < codepoint c)" by blast
  then show ?thesis
  proof cases
    case ctrl
    then have "escape c = [CHR 0x5C, CHR ''u'', CHR ''0'', CHR ''0'', hex_digit (codepoint c div 16), hex_digit (codepoint c mod 16)]"
      by (simp add: escape_def)
    moreover have "codepoint c div 16 < 16" using codepoint_less [of c] by linarith
    ultimately show ?thesis using char_split [of c] by (simp add: hex_round)
  next
    case plain
    then show ?thesis by (simp add: escape_def)
  qed (simp_all add: escape_def unescape_def)
qed

lemma load_string: "load_chars (concat (map escape s) @ CHR 0x22 # rest) = Some (s, rest)"
  by (induction s) (auto simp: load_escape)

section \<open>Numbers\<close>

text \<open>What may follow a value: the end, a separator, a closing bracket or white space.\<close>

definition delim :: "string \<Rightarrow> bool" where
  "delim s \<longleftrightarrow> s = [] \<or> hd s = CHR '','' \<or> hd s = CHR ''}'' \<or> hd s = CHR '']'' \<or> json_space (hd s)"

lemma delim_char:
  "delim (c # s) \<Longrightarrow> \<not> is_digit c \<and> c \<noteq> CHR ''.'' \<and> c \<noteq> CHR ''e'' \<and> c \<noteq> CHR ''E''"
  by (auto simp: delim_def json_space_def is_digit_def)

lemma take_digits_append:
  "list_all is_digit ds \<Longrightarrow> s = [] \<or> \<not> is_digit (hd s) \<Longrightarrow> take_digits (ds @ s) = (ds, s)"
proof (induction ds)
  case Nil
  then show ?case by (cases s) (auto simp: take_digits_def)
qed (auto simp: take_digits_def)

lemma delim_no_digit: "delim s \<Longrightarrow> s = [] \<or> \<not> is_digit (hd s)"
  by (cases s) (auto dest: delim_char)

lemma delim_no_frac: "delim s \<Longrightarrow> load_frac s = ([], s)"
  by (cases s) (auto simp: load_frac_def Let_def split: prod.split dest: delim_char)

lemma delim_no_exp: "delim s \<Longrightarrow> load_exp s = ([], s)"
  by (cases s) (auto simp: load_exp_def Let_def split: prod.split list.split dest: delim_char)

definition int_part :: "string \<Rightarrow> bool" where
  "int_part ip \<longleftrightarrow> ip \<noteq> [] \<and> list_all is_digit ip \<and> (hd ip = CHR ''0'' \<longrightarrow> ip = ''0'')"

definition frac_part :: "string \<Rightarrow> bool" where
  "frac_part fp \<longleftrightarrow> fp = [] \<or> (\<exists>ds. fp = CHR ''.'' # ds \<and> ds \<noteq> [] \<and> list_all is_digit ds)"

definition exp_part :: "string \<Rightarrow> bool" where
  "exp_part ep \<longleftrightarrow>
     ep = [] \<or> (\<exists>x ds. ep = CHR ''e'' # x # ds \<and> (x = CHR ''+'' \<or> x = CHR ''-'') \<and> ds \<noteq> [] \<and> list_all is_digit ds)"

lemma load_exp_part:
  assumes "exp_part ep" "delim s"
  shows "load_exp (ep @ s) = (ep, s)"
proof (cases "ep = []")
  case True
  with assms show ?thesis by (simp add: delim_no_exp)
next
  case False
  with assms(1) obtain x ds where e: "ep = CHR ''e'' # x # ds" "x = CHR ''+'' \<or> x = CHR ''-''" "ds \<noteq> []"
    "list_all is_digit ds" by (auto simp: exp_part_def)
  have "take_digits (ds @ s) = (ds, s)" using take_digits_append [OF e(4)] delim_no_digit [OF assms(2)] by simp
  with e show ?thesis by (auto simp: load_exp_def)
qed

lemma exp_delim: "exp_part ep \<Longrightarrow> delim s \<Longrightarrow> ep @ s = [] \<or> \<not> is_digit (hd (ep @ s)) \<and> hd (ep @ s) \<noteq> CHR ''.''"
  by (cases s) (auto simp: exp_part_def is_digit_def dest: delim_char)

lemma load_frac_part:
  assumes "frac_part fp" "exp_part ep" "delim s"
  shows "load_frac (fp @ ep @ s) = (fp, ep @ s)"
proof (cases "fp = []")
  case True
  with exp_delim [OF assms(2,3)] show ?thesis
    by (cases "ep @ s") (auto simp: load_frac_def Let_def split: prod.split)
next
  case False
  with assms(1) obtain ds where f: "fp = CHR ''.'' # ds" "ds \<noteq> []" "list_all is_digit ds"
    by (auto simp: frac_part_def)
  have "take_digits (ds @ ep @ s) = (ds, ep @ s)"
    using take_digits_append [OF f(3), of "ep @ s"] exp_delim [OF assms(2,3)] by blast
  with f show ?thesis by (simp add: load_frac_def)
qed

lemma frac_delim:
  "frac_part fp \<Longrightarrow> exp_part ep \<Longrightarrow> delim s \<Longrightarrow> fp @ ep @ s = [] \<or> \<not> is_digit (hd (fp @ ep @ s))"
  using exp_delim [of ep s] by (auto simp: frac_part_def is_digit_def)

definition sign_of :: "bool \<Rightarrow> string" where
  "sign_of neg = (if neg then ''-'' else [])"

lemma load_num_parts:
  assumes "int_part ip" "frac_part fp" "exp_part ep" "delim s"
  shows "load_num (sign_of neg @ ip @ fp @ ep @ s) =
    (if fp = [] \<and> ep = []
     then (case parse_int (sign_of neg @ ip) of Inr n \<Rightarrow> Some (PyI n, s) | Inl e \<Rightarrow> None)
     else (case parse_float (sign_of neg @ ip @ fp @ ep) of Inr x \<Rightarrow> Some (PyF x, s) | Inl e \<Rightarrow> None))"
proof -
  let ?t = "ip @ fp @ ep @ s"
  have i: "ip \<noteq> []" "list_all is_digit ip" using assms(1) by (auto simp: int_part_def)
  have "hd ip \<noteq> CHR ''-''" using i by (cases ip) auto
  then have sg: "(case sign_of neg @ ?t of c # s' \<Rightarrow> if c = CHR ''-'' then ([c], s') else ([], sign_of neg @ ?t)
      | [] \<Rightarrow> ([], sign_of neg @ ?t)) = (sign_of neg, ?t)"
    using i by (cases ip) (auto simp: sign_of_def)
  have td: "take_digits ?t = (ip, fp @ ep @ s)"
    by (rule take_digits_append [OF i(2) frac_delim [OF assms(2-4)]])
  have ip: "(if take 1 ip = ''0'' then ''0'' else ip) = ip"
    using assms(1) by (cases ip) (auto simp: int_part_def)
  have dr: "drop (length ip) ?t = fp @ ep @ s" by simp
  show ?thesis
    unfolding load_num_def sg Let_def prod.case td ip dr load_frac_part [OF assms(2-4)] load_exp_part [OF assms(3,4)]
    using i(1) by simp
qed

lemma show_nat_hd: "hd (show_nat n) = CHR ''0'' \<Longrightarrow> n = 0"
proof (induction n rule: show_nat.induct)
  case (1 n)
  show ?case
  proof (cases "n < 10")
    case True
    with 1(2) have "digit_char n = CHR ''0''" by (simp add: show_nat.simps [of n])
    then have "digit_val (digit_char n) = 0" by (simp add: digit_val_def)
    with True show ?thesis by simp
  next
    case False
    with 1 have "n div 10 = 0" by (simp add: show_nat.simps [of n])
    with False show ?thesis by simp
  qed
qed

lemma show_zero: "show_nat 0 = ''0''"
proof -
  have "(char_of (48 :: nat) :: char) = CHR ''0''" by code_simp
  then show ?thesis by (simp add: show_nat.simps [of 0] digit_char_def)
qed

lemma int_part_show: "int_part (show_nat n)"
proof -
  have "show_nat 0 = ''0''" by (rule show_zero)
  then show ?thesis using show_nat_hd [of n] show_nat_digits [of n] by (auto simp: int_part_def)
qed

lemma load_int: "delim s \<Longrightarrow> load_num (show_int n @ s) = Some (PyI n, s)"
  using load_num_parts [OF int_part_show, of "[]" "[]" s "n < 0" "nat \<bar>n\<bar>"] parse_int_show_int [of n]
  by (auto simp: frac_part_def exp_part_def sign_of_def show_int_def)

text \<open>The text of a float splits into the parts of a JSON number.\<close>

definition float_parts :: "string \<Rightarrow> bool" where
  "float_parts t \<longleftrightarrow>
     (\<exists>ip fp ep. t = ip @ fp @ ep \<and> int_part ip \<and> frac_part fp \<and> exp_part ep \<and> (fp \<noteq> [] \<or> ep \<noteq> []))"

lemma float_partsI:
  "int_part ip \<Longrightarrow> frac_part fp \<Longrightarrow> exp_part ep \<Longrightarrow> fp \<noteq> [] \<or> ep \<noteq> [] \<Longrightarrow> float_parts (ip @ fp @ ep)"
  unfolding float_parts_def by blast

lemma layout_parts:
  assumes "0 < d"
  shows "float_parts (layout_dec d k)"
proof -
  let ?ds = "show_nat d"
  let ?pt = "int (length ?ds) + k"
  have ds: "list_all is_digit ?ds" "?ds \<noteq> []" "hd ?ds \<noteq> CHR ''0''"
    using assms show_nat_hd [of d] by (auto simp: show_nat_digits)
  have z: "is_digit CHR ''0''" by (simp add: is_digit_def)
  consider (exp) "16 < ?pt \<or> ?pt < - 3" | (small) "\<not> (16 < ?pt \<or> ?pt < - 3)" "?pt \<le> 0"
    | (whole) "\<not> (16 < ?pt \<or> ?pt < - 3)" "0 < ?pt" "int (length ?ds) \<le> ?pt"
    | (point) "\<not> (16 < ?pt \<or> ?pt < - 3)" "0 < ?pt" "?pt < int (length ?ds)" by linarith
  then show ?thesis
  proof cases
    case exp
    obtain c cs where c: "?ds = c # cs" using ds(2) by (cases ?ds) auto
    have "layout_dec d k = [c] @ (if cs = [] then [] else CHR ''.'' # cs) @ show_exponent (?pt - 1)"
      using exp c by (simp add: layout_dec_def Let_def)
    moreover have "int_part [c]" "frac_part (if cs = [] then [] else CHR ''.'' # cs)"
      using ds c by (auto simp: int_part_def frac_part_def)
    moreover have "exp_part (show_exponent (?pt - 1)) \<and> show_exponent (?pt - 1) \<noteq> []"
    proof -
      obtain ds where "show_exponent (?pt - 1) = CHR ''e'' # (if ?pt - 1 < 0 then CHR ''-'' else CHR ''+'') # ds"
        "ds \<noteq> []" "list_all is_digit ds" using exponent_digits by blast
      then show ?thesis by (simp add: exp_part_def)
    qed
    ultimately show ?thesis using float_partsI by metis
  next
    case small
    have "layout_dec d k = ''0'' @ (CHR ''.'' # replicate (nat (- ?pt)) CHR ''0'' @ ?ds) @ []"
      using small by (simp add: layout_dec_def Let_def)
    moreover have "frac_part (CHR ''.'' # replicate (nat (- ?pt)) CHR ''0'' @ ?ds)"
      using ds zeros_digits by (auto simp: frac_part_def)
    ultimately show ?thesis using float_partsI [of "''0''" _ "[]"] z by (simp add: int_part_def exp_part_def)
  next
    case whole
    have "layout_dec d k = (?ds @ replicate (nat ?pt - length ?ds) CHR ''0'') @ ''.0'' @ []"
      using whole by (simp add: layout_dec_def Let_def)
    moreover have "int_part (?ds @ replicate (nat ?pt - length ?ds) CHR ''0'')" "frac_part ''.0''"
      using ds z zeros_digits by (auto simp: int_part_def frac_part_def)
    ultimately show ?thesis using float_partsI by (metis exp_part_def list.distinct(1))
  next
    case point
    let ?a = "take (nat ?pt) ?ds" and ?b = "drop (nat ?pt) ?ds"
    have "layout_dec d k = ?a @ (CHR ''.'' # ?b) @ []" using point by (simp add: layout_dec_def Let_def)
    moreover have "int_part ?a" using ds point by (auto simp: int_part_def list_all_iff dest: in_set_takeD)
    moreover have "frac_part (CHR ''.'' # ?b)"
      using ds point by (auto simp: frac_part_def list_all_iff dest: in_set_dropD)
    ultimately show ?thesis using float_partsI by (metis exp_part_def list.distinct(1))
  qed
qed

lemma load_float_text:
  assumes "float_parts t" "parse_float (sign_of neg @ t) = Inr x" "delim s"
  shows "load_num (sign_of neg @ t @ s) = Some (PyF x, s)"
proof -
  obtain ip fp ep where p: "t = ip @ fp @ ep" "int_part ip" "frac_part fp" "exp_part ep" "fp \<noteq> [] \<or> ep \<noteq> []"
    using assms(1) by (auto simp: float_parts_def)
  then show ?thesis using load_num_parts [OF p(2-4) assms(3), of neg] assms(2) by auto
qed

lemma repr_pos_parts:
  assumes "0 < x" "float_ok (Fin x)"
  shows "float_parts (repr_pos x)"
proof -
  have x: "rnd x = x" "x < f64_limit" using assms by auto
  obtain d k where d: "shortest_dec x = Some (int d, k)" "0 < d"
    using shortest_dec_total [OF assms(1) x] by blast
  obtain e z where z: "strip_zeros 20 d = (e, z)" by (cases "strip_zeros 20 d")
  have "repr_pos x = layout_dec e (k + int z)" using d(1) z by (simp add: repr_pos_def)
  then show ?thesis using layout_parts [OF strip_zeros_pos [OF d(2) z]] by simp
qed

lemma load_float:
  assumes "float_ok (Fin x)" "delim s"
  shows "load_num (float_repr (Fin x) @ s) = Some (PyF (Fin x), s)"
proof -
  consider "x = 0" | "x < 0" | "0 < x" by linarith
  then show ?thesis
  proof cases
    case 1
    have "float_parts ''0.0''"
      using float_partsI [of "''0''" "''.0''" "[]"] by (simp add: int_part_def frac_part_def exp_part_def is_digit_def)
    with load_float_text [of "''0.0''" False] parse_float_repr [of "Fin 0"] 1 assms show ?thesis
      by (simp add: sign_of_def)
  next
    case 2
    have "float_ok (Fin (- x))" using assms(1) by (simp add: rnd_minus)
    with load_float_text [OF repr_pos_parts, of "- x" True] parse_float_repr [OF assms(1)] 2 assms(2) show ?thesis
      by (simp add: sign_of_def)
  next
    case 3
    with load_float_text [OF repr_pos_parts, of x False] parse_float_repr [OF assms(1)] assms show ?thesis
      by (simp add: sign_of_def)
  qed
qed

end
