(* ===== verification/JsonValues.thy ===== *)
theory JsonValues
  imports JsonRound
begin

text \<open>\<open>json.loads(json.dumps(v)) == v\<close> for every value whose floats are doubles and whose dicts have distinct keys.\<close>

section \<open>The values Python holds\<close>

fun json_ok :: "json \<Rightarrow> bool" where
  "json_ok (JNum a) \<longleftrightarrow> num_ok a"
| "json_ok (JList vs) \<longleftrightarrow> list_all json_ok vs"
| "json_ok (JObj d) \<longleftrightarrow> distinct (map fst d) \<and> list_all (\<lambda>kv. json_ok (snd kv)) d"
| "json_ok _ \<longleftrightarrow> True"

lemma dict_merge_distinct:
  "distinct (map fst e) \<Longrightarrow> fst ` set d \<inter> fst ` set e = {} \<Longrightarrow> dict_merge d e = d @ e"
proof (induction e arbitrary: d)
  case (Cons kv e)
  obtain k v where kv: "kv = (k, v)" by (cases kv)
  have "AList.update k v d = d @ [(k, v)]"
    using Cons.prems(2) kv by (induction d) (auto)
  moreover have "dict_merge (d @ [(k, v)]) e = (d @ [(k, v)]) @ e"
    using Cons.prems kv by (intro Cons.IH) auto
  ultimately show ?case using kv by simp
qed simp

lemma dict_of_pairs [simp]: "distinct (map fst d) \<Longrightarrow> dict_merge [] d = d"
  using dict_merge_distinct [of d "[]"] by simp

section \<open>Scalars\<close>

lemma starts_with_Cons [simp]: "starts_with (a # p) (c # s) \<longleftrightarrow> a = c \<and> starts_with p s"
  and starts_with_short [simp]: "\<not> starts_with (a # p) []"
  and starts_with_Nil [simp]: "starts_with [] s"
  by (auto simp: starts_with_def)

lemma load_num_none: "c \<noteq> CHR ''-'' \<Longrightarrow> \<not> is_digit c \<Longrightarrow> load_num (c # s) = None"
  "\<not> is_digit c \<Longrightarrow> load_num (CHR ''-'' # c # s) = None"
  by (simp_all add: load_num_def take_digits_def load_frac_def load_exp_def Let_def split: prod.split list.split)

lemma load_word:
  "load_scalar (''null'' @ s) = Some (JNull, s)" "load_scalar (''true'' @ s) = Some (JBool True, s)"
  "load_scalar (''false'' @ s) = Some (JBool False, s)" "load_scalar (''NaN'' @ s) = Some (JNum (PyF NaN), s)"
  "load_scalar (''Infinity'' @ s) = Some (JNum (PyF PInf), s)"
  "load_scalar (''-Infinity'' @ s) = Some (JNum (PyF NInf), s)"
  by (simp_all add: load_scalar_def load_num_none is_digit_def constants_def)

lemma load_number: "num_ok a \<Longrightarrow> delim s \<Longrightarrow> load_scalar (dump_num a @ s) = Some (JNum a, s)"
proof (induction a rule: dump_num.induct)
  case (1 n)
  then show ?case by (simp add: load_scalar_def load_int)
next
  case (2 x)
  then show ?case
    using load_word(4-6) [of s] load_float [of _ s] by (cases x) (auto simp: load_scalar_def simp del: float_repr.simps float_ok.simps)
qed

section \<open>First characters\<close>

text \<open>A number starts with a digit, a minus sign or the letter of one of the constants.\<close>

definition num_head :: "char \<Rightarrow> bool" where
  "num_head c \<longleftrightarrow> is_digit c \<or> c = CHR ''-'' \<or> c = CHR ''N'' \<or> c = CHR ''I''"

definition head :: "char \<Rightarrow> bool" where
  "head c \<longleftrightarrow> \<not> json_space c \<and> c \<noteq> CHR '']'' \<and> c \<noteq> CHR ''}''"

lemma num_head: "num_head c \<Longrightarrow> head c \<and> c \<noteq> CHR 0x22 \<and> c \<noteq> CHR ''{'' \<and> c \<noteq> CHR ''[''"
  by (auto simp: num_head_def head_def json_space_def is_digit_def)

lemma show_int_head: "\<exists>c s. show_int n = c # s \<and> num_head c"
  using show_nat_digits [of "nat \<bar>n\<bar>"]
  by (cases "show_nat (nat \<bar>n\<bar>)") (auto simp: show_int_def num_head_def)

lemma float_parts_head: "float_parts t \<Longrightarrow> \<exists>c s. t = c # s \<and> num_head c"
proof -
  assume "float_parts t"
  then obtain ip fp ep where p: "t = ip @ fp @ ep" "int_part ip" by (auto simp: float_parts_def)
  then show ?thesis by (cases ip) (auto simp: int_part_def num_head_def)
qed

lemma float_repr_head: "float_ok (Fin x) \<Longrightarrow> \<exists>c s. float_repr (Fin x) = c # s \<and> num_head c"
proof -
  assume ok: "float_ok (Fin x)"
  consider "x = 0" | "x < 0" | "0 < x" by linarith
  then show ?thesis
    by cases (use ok float_parts_head [OF repr_pos_parts, of x] in \<open>simp_all add: num_head_def is_digit_def\<close>)
qed

lemma dump_num_head: "num_ok a \<Longrightarrow> \<exists>c s. dump_num a = c # s \<and> num_head c"
proof (induction a rule: dump_num.induct)
  case (1 n)
  then show ?case using show_int_head by simp
next
  case (2 x)
  then show ?case
    using float_repr_head by (cases x) (auto simp: num_head_def simp del: float_repr.simps float_ok.simps)
qed

lemma text_head: "json_ok v \<Longrightarrow> \<exists>c s. json_text nl gap n v = c # s \<and> head c"
proof (cases v)
  case (JNum a)
  assume "json_ok v"
  with JNum show ?thesis using dump_num_head [of a] num_head by auto
qed (auto simp: dump_string_def head_def json_space_def)

lemma skip_text: "json_ok v \<Longrightarrow> skip_space (json_text nl gap n v @ s) = json_text nl gap n v @ s"
  using text_head [of v nl gap n] by (auto simp: skip_space_def head_def)

lemma skip_white: "list_all json_space ws \<Longrightarrow> skip_space (ws @ s) = skip_space s"
  by (simp add: skip_space_def list_all_iff)

lemma skip_head [simp]: "\<not> json_space c \<Longrightarrow> skip_space (c # s) = c # s"
  by (simp add: skip_space_def)

lemma not_space [simp]:
  "\<not> json_space CHR 0x22" "\<not> json_space CHR '',''" "\<not> json_space CHR '':''" "\<not> json_space CHR ''}''"
  "\<not> json_space CHR '']''"
  by (simp_all add: json_space_def)

lemma delim_sep [simp]: "delim (CHR '','' # s)" "delim (CHR ''}'' # s)" "delim (CHR '']'' # s)" "delim []"
  by (simp_all add: delim_def)

lemma delim_white: "list_all json_space ws \<Longrightarrow> delim s \<Longrightarrow> delim (ws @ s)"
  by (cases ws) (auto simp: delim_def)

section \<open>Values\<close>

lemma past_Cons [simp]: "past c (x # s) = (if x = c then Some s else None)"
  by (simp add: past_def)

lemma past_text: "json_ok v \<Longrightarrow> past CHR '']'' (json_text nl gap n v @ s) = None"
  using text_head [of v nl gap n] by (auto simp: head_def)

lemma load_value_scalar:
  "c \<noteq> CHR 0x22 \<Longrightarrow> c \<noteq> CHR ''{'' \<Longrightarrow> c \<noteq> CHR ''['' \<Longrightarrow> load_value (Suc n) (c # s) = load_scalar (c # s)"
  by simp

lemma text_items_Cons: "\<exists>r. text_items nl gap n (v # vs) = json_text nl gap n v @ r"
  by (cases vs) auto

lemma text_fields_Cons: "\<exists>r. text_fields nl gap n (e # d) = CHR 0x22 # r"
  by (cases e; cases d) (auto simp: dump_string_def)

definition white :: "(nat \<Rightarrow> string) \<Rightarrow> string \<Rightarrow> bool" where
  "white nl gap \<longleftrightarrow> (\<forall>n. list_all json_space (nl n)) \<and> list_all json_space gap"

lemma skip_nl: "white nl gap \<Longrightarrow> skip_space (nl n @ s) = skip_space s" "white nl gap \<Longrightarrow> skip_space (gap @ s) = skip_space s"
  by (simp_all add: white_def skip_white)

lemma load_text:
  shows "white nl gap \<Longrightarrow> json_ok v \<Longrightarrow> length (json_text nl gap k v) \<le> n \<Longrightarrow> delim s \<Longrightarrow>
      load_value n (json_text nl gap k v @ s) = Some (v, s)"
    and "white nl gap \<Longrightarrow> vs \<noteq> [] \<Longrightarrow> list_all json_ok vs \<Longrightarrow> length (text_items nl gap k vs) < n \<Longrightarrow>
      list_all json_space ws \<Longrightarrow> load_more n (text_items nl gap k vs @ ws @ CHR '']'' # s) = Some (vs, s)"
    and "white nl gap \<Longrightarrow> d \<noteq> [] \<Longrightarrow> list_all (\<lambda>kv. json_ok (snd kv)) d \<Longrightarrow> length (text_fields nl gap k d) < n \<Longrightarrow>
      list_all json_space ws \<Longrightarrow> load_pairs n (text_fields nl gap k d @ ws @ CHR ''}'' # s) = Some (d, s)"
proof (induction nl gap k v and nl gap k vs and nl gap k d arbitrary: n s and n s ws and n s ws
    rule: json_text_text_items_text_fields.induct)
  case (1 nl gap k)
  then obtain m where "n = Suc m" by (cases n) auto
  then show ?case using load_word(1) [of s] by (simp add: load_value_scalar)
next
  case (2 nl gap k b)
  then obtain m where "n = Suc m" by (cases n) (auto split: if_splits)
  then show ?case using load_word(2,3) [of s] by (simp add: load_value_scalar)
next
  case (3 nl gap k a)
  obtain c t where c: "dump_num a = c # t" "num_head c" using 3(2) dump_num_head [of a] by auto
  then obtain m where "n = Suc m" using 3(3) by (cases n) auto
  then show ?case using c num_head [OF c(2)] load_number [of a s] 3 by (simp add: load_value_scalar)
next
  case (4 nl gap k t)
  then obtain m where "n = Suc m" by (cases n) (auto simp: dump_string_def)
  then show ?case by (simp add: dump_string_def load_string)
next
  case (5 nl gap k vs)
  then obtain m where m: "n = Suc m" by (cases n) auto
  show ?case
  proof (cases vs)
    case Nil
    then show ?thesis using m by simp
  next
    case (Cons u us)
    then have u: "json_ok u" using 5(3) by simp
    obtain r where r: "text_items nl gap (Suc k) vs = json_text nl gap (Suc k) u @ r"
      using text_items_Cons Cons by blast
    have "list_all json_space (nl k)" using 5(2) by (simp add: white_def)
    then have "load_more m (text_items nl gap (Suc k) vs @ nl k @ CHR '']'' # s) = Some (vs, s)"
      using 5 m Cons by auto
    then show ?thesis using m Cons past_text [OF u] skip_text [OF u] r skip_nl [OF 5(2)] by simp
  qed
next
  case (6 nl gap k d)
  then obtain m where m: "n = Suc m" by (cases n) auto
  show ?case
  proof (cases d)
    case Nil
    then show ?thesis using m by simp
  next
    case (Cons e es)
    obtain r where r: "text_fields nl gap (Suc k) d = CHR 0x22 # r" using text_fields_Cons Cons by blast
    have "list_all json_space (nl k)" using 6(2) by (simp add: white_def)
    then have "load_pairs m (text_fields nl gap (Suc k) d @ nl k @ CHR ''}'' # s) = Some (d, s)"
      using 6 m Cons by auto
    moreover have "distinct (map fst d)" using 6 by simp
    ultimately show ?thesis using m Cons r skip_nl [OF 6(2)] by simp
  qed
next
  case (8 nl gap k v)
  then obtain m where m: "n = Suc m" by (cases n) auto
  have "load_value m (json_text nl gap k v @ ws @ CHR '']'' # s) = Some (v, ws @ CHR '']'' # s)"
    using 8 m by (auto simp: delim_white)
  then show ?case using m 8 by (simp add: skip_white)
next
  case (9 nl gap k v u vs)
  then obtain m where m: "n = Suc m" by (cases n) auto
  let ?r = "text_items nl gap k (u # vs) @ ws @ CHR '']'' # s"
  have "load_value m (json_text nl gap k v @ CHR '','' # nl k @ ?r) = Some (v, CHR '','' # nl k @ ?r)"
    using 9 m by auto
  moreover have "load_more m ?r = Some (u # vs, s)" using 9 m by auto
  moreover obtain r where "text_items nl gap k (u # vs) = json_text nl gap k u @ r" using text_items_Cons by blast
  ultimately show ?case using m skip_text [of u] skip_nl [OF 9(3)] 9(5) by simp
next
  case (11 nl gap kk k v)
  then obtain m where m: "n = Suc m" by (cases n) auto
  have "load_value m (json_text nl gap kk v @ ws @ CHR ''}'' # s) = Some (v, ws @ CHR ''}'' # s)"
    using 11 m by (auto simp: delim_white)
  then show ?case
    using m skip_text [of v] skip_nl [OF 11(2)] 11 by (simp add: dump_string_def load_string skip_white)
next
  case (12 nl gap kk k v e d)
  then obtain m where m: "n = Suc m" by (cases n) auto
  let ?r = "text_fields nl gap kk (e # d) @ ws @ CHR ''}'' # s"
  have "load_value m (json_text nl gap kk v @ CHR '','' # nl kk @ ?r) = Some (v, CHR '','' # nl kk @ ?r)"
    using 12 m by auto
  moreover have "load_pairs m ?r = Some (e # d, s)" using 12 m by auto
  moreover obtain r where "text_fields nl gap kk (e # d) = CHR 0x22 # r" using text_fields_Cons by blast
  ultimately show ?case
    using m skip_text [of v] skip_nl [OF 12(3)] 12(5) by (simp add: dump_string_def load_string)
qed simp_all

lemma loads_text: "white nl gap \<Longrightarrow> json_ok v \<Longrightarrow> json_loads (json_text nl gap n v) = Inr v"
  using load_text(1) [of nl gap v n "Suc (length (json_text nl gap n v))" "[]"] skip_text [of v nl gap n "[]"]
  by (simp add: json_loads_def skip_space_def)

lemma loads_dumps: "json_ok v \<Longrightarrow> json_loads (json_dumps v) = Inr v"
  unfolding json_dumps_def by (rule loads_text) (simp add: white_def)

lemma loads_pretty: "json_ok v \<Longrightarrow> json_loads (json_pretty v) = Inr v"
  unfolding json_pretty_def by (rule loads_text) (simp add: white_def json_space_def list_all_iff)

end
