(* ===== verification/JsonLines.thy ===== *)
theory JsonLines
  imports JsonValues
begin

text \<open>The text \<open>json.dumps\<close> makes without indentation is one line of printable ASCII, whatever it encodes.\<close>

section \<open>JSON text is printable\<close>

definition printable :: "char \<Rightarrow> bool" where
  "printable c \<longleftrightarrow> 32 \<le> codepoint c \<and> codepoint c \<le> 126"

lemma printable_digit: "is_digit c \<Longrightarrow> printable c"
  by (auto simp: is_digit_def printable_def codepoint_def)

lemma printable_digits: "list_all is_digit ds \<Longrightarrow> list_all printable ds"
  by (auto simp: list_all_iff printable_digit)

lemma printable_int: "list_all printable (show_int n)"
  using printable_digits [OF show_nat_digits] by (simp add: show_int_def printable_def codepoint_def)

lemma printable_parts: "float_parts t \<Longrightarrow> list_all printable t"
  by (auto simp: float_parts_def int_part_def frac_part_def exp_part_def printable_digits)
    (auto simp: printable_def codepoint_def)

lemma printable_float:
  assumes "float_ok (Fin x)"
  shows "list_all printable (float_repr (Fin x))"
proof -
  consider "x = 0" | "x < 0" | "0 < x" by linarith
  then show ?thesis
  proof cases
    case 2
    have "float_ok (Fin (- x))" using assms by (simp add: rnd_minus)
    with 2 show ?thesis using printable_parts [OF repr_pos_parts, of "- x"] by (simp add: printable_def codepoint_def)
  next
    case 3
    with assms show ?thesis using printable_parts [OF repr_pos_parts, of x] by simp
  qed (simp add: printable_def codepoint_def)
qed

lemma printable_num: "num_ok a \<Longrightarrow> list_all printable (dump_num a)"
proof (induction a rule: dump_num.induct)
  case (1 n)
  then show ?case by (simp add: printable_int)
next
  case (2 x)
  then show ?case
    using printable_float
    by (cases x) (auto simp del: float_repr.simps float_ok.simps, simp_all add: printable_def codepoint_def)
qed

lemma printable_hex: "n < 16 \<Longrightarrow> printable (hex_digit n)"
  by (auto simp: hex_digit_def printable_def codepoint_def of_char_of)

lemma printable_escape: "list_all printable (escape c)"
proof -
  have "codepoint c div 16 < 16" using codepoint_less [of c] by linarith
  then have "printable (hex_digit (codepoint c div 16))" "printable (hex_digit (codepoint c mod 16))"
    by (simp_all add: printable_hex)
  moreover have "list_all printable [CHR 0x5C, CHR 0x22, CHR ''n'', CHR ''r'', CHR ''t'', CHR ''f'', CHR ''b'', CHR ''u'', CHR ''0'']"
    by (simp add: printable_def codepoint_def)
  moreover have "\<not> (codepoint c < 32 \<or> 126 < codepoint c) \<Longrightarrow> printable c" by (simp add: printable_def)
  ultimately show ?thesis by (simp add: escape_def)
qed

lemma printable_string: "list_all printable (dump_string s)"
proof -
  have "list_all printable (concat (map escape s))" by (induction s) (auto simp: printable_escape)
  then show ?thesis by (simp add: dump_string_def printable_def codepoint_def)
qed

lemma printable_text:
  shows "\<forall>n. list_all printable (nl n) \<Longrightarrow> list_all printable gap \<Longrightarrow> json_ok v \<Longrightarrow>
      list_all printable (json_text nl gap k v)"
    and "\<forall>n. list_all printable (nl n) \<Longrightarrow> list_all printable gap \<Longrightarrow> list_all json_ok vs \<Longrightarrow>
      list_all printable (text_items nl gap k vs)"
    and "\<forall>n. list_all printable (nl n) \<Longrightarrow> list_all printable gap \<Longrightarrow> list_all (\<lambda>kv. json_ok (snd kv)) d \<Longrightarrow>
      list_all printable (text_fields nl gap k d)"
  by (induction nl gap k v and nl gap k vs and nl gap k d rule: json_text_text_items_text_fields.induct)
    (simp_all add: printable_num printable_string, simp_all add: printable_def codepoint_def)

lemma one_line_dumps: "json_ok v \<Longrightarrow> one_line (json_dumps v)"
  using printable_text(1) [of "\<lambda>n. []" "[]" v 0]
  by (auto simp: json_dumps_def one_line_def list_all_iff printable_def codepoint_def is_boundary_def)

end
