(* ===== verification/BenchHarvest.thy ===== *)
theory BenchHarvest
  imports JsonLines
begin

text \<open>
  \<open>harvest_scoring_samples\<close> of \<^verbatim>\<open>bench/run_loadtest.py\<close>: the samples in the text of
  \<open>docker compose logs\<close>. The text \<open>json.dumps\<close> makes is one line of printable characters, so whatever
  else is in the log, every printed sample is found and nothing else is.
\<close>

section \<open>The code\<close>

definition harvest_line :: "string \<Rightarrow> dict list" where
  "harvest_line line =
     (let line = strip line
      in if \<not> starts_with ''{'' line then []
         else (case json_loads line of
                 Inr (JObj sample) \<Rightarrow> if ''tps'' \<in> fst ` set sample then [sample] else []
               | _ \<Rightarrow> []))"

definition samples_in :: "string \<Rightarrow> dict list" where
  "samples_in stdout = concat (map harvest_line (splitlines stdout))"

section \<open>A sample's line\<close>

lemma dumps_object: "\<exists>t. json_dumps (JObj d) = CHR ''{'' # t @ ''}''"
  by (simp add: json_dumps_def)

lemma strip_object: "strip (json_dumps (JObj d)) = json_dumps (JObj d)"
proof -
  obtain t where "json_dumps (JObj d) = CHR ''{'' # t @ ''}''" using dumps_object by blast
  then show ?thesis by (intro strip_trim) (simp_all add: is_white_def)
qed

section \<open>What is harvested\<close>

text \<open>A log: lines printed for a sample, and lines of anything else.\<close>

definition log_line :: "dict + string \<Rightarrow> string" where
  "log_line l = (case l of Inl d \<Rightarrow> json_dumps (JObj d) | Inr s \<Rightarrow> s) @ [CHR 0x0A]"

definition log_text :: "(dict + string) list \<Rightarrow> string" where
  "log_text ls = concat (map log_line ls)"

definition clean_line :: "dict + string \<Rightarrow> bool" where
  "clean_line l \<longleftrightarrow>
     (case l of
        Inl d \<Rightarrow> json_ok (JObj d) \<and> ''tps'' \<in> fst ` set d
      | Inr s \<Rightarrow> one_line s \<and> \<not> starts_with ''{'' (strip s))"

definition logged_samples :: "(dict + string) list \<Rightarrow> dict list" where
  "logged_samples ls = concat (map (\<lambda>l. case l of Inl d \<Rightarrow> [d] | Inr s \<Rightarrow> []) ls)"

lemma harvest_sample: "json_ok (JObj d) \<Longrightarrow> ''tps'' \<in> fst ` set d \<Longrightarrow> harvest_line (json_dumps (JObj d)) = [d]"
proof -
  assume d: "json_ok (JObj d)" "''tps'' \<in> fst ` set d"
  have "starts_with ''{'' (json_dumps (JObj d))" using dumps_object [of d] by (auto simp: starts_with_def)
  with d show ?thesis unfolding harvest_line_def Let_def strip_object loads_dumps [OF d(1)] by simp
qed

lemma splitlines_log: "list_all clean_line ls \<Longrightarrow>
    splitlines (log_text ls) = map (\<lambda>l. case l of Inl d \<Rightarrow> json_dumps (JObj d) | Inr s \<Rightarrow> s) ls"
proof -
  assume "list_all clean_line ls"
  then have "lines_from [] (log_text ls) = map (\<lambda>l. case l of Inl d \<Rightarrow> json_dumps (JObj d) | Inr s \<Rightarrow> s) ls"
  proof (induction ls)
    case (Cons l ls)
    then have "one_line (case l of Inl d \<Rightarrow> json_dumps (JObj d) | Inr s \<Rightarrow> s)"
      by (auto simp: clean_line_def one_line_dumps simp del: json_ok.simps split: sum.splits)
    from lines_from_line [OF this, of "[]" "log_text ls"] Cons show ?case
      by (simp add: log_text_def log_line_def)
  qed (simp add: log_text_def)
  then show ?thesis by (simp add: splitlines_def)
qed

lemma harvest_log: "list_all clean_line ls \<Longrightarrow> samples_in (log_text ls) = logged_samples ls"
proof -
  assume a: "list_all clean_line ls"
  have "harvest_line (case l of Inl d \<Rightarrow> json_dumps (JObj d) | Inr s \<Rightarrow> s) =
      (case l of Inl d \<Rightarrow> [d] | Inr s \<Rightarrow> [])" if "clean_line l" for l
    using that harvest_sample
    by (cases l) (auto simp: clean_line_def harvest_line_def Let_def simp del: json_ok.simps)
  with a have "map (harvest_line \<circ> (\<lambda>l. case l of Inl d \<Rightarrow> json_dumps (JObj d) | Inr s \<Rightarrow> s)) ls =
      map (\<lambda>l. case l of Inl d \<Rightarrow> [d] | Inr s \<Rightarrow> []) ls"
    by (intro map_cong refl) (simp add: list_all_iff)
  then show ?thesis
    unfolding samples_in_def splitlines_log [OF a] logged_samples_def map_map by (rule arg_cong)
qed

end
