(* ===== verification/BenchStats.thy ===== *)
theory BenchStats
  imports ScoringWorker PyText "HOL-Library.Multiset"
begin

text \<open>
  The statistics of \<^verbatim>\<open>bench/run_loadtest.py\<close>: \<open>statistics.median\<close>, \<open>summarize\<close> over the JSON
  samples of one run and \<open>aggregate\<close> over the summaries of the runs. Samples and summaries are dicts
  of JSON values, as in the code; a value of the wrong type raises TypeError where Python does.
  Values that compare equal but print differently (a number and a boolean) are read as numbers, and
  no sample holds a NaN.
\<close>

section \<open>Numbers\<close>

text \<open>A stable insertion sort by \<open><\<close>, which is what \<open>sorted\<close> yields on numbers.\<close>

fun insert_num :: "pynum \<Rightarrow> pynum list \<Rightarrow> pynum list" where
  "insert_num x [] = [x]"
| "insert_num x (y # ys) = (if num_lt x y then x # y # ys else y # insert_num x ys)"

definition sort_num :: "pynum list \<Rightarrow> pynum list" where
  "sort_num xs = fold insert_num xs []"

definition median :: "pynum list \<Rightarrow> pynum result" where
  "median xs =
     (let data = sort_num xs; n = length data
      in if n = 0 then Inl StatisticsError
         else if n mod 2 = 1 then Inr (data ! (n div 2))
         else rbind (num_add (data ! (n div 2 - 1)) (data ! (n div 2))) (\<lambda>s. num_truediv s (PyI 2)))"

fun num_max :: "pynum list \<Rightarrow> pynum result" where
  "num_max [] = Inl ValueError"
| "num_max (x # xs) = Inr (foldl num_max2 x xs)"

fun num_min :: "pynum list \<Rightarrow> pynum result" where
  "num_min [] = Inl ValueError"
| "num_min (x # xs) = Inr (foldl num_min2 x xs)"

fun num_truth :: "pynum \<Rightarrow> bool" where
  "num_truth (PyI n) = (n \<noteq> 0)"
| "num_truth (PyF x) = (x \<noteq> Fin 0)"

text \<open>The numeric reading of a JSON value; \<open>bool\<close> is a subclass of \<open>int\<close>.\<close>

fun json_num :: "json \<Rightarrow> pynum option" where
  "json_num (JNum n) = Some n"
| "json_num (JBool b) = Some (PyI (if b then 1 else 0))"
| "json_num _ = None"

definition json_number :: "json \<Rightarrow> pynum result" where
  "json_number j = (case json_num j of Some n \<Rightarrow> Inr n | None \<Rightarrow> Inl TypeError)"

fun num_sub :: "pynum \<Rightarrow> pynum \<Rightarrow> pynum result" where
  "num_sub (PyI a) (PyI b) = Inr (PyI (a - b))"
| "num_sub a b = rbind (num_float a) (\<lambda>x. rbind (num_float b) (\<lambda>y. Inr (PyF (fsub x y))))"

section \<open>One run\<close>

definition WARMUP_FRACTION :: pyfloat where
  "WARMUP_FRACTION = Fin (1 / 4)"

definition error_summary :: "string \<Rightarrow> string \<Rightarrow> nat \<Rightarrow> dict" where
  "error_summary msg key n = [(''error'', JStr msg), (key, JInt (int n))]"

text \<open>\<open>s.get("tps", 0) > 0\<close>\<close>

definition bears_load :: "dict \<Rightarrow> bool result" where
  "bears_load s = rbind (json_number (dict_get s ''tps'' (JInt 0))) (\<lambda>n. Inr (num_lt (PyI 0) n))"

fun select_load :: "dict list \<Rightarrow> dict list result" where
  "select_load [] = Inr []"
| "select_load (s # ss) =
     rbind (bears_load s) (\<lambda>b. rbind (select_load ss) (\<lambda>rest. Inr (if b then s # rest else rest)))"

definition warmup_count :: "nat \<Rightarrow> nat result" where
  "warmup_count n =
     rbind (num_mul (PyI (int n)) (PyF WARMUP_FRACTION)) (\<lambda>x. rbind (num_int x) (\<lambda>k. Inr (nat k)))"

definition field_values :: "string \<Rightarrow> dict list \<Rightarrow> pynum list" where
  "field_values name ss = List.map_filter (\<lambda>s. json_num (dict_get s name JNull)) ss"

definition median_or_0 :: "pynum list \<Rightarrow> pynum result" where
  "median_or_0 xs = (if xs = [] then Inr (PyI 0) else median xs)"

definition peak_or_0 :: "pynum list \<Rightarrow> pynum result" where
  "peak_or_0 xs = (if xs = [] then Inr (PyI 0) else rbind (num_max xs) (\<lambda>m. Inr (num_round 2 m)))"

text \<open>
  \<open>violations[0] if violations else "PASSED"\<close> over \<open>sorted({...} - {"PASSED", None})\<close>: a list or an
  object is not hashable, a string and a number do not compare.
\<close>

fun unhashable :: "json \<Rightarrow> bool" where
  "unhashable (JList _) = True"
| "unhashable (JObj _) = True"
| "unhashable _ = False"

fun json_text :: "json \<Rightarrow> string option" where
  "json_text (JStr s) = Some s"
| "json_text _ = None"

definition first_violation :: "json list \<Rightarrow> json result" where
  "first_violation cs =
     (let vs = filter (\<lambda>c. c \<noteq> JStr ''PASSED'' \<and> c \<noteq> JNull) cs;
          texts = List.map_filter json_text vs; nums = List.map_filter json_num vs
      in if \<exists>c \<in> set cs. unhashable c then Inl TypeError
         else if vs = [] then Inr (JStr ''PASSED'')
         else if length texts = length vs then Inr (JStr (foldl min (hd texts) (tl texts)))
         else if length nums = length vs then rbind (num_min nums) (\<lambda>n. Inr (JNum n))
         else Inl TypeError)"

definition steady_score :: "pynum \<Rightarrow> pynum \<Rightarrow> pynum result" where
  "steady_score med_tps med_p99 =
     (if num_truth med_tps then num_truediv med_tps (num_max2 med_p99 (PyF (to_f64 (1 / 10))))
      else Inr (PyI 0))"

text \<open>The fleet's totals as a dict, a counter that was never read being absent.\<close>

definition summarize :: "dict list \<Rightarrow> pyfloat list \<Rightarrow> dict \<Rightarrow> dict result" where
  "summarize harvest fleet_ops fleet_totals =
     (if harvest = [] then Inr (error_summary ''no scoring samples captured'' ''sample_count'' 0)
      else
        rbind (select_load harvest) (\<lambda>under_load.
        if under_load = []
        then Inr (error_summary ''no samples recorded any throughput'' ''sample_count'' (length harvest))
        else
          rbind (warmup_count (length under_load)) (\<lambda>warmup.
          let steady = (if drop warmup under_load = [] then under_load else drop warmup under_load);
              tps = field_values ''tps'' steady; p50 = field_values ''p50_lat_us'' steady;
              p90 = field_values ''p90_lat_us'' steady; p99 = field_values ''p99_lat_us'' steady
          in
            rbind (median_or_0 tps) (\<lambda>med_tps.
            rbind (median_or_0 p99) (\<lambda>med_p99.
            rbind (steady_score med_tps med_p99) (\<lambda>score.
            rbind (first_violation (map (\<lambda>s. dict_get s ''correctness'' JNull) harvest)) (\<lambda>violation.
            rbind (rmap_list (\<lambda>s. json_number (dict_get s ''total_events'' (JInt 0))) harvest) (\<lambda>totals.
            rbind (num_min totals) (\<lambda>backlog.
            rbind (peak_or_0 tps) (\<lambda>peak.
            rbind (median_or_0 p50) (\<lambda>med_p50.
            rbind (median_or_0 p90) (\<lambda>med_p90.
            rbind (peak_or_0 p99) (\<lambda>worst.
            rbind (num_max totals) (\<lambda>most.
            rbind (num_sub most backlog) (\<lambda>trades.
            rbind (median_or_0 (map PyF fleet_ops)) (\<lambda>ops.
              Inr [(''sample_count'', JInt (int (length harvest))),
                   (''under_load_sample_count'', JInt (int (length under_load))),
                   (''idle_samples_excluded'', JInt (int (length harvest) - int (length under_load))),
                   (''steady_state_sample_count'', JInt (int (length steady))),
                   (''scoring_backlog_at_start'', JNum backlog),
                   (''engine_tps_median'', JNum (num_round 2 med_tps)),
                   (''engine_tps_peak'', JNum peak),
                   (''p50_lat_us'', JNum (num_round 2 med_p50)),
                   (''p90_lat_us'', JNum (num_round 2 med_p90)),
                   (''p99_lat_us'', JNum (num_round 2 med_p99)),
                   (''p99_worst_us'', JNum worst),
                   (''correctness'', violation),
                   (''trade_events_this_run'', JNum trades),
                   (''steady_state_score'', JNum (num_round 4 score)),
                   (''fleet_send_ops_median'', JNum (num_round 2 ops)),
                   (''fleet_orders_sent'', dict_get fleet_totals ''sent'' (JInt 0)),
                   (''fleet_drops'', dict_get fleet_totals ''drops'' (JInt 0)),
                   (''fleet_fails'', dict_get fleet_totals ''fails'' (JInt 0))]))))))))))))))))"

section \<open>All runs\<close>

definition AGGREGATED :: "(string \<times> string) list" where
  "AGGREGATED =
     [(''engine_tps_median'', ''Engine throughput (trades/s)''),
      (''engine_tps_peak'', ''Engine throughput peak (trades/s)''),
      (''p50_lat_us'', ''P50 latency (us)''), (''p90_lat_us'', ''P90 latency (us)''),
      (''p99_lat_us'', ''P99 latency (us)''), (''p99_worst_us'', ''P99 worst sample (us)''),
      (''fleet_send_ops_median'', ''Fleet send rate (orders/s)''),
      (''trade_events_this_run'', ''Trade events per run'')]"

definition failed_run :: "dict \<Rightarrow> bool" where
  "failed_run r \<longleftrightarrow> map_of r ''error'' \<noteq> None"

definition spread_ratio :: "pynum \<Rightarrow> pynum \<Rightarrow> json result" where
  "spread_ratio low high =
     (if num_lt (PyI 0) low then rbind (num_truediv high low) (\<lambda>r. Inr (JNum (num_round 2 r))) else Inr JNull)"

definition stat_of :: "pynum list \<Rightarrow> dict result" where
  "stat_of values =
     rbind (num_min values) (\<lambda>low. rbind (num_max values) (\<lambda>high. rbind (median values) (\<lambda>med.
     rbind (spread_ratio low high) (\<lambda>spread.
       Inr [(''min'', JNum (num_round 2 low)), (''median'', JNum (num_round 2 med)),
            (''max'', JNum (num_round 2 high)), (''spread_ratio'', spread)]))))"

fun stats_of :: "dict list \<Rightarrow> string list \<Rightarrow> dict result" where
  "stats_of good [] = Inr []"
| "stats_of good (key # keys) =
     (let values = field_values key good
      in if values = [] then stats_of good keys
         else rbind (stat_of values) (\<lambda>d. rbind (stats_of good keys) (\<lambda>ds. Inr ((key, JObj d) # ds))))"

fun num_sum :: "pynum \<Rightarrow> pynum list \<Rightarrow> pynum result" where
  "num_sum acc [] = Inr acc"
| "num_sum acc (x # xs) = rbind (num_add acc x) (\<lambda>a. num_sum a xs)"

definition sum_field :: "string \<Rightarrow> dict list \<Rightarrow> pynum result" where
  "sum_field key rs =
     rbind (rmap_list (\<lambda>r. json_number (dict_get r key (JInt 0))) rs) (num_sum (PyI 0))"

definition aggregate :: "dict list \<Rightarrow> dict result" where
  "aggregate runs =
     (let good = filter (\<lambda>r. \<not> failed_run r) runs
      in if good = []
         then Inr [(''error'', JStr ''every run failed''), (''runs'', JInt (int (length runs)))]
         else
           rbind (stats_of good (map fst AGGREGATED)) (\<lambda>stats.
           rbind (first_violation (map (\<lambda>r. dict_get r ''correctness'' JNull) good)) (\<lambda>violation.
           rbind (sum_field ''fleet_drops'' good) (\<lambda>drops.
           rbind (sum_field ''fleet_fails'' good) (\<lambda>fails.
             Inr [(''runs_completed'', JInt (int (length good))),
                  (''runs_attempted'', JInt (int (length runs))),
                  (''correctness'', violation),
                  (''total_fleet_drops'', JNum drops),
                  (''total_fleet_fails'', JNum fails),
                  (''metrics'', JObj stats)])))))"

section \<open>Order on numbers\<close>

text \<open>Numbers whose arithmetic neither overflows nor loses an integer.\<close>

fun tame :: "pynum \<Rightarrow> bool" where
  "tame (PyI n) \<longleftrightarrow> \<bar>n\<bar> \<le> 2 ^ 53"
| "tame (PyF (Fin x)) \<longleftrightarrow> float_ok (Fin x) \<and> \<bar>x\<bar> \<le> 2 ^ 1000"
| "tame (PyF _) \<longleftrightarrow> False"

fun num_val :: "pynum \<Rightarrow> rat" where
  "num_val (PyI n) = of_int n"
| "num_val (PyF (Fin x)) = x"
| "num_val (PyF _) = 0"

lemma tame_exact: "tame a \<Longrightarrow> num_exact a = Fin (num_val a) \<and> num_float a = Inr (Fin (num_val a)) \<and>
    float_ok (Fin (num_val a))"
  by (cases a rule: tame.cases) (auto simp: to_f64_of_int float_ok_of_int simp del: float_ok.simps)

lemma tame_order: "tame a \<Longrightarrow> tame b \<Longrightarrow>
    (num_lt a b \<longleftrightarrow> num_val a < num_val b) \<and> (num_le a b \<longleftrightarrow> num_val a \<le> num_val b)"
  by (simp add: num_lt_def num_le_def tame_exact)

lemma tame_round: "tame a \<Longrightarrow> num_exact (num_round n a) = fround n (num_exact a)"
  using dec_round_of_int [of n] to_f64_of_int by (cases a rule: tame.cases) auto

lemma num_round_le: "tame a \<Longrightarrow> tame b \<Longrightarrow> num_le a b \<Longrightarrow> num_le (num_round n a) (num_round n b)"
  by (simp add: num_le_def tame_round fround_mono)

lemma insert_num_mset: "mset (insert_num x ys) = add_mset x (mset ys)"
  by (induction ys) auto

lemma sort_num_mset: "mset (sort_num xs) = mset xs"
proof -
  have "mset (fold insert_num xs ys) = mset xs + mset ys" for ys
    by (induction xs arbitrary: ys) (simp_all add: insert_num_mset)
  then show ?thesis by (simp add: sort_num_def)
qed

lemma sort_num_set [simp]: "set (sort_num xs) = set xs" "length (sort_num xs) = length xs"
  using sort_num_mset [of xs] by (metis set_mset_mset, metis size_mset)

lemma sort_num_Nil [simp]: "sort_num xs = [] \<longleftrightarrow> xs = []"
  using sort_num_set(2) [of xs] by (metis length_0_conv)

lemma insert_num_sorted:
  "list_all tame (x # ys) \<Longrightarrow> sorted (map num_val ys) \<Longrightarrow> sorted (map num_val (insert_num x ys))"
proof (induction ys)
  case (Cons y ys)
  have "set (insert_num x ys) = insert x (set ys)" using insert_num_mset [of x ys]
    by (metis set_mset_add_mset_insert set_mset_mset)
  with Cons tame_order [of x y] show ?case by (auto simp: list_all_iff)
qed simp

lemma sort_num_sorted: "list_all tame xs \<Longrightarrow> sorted (map num_val (sort_num xs))"
proof -
  have "list_all tame xs \<Longrightarrow> list_all tame ys \<Longrightarrow> sorted (map num_val ys) \<Longrightarrow>
      sorted (map num_val (fold insert_num xs ys))" for ys
  proof (induction xs arbitrary: ys)
    case (Cons x xs)
    have "set (insert_num x ys) = insert x (set ys)" using insert_num_mset [of x ys]
      by (metis set_mset_add_mset_insert set_mset_mset)
    with Cons insert_num_sorted [of x ys] show ?case by (simp add: list_all_iff)
  qed simp
  then show "list_all tame xs \<Longrightarrow> sorted (map num_val (sort_num xs))" by (simp add: sort_num_def)
qed

lemma float_ok_double: "float_ok (Fin x) \<Longrightarrow> \<bar>x\<bar> \<le> 2 ^ 1000 \<Longrightarrow> float_ok (Fin (2 * x))"
proof -
  have dbl: "rnd (2 * y) = 2 * y" if y: "rnd y = y" "0 \<le> y" "y < f64_limit" for y
  proof -
    define e f where "e = mag_bits y div 2 ^ 52" and "f = mag_bits y mod 2 ^ 52"
    have b: "mag_of_bits e f = y" "0 \<le> e" "0 \<le> f" "f < 2 ^ 52"
      using mag_bits_fields [OF y] by (simp_all add: e_def f_def)
    define m q where "m = (if e = 0 then f else 2 ^ 52 + f)" and "q = (if e = 0 then - 1074 else e - 1075)"
    have yq: "y = of_int m * 2 powi q" unfolding b(1) [symmetric] mag_of_bits_def m_def q_def
      by (cases "e = 0") (simp_all only: if_True if_False simp_thms)
    then have "2 * y = of_int m * 2 powi (q + 1)" by (simp add: power_int_add)
    moreover have "0 \<le> m" "m < 2 ^ 53" "- 1074 \<le> q + 1" using b by (auto simp: m_def q_def)
    ultimately have "rnd_mag (2 * y) = 2 * y" by (intro rnd_mag_exact)
    then show ?thesis using y(2) by (simp add: rnd_def)
  qed
  assume x: "float_ok (Fin x)" "\<bar>x\<bar> \<le> 2 ^ 1000"
  then have "rnd \<bar>x\<bar> = \<bar>x\<bar>" "\<bar>x\<bar> < f64_limit" by (auto simp: abs_if rnd_minus)
  from dbl [OF this(1) _ this(2)] have "rnd (2 * x) = 2 * x"
    by (cases "0 \<le> x") (auto simp: abs_if rnd_minus)
  moreover have "(2 :: rat) * 2 ^ 1000 < 2 ^ 1024" by simp
  ultimately show ?thesis using x(2) by (simp add: f64_limit_def abs_le_iff abs_less_iff)
qed

section \<open>The median lies between\<close>

lemma mean_between:
  assumes "tame a" "tame b" "num_le a b"
  shows "\<exists>m. rbind (num_add a b) (\<lambda>s. num_truediv s (PyI 2)) = Inr m \<and> num_le a m \<and> num_le m b \<and>
      (\<exists>x. num_exact m = Fin x) \<and> (tame m)"
proof -
  let ?x = "num_val a" and ?y = "num_val b"
  note ta = tame_exact [OF assms(1)] and tb = tame_exact [OF assms(2)]
  have le: "?x \<le> ?y" using assms by (simp add: tame_order)
  have half: "\<exists>h. to_f64 z = Fin h \<and> ?x \<le> h \<and> h \<le> ?y" if "?x \<le> z" "z \<le> ?y" for z
    using to_f64_ge_ok [of ?x z] to_f64_le_ok [of ?y z] ta tb that by (cases "to_f64 z") auto
  have bounds: "\<bar>?x\<bar> \<le> 2 ^ 1000" "\<bar>?y\<bar> \<le> 2 ^ 1000"
  proof -
    have "\<bar>num_val c\<bar> \<le> 2 ^ 1000" if "tame c" for c
    proof (cases c rule: tame.cases)
      case (1 n)
      then have "\<bar>n\<bar> \<le> 2 ^ 53" using that by simp
      then have "\<bar>of_int n :: rat\<bar> \<le> 2 ^ 53" by (metis of_int_abs of_int_le_iff of_int_numeral of_int_power)
      also have "\<dots> \<le> 2 ^ 1000" by (intro power_increasing) simp_all
      finally show ?thesis using 1 by simp
    qed (use that in auto)
    with assms show "\<bar>?x\<bar> \<le> 2 ^ 1000" "\<bar>?y\<bar> \<le> 2 ^ 1000" by blast+
  qed
  have tame_mean: "tame (PyF (Fin h))" if "?x \<le> h" "h \<le> ?y" "float_ok (Fin h)" for h
    using that bounds by (auto simp: abs_le_iff simp del: float_ok.simps)
  have flt: "\<exists>h. rbind (Inr (PyF (fadd (Fin ?x) (Fin ?y)))) (\<lambda>s. num_truediv s (PyI 2)) = Inr (PyF (Fin h)) \<and>
      ?x \<le> h \<and> h \<le> ?y \<and> float_ok (Fin h)"
  proof -
    have "float_ok (Fin (2 * ?x))" "float_ok (Fin (2 * ?y))"
      using ta tb bounds by (simp_all add: float_ok_double del: float_ok.simps)
    then obtain s where s: "to_f64 (?x + ?y) = Fin s" "2 * ?x \<le> s" "s \<le> 2 * ?y"
      using to_f64_ge_ok [of "2 * ?x" "?x + ?y"] to_f64_le_ok [of "2 * ?y" "?x + ?y"] le
      by (cases "to_f64 (?x + ?y)") auto
    then obtain h where h: "to_f64 (s / 2) = Fin h" "?x \<le> h" "h \<le> ?y" using half [of "s / 2"] by auto
    have "to_f64 2 = Fin 2" using to_f64_of_int [of 2] by simp
    with s h float_ok_to_f64 [of "s / 2"] show ?thesis by (auto simp del: float_ok.simps)
  qed
  have order: "num_le a (PyF (Fin h)) \<and> num_le (PyF (Fin h)) b" if "?x \<le> h" "h \<le> ?y" for h
    using that ta tb by (simp add: num_le_def)
  show ?thesis
  proof (cases "\<exists>i j. a = PyI i \<and> b = PyI j")
    case True
    then obtain i j where ij: "a = PyI i" "b = PyI j" by blast
    obtain h where h: "to_f64 (of_int (i + j) / 2) = Fin h" "?x \<le> h" "h \<le> ?y"
      using half [of "of_int (i + j) / 2"] le ij by auto
    have "float_ok (Fin h)" using float_ok_to_f64 [of "of_int (i + j) / 2"] unfolding h(1) .
    with h ij order [OF h(2,3)] tame_mean [OF h(2,3)] show ?thesis
      by (auto simp del: float_ok.simps)
  next
    case False
    then have "num_add a b = Inr (PyF (fadd (Fin ?x) (Fin ?y)))"
      using ta tb by (cases "(a, b)" rule: num_add.cases) auto
    with flt order tame_mean show ?thesis by fastforce
  qed
qed

lemma median_between:
  assumes "list_all tame xs" "xs \<noteq> []"
  shows "\<exists>m. median xs = Inr m \<and> tame m \<and> (\<exists>x \<in> set xs. num_le x m) \<and> (\<exists>y \<in> set xs. num_le m y)"
proof -
  let ?d = "sort_num xs" and ?n = "length xs"
  have t: "tame (?d ! i) \<and> ?d ! i \<in> set xs" if "i < ?n" for i
    using nth_mem [of i ?d] that assms(1) by (auto simp: list_all_iff)
  have n: "0 < ?n" using assms(2) by simp
  show ?thesis
  proof (cases "?n mod 2 = 1")
    case True
    from t [of "?n div 2"] n have "tame (?d ! (?n div 2))" "?d ! (?n div 2) \<in> set xs" by simp_all
    moreover have "num_le (?d ! (?n div 2)) (?d ! (?n div 2))"
      using tame_order [of "?d ! (?n div 2)" "?d ! (?n div 2)"] calculation(1) by simp
    ultimately show ?thesis using True n by (auto simp: median_def Let_def)
  next
    case False
    let ?i = "?n div 2 - 1" and ?j = "?n div 2"
    have ij: "?i < ?n" "?j < ?n" "?i \<le> ?j" using n by presburger+
    have "num_val (?d ! ?i) \<le> num_val (?d ! ?j)"
      using sorted_nth_mono [OF sort_num_sorted [OF assms(1)], of ?i ?j] ij by simp
    then have "num_le (?d ! ?i) (?d ! ?j)" using t [OF ij(1)] t [OF ij(2)] by (simp add: tame_order)
    from mean_between [OF _ _ this] t [OF ij(1)] t [OF ij(2)] False n show ?thesis
      by (auto simp: median_def Let_def)
  qed
qed

lemma num_max2_tame: "tame a \<Longrightarrow> tame b \<Longrightarrow> tame (num_max2 a b) \<and> num_le a (num_max2 a b) \<and> num_le b (num_max2 a b)"
  using tame_order [of a b] tame_order [of b a] tame_order [of a a] tame_order [of b b]
  by (auto simp: num_max2_def)

lemma num_min2_tame: "tame a \<Longrightarrow> tame b \<Longrightarrow> tame (num_min2 a b) \<and> num_le (num_min2 a b) a \<and> num_le (num_min2 a b) b"
  using tame_order [of a b] tame_order [of b a] tame_order [of a a] tame_order [of b b]
  by (auto simp: num_min2_def)

lemma fold_max_bound:
  "tame a \<Longrightarrow> list_all tame xs \<Longrightarrow>
     tame (foldl num_max2 a xs) \<and> (\<forall>x \<in> insert a (set xs). num_le x (foldl num_max2 a xs)) \<and>
     foldl num_max2 a xs \<in> insert a (set xs)"
proof (induction xs arbitrary: a)
  case Nil
  then show ?case using tame_order [of a a] by simp
next
  case (Cons x xs)
  have m: "tame (num_max2 a x)" "num_le a (num_max2 a x)" "num_le x (num_max2 a x)" "num_max2 a x \<in> {a, x}"
    using num_max2_tame [of a x] Cons.prems by (simp_all add: num_max2_def)
  from Cons.IH [OF m(1)] Cons.prems m show ?case by (auto intro: num_le_trans)
qed

lemma fold_min_bound:
  "tame a \<Longrightarrow> list_all tame xs \<Longrightarrow>
     tame (foldl num_min2 a xs) \<and> (\<forall>x \<in> insert a (set xs). num_le (foldl num_min2 a xs) x) \<and>
     foldl num_min2 a xs \<in> insert a (set xs)"
proof (induction xs arbitrary: a)
  case Nil
  then show ?case using tame_order [of a a] by simp
next
  case (Cons x xs)
  have m: "tame (num_min2 a x)" "num_le (num_min2 a x) a" "num_le (num_min2 a x) x" "num_min2 a x \<in> {a, x}"
    using num_min2_tame [of a x] Cons.prems by (simp_all add: num_min2_def)
  from Cons.IH [OF m(1)] Cons.prems m show ?case by (auto intro: num_le_trans)
qed

lemma num_max_bound:
  assumes "list_all tame xs" "xs \<noteq> []"
  shows "\<exists>m. num_max xs = Inr m \<and> tame m \<and> m \<in> set xs \<and> (\<forall>x \<in> set xs. num_le x m)"
  using assms fold_max_bound by (cases xs) auto

lemma num_min_bound:
  assumes "list_all tame xs" "xs \<noteq> []"
  shows "\<exists>m. num_min xs = Inr m \<and> tame m \<and> m \<in> set xs \<and> (\<forall>x \<in> set xs. num_le m x)"
  using assms fold_min_bound by (cases xs) auto

end
