(* ===== verification/BenchSummary.thy ===== *)
theory BenchSummary
  imports BenchStats
begin

text \<open>
  What \<open>summarize\<close> and \<open>aggregate\<close> of \<^verbatim>\<open>bench/run_loadtest.py\<close> promise on samples of the shape the
  scoring worker prints: they raise nothing, the counts add up, medians stay below peaks, and a
  violation anywhere is never averaged away.
\<close>

section \<open>Samples\<close>

definition tame_field :: "string \<Rightarrow> dict \<Rightarrow> bool" where
  "tame_field k s \<longleftrightarrow> (case map_of s k of Some (JNum v) \<Rightarrow> tame v | _ \<Rightarrow> False)"

definition event_field :: "dict \<Rightarrow> bool" where
  "event_field s \<longleftrightarrow>
     (case map_of s ''total_events'' of Some (JNum (PyI n)) \<Rightarrow> \<bar>n\<bar> \<le> 2 ^ 53 | _ \<Rightarrow> False)"

definition verdict_field :: "dict \<Rightarrow> bool" where
  "verdict_field s \<longleftrightarrow> (case map_of s ''correctness'' of Some (JStr c) \<Rightarrow> True | _ \<Rightarrow> False)"

definition run_sample :: "dict \<Rightarrow> bool" where
  "run_sample s \<longleftrightarrow> tame_field ''tps'' s \<and> tame_field ''p50_lat_us'' s \<and> tame_field ''p90_lat_us'' s \<and>
     tame_field ''p99_lat_us'' s \<and> event_field s \<and> verdict_field s"

definition loaded :: "dict \<Rightarrow> bool" where
  "loaded s \<longleftrightarrow> (case map_of s ''tps'' of Some (JNum v) \<Rightarrow> num_lt (PyI 0) v | _ \<Rightarrow> False)"

definition verdict_of :: "dict \<Rightarrow> string" where
  "verdict_of s = (case map_of s ''correctness'' of Some (JStr c) \<Rightarrow> c | _ \<Rightarrow> [])"

lemma tame_field_get:
  "tame_field k s \<Longrightarrow> \<exists>v. map_of s k = Some (JNum v) \<and> (\<forall>d. dict_get s k d = JNum v) \<and> tame v"
  by (auto simp: tame_field_def dict_get_def split: option.splits json.splits)

lemma event_field_get:
  "event_field s \<Longrightarrow> \<exists>n. (\<forall>d. dict_get s ''total_events'' d = JNum (PyI n)) \<and> \<bar>n\<bar> \<le> 2 ^ 53"
  by (auto simp: event_field_def dict_get_def split: option.splits json.splits pynum.splits)

lemma verdict_field_get: "verdict_field s \<Longrightarrow> dict_get s ''correctness'' d = JStr (verdict_of s)"
  by (auto simp: verdict_field_def verdict_of_def dict_get_def split: option.splits json.splits)

lemma run_sampleD:
  "run_sample s \<Longrightarrow> tame_field ''tps'' s" "run_sample s \<Longrightarrow> tame_field ''p50_lat_us'' s"
  "run_sample s \<Longrightarrow> tame_field ''p90_lat_us'' s" "run_sample s \<Longrightarrow> tame_field ''p99_lat_us'' s"
  "run_sample s \<Longrightarrow> event_field s" "run_sample s \<Longrightarrow> verdict_field s"
  by (simp_all add: run_sample_def)

section \<open>The pieces of summarize\<close>

lemma bears_load_ok: "tame_field ''tps'' s \<Longrightarrow> bears_load s = Inr (loaded s)"
  by (auto dest!: tame_field_get simp: bears_load_def json_number_def loaded_def)

lemma select_load_ok: "list_all (tame_field ''tps'') ss \<Longrightarrow> select_load ss = Inr (filter loaded ss)"
  by (induction ss) (auto simp: bears_load_ok)

lemma warmup_count_ok:
  assumes "int n < 2 ^ 53"
  shows "warmup_count n = Inr (n div 4)"
proof -
  have "rnd_mag (of_int (int n) * 2 powi (- 2)) = of_int (int n) * 2 powi (- 2)"
    using assms by (intro rnd_mag_exact [of "int n" "- 2"]) simp_all
  then have r: "rnd (of_nat n / 4) = of_nat n / 4" by (simp add: rnd_def power_int_minus)
  have "(of_nat n :: rat) < 2 ^ 53" using assms by (metis of_int_less_iff of_int_numeral of_int_of_nat_eq of_int_power)
  moreover have "(2 :: rat) ^ 53 < 2 ^ 1024" by (rule power_strict_increasing) simp_all
  ultimately have "to_f64 (of_nat n / 4) = Fin (of_nat n / 4)"
    using r by (simp add: to_f64_def f64_limit_def)
  moreover have "to_f64 (of_nat n) = Fin (of_nat n)" using to_f64_of_int [of "int n"] assms by simp
  moreover have "\<lfloor>of_nat n / (4 :: rat)\<rfloor> = int (n div 4)"
    using floor_divide_of_nat_eq [of n 4] by simp
  ultimately show ?thesis
    by (simp add: warmup_count_def WARMUP_FRACTION_def rat_trunc_def)
qed

lemma field_values_ok:
  "list_all (tame_field k) ss \<Longrightarrow>
     length (field_values k ss) = length ss \<and> list_all tame (field_values k ss)"
proof (induction ss)
  case (Cons s ss)
  then show ?case by (auto dest!: tame_field_get simp: field_values_def map_filter_simps)
qed (simp add: field_values_def map_filter_simps)

lemma median_or_0_ok:
  "list_all tame xs \<Longrightarrow> \<exists>m. median_or_0 xs = Inr m \<and> tame m"
  using median_between by (cases "xs = []") (auto simp: median_or_0_def)

lemma median_below_peak:
  assumes "list_all tame xs" "median_or_0 xs = Inr m" "peak_or_0 xs = Inr p"
  shows "num_le (num_round 2 m) p"
proof (cases "xs = []")
  case True
  with assms have "m = PyI 0" "p = PyI 0" by (simp_all add: median_or_0_def peak_or_0_def)
  then show ?thesis by (simp add: num_le_def)
next
  case False
  obtain M where M: "num_max xs = Inr M" "tame M" "\<forall>x \<in> set xs. num_le x M"
    using num_max_bound [OF assms(1) False] by blast
  obtain y where y: "tame m" "y \<in> set xs" "num_le m y"
    using median_between [OF assms(1) False] assms(2) False by (auto simp: median_or_0_def)
  have "num_le m M" using y M num_le_trans by blast
  then show ?thesis using M y(1) assms(3) False by (auto simp: peak_or_0_def intro: num_round_le)
qed

lemma peak_or_0_ok: "list_all tame xs \<Longrightarrow> \<exists>p. peak_or_0 xs = Inr p"
  using num_max_bound [of xs] by (cases "xs = []") (auto simp: peak_or_0_def)

lemma tame_tenth: "tame (PyF (to_f64 (1 / 10)))"
  by (simp add: float_eval)

lemma truediv_ok:
  assumes "tame t" "tame m" "num_val m \<noteq> 0"
  shows "\<exists>s. num_truediv t m = Inr s"
proof (cases "\<exists>i k. t = PyI i \<and> m = PyI k")
    case True
    then obtain i k where ik: "t = PyI i" "m = PyI k" by blast
    have "k \<noteq> 0" "\<bar>k\<bar> \<le> 2 ^ 53" "\<bar>i\<bar> \<le> 2 ^ 53" using assms ik by auto
    have "\<bar>of_int i / of_int k :: rat\<bar> \<le> of_int (2 ^ 53)"
    proof -
      have k: "(1 :: rat) \<le> \<bar>of_int k\<bar>" using \<open>k \<noteq> 0\<close> by linarith
      then have "\<bar>of_int i :: rat\<bar> * 1 \<le> \<bar>of_int i\<bar> * \<bar>of_int k\<bar>" by (intro mult_left_mono) simp_all
      with k have "\<bar>of_int i / of_int k :: rat\<bar> \<le> \<bar>of_int i\<bar>"
        unfolding abs_divide by (subst pos_divide_le_eq) linarith+
      also have "\<dots> \<le> of_int (2 ^ 53)" using \<open>\<bar>i\<bar> \<le> 2 ^ 53\<close> by (simp only: of_int_abs [symmetric] of_int_le_iff)
      finally show ?thesis .
    qed
    then have "of_int (- (2 ^ 53)) \<le> (of_int i / of_int k :: rat)" "(of_int i / of_int k :: rat) \<le> of_int (2 ^ 53)"
      unfolding abs_le_iff of_int_minus by linarith+
    from to_f64_between [OF this] obtain z where "to_f64 (of_int i / of_int k) = Fin z" by auto
    then show ?thesis using ik \<open>k \<noteq> 0\<close> by simp
    next
    case False
    then have "num_truediv t m = rbind (num_float t) (\<lambda>x. rbind (num_float m) (\<lambda>y. rbind (fdiv x y) (\<lambda>z. Inr (PyF z))))"
      by (cases "(t, m)" rule: num_truediv.cases) auto
    then show ?thesis using tame_exact [OF assms(1)] tame_exact [OF assms(2)] assms(3) by simp
qed

lemma steady_score_ok:
  assumes "tame t" "tame p"
  shows "\<exists>s. steady_score t p = Inr s"
proof -
  let ?m = "num_max2 p (PyF (to_f64 (1 / 10)))"
  have m: "tame ?m" "num_le (PyF (to_f64 (1 / 10))) ?m"
    using num_max2_tame [OF assms(2) tame_tenth] by blast+
  have "0 < num_val (PyF (to_f64 (1 / 10)))" by (simp add: float_eval)
  then have "num_val ?m \<noteq> 0" using m tame_order [OF tame_tenth m(1)] by auto
  from truediv_ok [OF assms(1) m(1) this] show ?thesis by (auto simp: steady_score_def)
qed

lemma totals_ok:
  assumes "list_all event_field ss" "ss \<noteq> []"
  shows "\<exists>ts lo hi d. rmap_list (\<lambda>s. json_number (dict_get s ''total_events'' (JInt 0))) ss = Inr ts \<and>
      num_min ts = Inr lo \<and> num_max ts = Inr hi \<and> num_sub hi lo = Inr d \<and> num_le (PyI 0) d"
proof -
  define ev where "ev s = (case dict_get s ''total_events'' JNull of JNum (PyI n) \<Rightarrow> n | _ \<Rightarrow> 0)" for s
  have e: "(\<forall>d. dict_get s ''total_events'' d = JNum (PyI (ev s))) \<and> \<bar>ev s\<bar> \<le> 2 ^ 53" if "s \<in> set ss" for s
    using event_field_get [of s] assms(1) that by (auto simp: list_all_iff ev_def)
  let ?ts = "map (\<lambda>s. PyI (ev s)) ss"
  have ts: "rmap_list (\<lambda>s. json_number (dict_get s ''total_events'' (JInt 0))) ss = Inr ?ts"
    by (rule rmap_list_Inr) (simp add: e json_number_def)
  have t: "list_all tame ?ts" "?ts \<noteq> []" using e assms(2) by (auto simp: list_all_iff)
  obtain lo where lo: "num_min ?ts = Inr lo" "lo \<in> set ?ts" "\<forall>x \<in> set ?ts. num_le lo x"
    using num_min_bound [OF t] by blast
  obtain hi where hi: "num_max ?ts = Inr hi" "hi \<in> set ?ts" using num_max_bound [OF t] by blast
  from lo(2) hi(2) obtain a b where "lo = PyI a" "hi = PyI b" by auto
  moreover have "a \<le> b" using lo(3) hi(2) calculation by (force simp: num_le_def)
  ultimately show ?thesis using ts lo(1) hi(1) by (auto simp: num_le_def)
qed

lemma foldl_min_in: "foldl min a xs \<in> insert a (set xs)" for a :: "'a :: linorder"
proof (induction xs arbitrary: a)
  case (Cons x xs)
  have "min a x \<in> {a, x}" by (simp add: min_def)
  with Cons.IH [of "min a x"] show ?case by auto
qed simp

lemma first_violation_texts:
  fixes cs :: "string list"
  shows "\<exists>v. first_violation (map JStr cs) = Inr (JStr v) \<and>
    (if list_all (\<lambda>c. c = ''PASSED'') cs then v = ''PASSED'' else v \<in> set cs \<and> v \<noteq> ''PASSED'')"
proof -
  let ?vs = "filter (\<lambda>c. c \<noteq> ''PASSED'') cs"
  have f: "filter (\<lambda>c. c \<noteq> JStr ''PASSED'' \<and> c \<noteq> JNull) (map JStr cs) = map JStr ?vs"
    by (induction cs) auto
  have t: "List.map_filter json_text (map JStr xs) = xs" for xs
    by (induction xs) (auto simp: map_filter_simps)
  have u: "\<not> (\<exists>c \<in> set (map JStr cs). unhashable c)" by auto
  show ?thesis
  proof (cases "?vs = []")
    case True
    then have "list_all (\<lambda>c. c = ''PASSED'') cs" by (auto simp: filter_empty_conv list_all_iff)
    with True f u show ?thesis by (simp add: first_violation_def Let_def)
  next
    case False
    let ?v = "foldl min (hd ?vs) (tl ?vs)"
    have "?v \<in> set ?vs" using foldl_min_in [of "hd ?vs" "tl ?vs"] False by (cases ?vs) auto
    moreover have "first_violation (map JStr cs) = Inr (JStr ?v)"
      using False u unfolding first_violation_def f Let_def t by simp
    ultimately show ?thesis by (auto simp: list_all_iff)
  qed
qed

section \<open>summarize\<close>

lemma dict_get_Cons [simp]:
  "dict_get ((k, v) # d) k' dflt = (if k' = k then v else dict_get d k' dflt)" "dict_get [] k' dflt = dflt"
  by (simp_all add: dict_get_def)

text \<open>The result of \<open>summarize\<close> on run samples with load, field by field.\<close>

lemma summarize_result:
  assumes "list_all run_sample obs" "int (length obs) < 2 ^ 53" "filter loaded obs \<noteq> []"
    and "list_all (\<lambda>x. tame (PyF x)) ops"
  shows "\<exists>d v tps peak p99 worst. summarize obs ops totals = Inr d \<and> \<not> failed_run d \<and>
     dict_get d ''sample_count'' JNull = JInt (int (length obs)) \<and>
     dict_get d ''under_load_sample_count'' JNull = JInt (int (length (filter loaded obs))) \<and>
     dict_get d ''idle_samples_excluded'' JNull = JInt (int (length (filter (\<lambda>s. \<not> loaded s) obs))) \<and>
     dict_get d ''steady_state_sample_count'' JNull =
       JInt (int (length (filter loaded obs) - length (filter loaded obs) div 4)) \<and>
     dict_get d ''engine_tps_median'' JNull = JNum tps \<and> dict_get d ''engine_tps_peak'' JNull = JNum peak \<and>
     dict_get d ''p99_lat_us'' JNull = JNum p99 \<and> dict_get d ''p99_worst_us'' JNull = JNum worst \<and>
     num_le tps peak \<and> num_le p99 worst \<and>
     dict_get d ''correctness'' JNull = JStr v \<and>
     first_violation (map JStr (map verdict_of obs)) = Inr (JStr v)"
proof -
  let ?u = "filter loaded obs"
  let ?st = "drop (length ?u div 4) ?u"
  have fields: "list_all (tame_field k) ss" if "k \<in> {''tps'', ''p50_lat_us'', ''p90_lat_us'', ''p99_lat_us''}"
      "set ss \<subseteq> set obs" for k ss
    using that assms(1) by (auto simp: list_all_iff dest: run_sampleD)
  have sub: "set ?st \<subseteq> set obs" using set_drop_subset [of _ ?u] by fastforce
  have tame_values: "list_all tame (field_values k ?st)"
    if "k \<in> {''tps'', ''p50_lat_us'', ''p90_lat_us'', ''p99_lat_us''}" for k
    using field_values_ok [OF fields [OF that sub]] by blast
  have load: "select_load obs = Inr ?u" by (rule select_load_ok) (rule fields, simp_all)
  have "length ?u \<le> length obs" by (rule length_filter_le)
  then have warm: "warmup_count (length ?u) = Inr (length ?u div 4)"
    using assms(2) by (intro warmup_count_ok) linarith
  have "0 < length ?u" using assms(3) by blast
  then have "length ?u div 4 < length ?u" by simp
  then have steady: "?st \<noteq> []" by (simp add: not_le)
  obtain tps where tps: "median_or_0 (field_values ''tps'' ?st) = Inr tps" "tame tps"
    using median_or_0_ok [OF tame_values] by auto
  obtain p50 where p50: "median_or_0 (field_values ''p50_lat_us'' ?st) = Inr p50"
    using median_or_0_ok [OF tame_values] by auto
  obtain p90 where p90: "median_or_0 (field_values ''p90_lat_us'' ?st) = Inr p90"
    using median_or_0_ok [OF tame_values] by auto
  obtain p99 where p99: "median_or_0 (field_values ''p99_lat_us'' ?st) = Inr p99" "tame p99"
    using median_or_0_ok [OF tame_values] by auto
  obtain peak where peak: "peak_or_0 (field_values ''tps'' ?st) = Inr peak"
    using peak_or_0_ok [OF tame_values] by auto
  obtain worst where worst: "peak_or_0 (field_values ''p99_lat_us'' ?st) = Inr worst"
    using peak_or_0_ok [OF tame_values] by auto
  obtain score where score: "steady_score tps p99 = Inr score"
    using steady_score_ok [OF tps(2) p99(2)] by auto
  have vs: "map (\<lambda>s. dict_get s ''correctness'' JNull) obs = map JStr (map verdict_of obs)"
    using assms(1) by (auto simp: list_all_iff intro: verdict_field_get run_sampleD)
  obtain v where v: "first_violation (map JStr (map verdict_of obs)) = Inr (JStr v)"
    using first_violation_texts by blast
  have "obs \<noteq> []" using assms(3) by auto
  moreover have "list_all event_field obs" using assms(1) by (auto simp: list_all_iff dest: run_sampleD)
  ultimately obtain ts lo hi dt where totals:
    "rmap_list (\<lambda>s. json_number (dict_get s ''total_events'' (JInt 0))) obs = Inr ts"
    "num_min ts = Inr lo" "num_max ts = Inr hi" "num_sub hi lo = Inr dt"
    using totals_ok [of obs] by auto
  have "list_all tame (map PyF ops)" using assms(4) by (simp add: list.pred_map comp_def)
  then obtain om where om: "median_or_0 (map PyF ops) = Inr om" using median_or_0_ok by blast
  have idle: "int (length obs) - int (length ?u) = int (length (filter (\<lambda>s. \<not> loaded s) obs))"
    using sum_length_filter_compl [of loaded obs] by linarith
  have "num_le (num_round 2 tps) peak" "num_le (num_round 2 p99) worst"
    using median_below_peak [OF tame_values tps(1) peak] median_below_peak [OF tame_values p99(1) worst] by simp_all
  then show ?thesis
    unfolding summarize_def load rbind.simps warm Let_def if_not_P [OF steady] tps(1) p99(1) score vs v totals
      peak p50 p90 worst om idle
    using assms(3) \<open>obs \<noteq> []\<close> by (simp add: failed_run_def JInt_def)
qed

text \<open>
  C25. \<open>summarize\<close> is sound on what the scoring worker prints: it raises nothing; a run without load is
  an error summary; otherwise the samples under load and the idle ones add up to all samples, the
  warm-up trims exactly a quarter of the former (rounded down), and the medians quoted for
  throughput and p99 are at most the peak and the worst sample.
\<close>

theorem summarize_sound:
  assumes "list_all run_sample obs" "int (length obs) < 2 ^ 53" "list_all (\<lambda>x. tame (PyF x)) ops"
  shows "\<exists>d. summarize obs ops totals = Inr d \<and>
     (if filter loaded obs = [] then failed_run d
      else \<not> failed_run d \<and>
        dict_get d ''under_load_sample_count'' JNull = JInt (int (length (filter loaded obs))) \<and>
        dict_get d ''idle_samples_excluded'' JNull = JInt (int (length (filter (\<lambda>s. \<not> loaded s) obs))) \<and>
        dict_get d ''steady_state_sample_count'' JNull =
          JInt (int (length (filter loaded obs) - length (filter loaded obs) div 4)) \<and>
        (\<exists>tps peak p99 worst.
           dict_get d ''engine_tps_median'' JNull = JNum tps \<and> dict_get d ''engine_tps_peak'' JNull = JNum peak \<and>
           dict_get d ''p99_lat_us'' JNull = JNum p99 \<and> dict_get d ''p99_worst_us'' JNull = JNum worst \<and>
           num_le tps peak \<and> num_le p99 worst))"
proof (cases "filter loaded obs = []")
  case True
  have "list_all (tame_field ''tps'') obs" using assms(1) by (auto simp: list_all_iff dest: run_sampleD)
  with True select_load_ok [of obs] show ?thesis
    by (auto simp: summarize_def error_summary_def failed_run_def)
next
  case False
  from summarize_result [OF assms(1,2) False assms(3), of totals] False show ?thesis by auto
qed

lemma summarize_latched:
  assumes "list_all run_sample obs" "int (length obs) < 2 ^ 53" "list_all (\<lambda>x. tame (PyF x)) ops"
    and "filter loaded obs \<noteq> []"
  shows "\<exists>d v. summarize obs ops totals = Inr d \<and> dict_get d ''correctness'' JNull = JStr v \<and>
     (if list_all (\<lambda>s. verdict_of s = ''PASSED'') obs then v = ''PASSED''
      else v \<noteq> ''PASSED'' \<and> v \<in> set (map verdict_of obs))"
proof -
  obtain d v where d: "summarize obs ops totals = Inr d" "dict_get d ''correctness'' JNull = JStr v"
    "first_violation (map JStr (map verdict_of obs)) = Inr (JStr v)"
    using summarize_result [OF assms(1,2,4,3), of totals] by blast
  from first_violation_texts [of "map verdict_of obs"] d(3) have
    "if list_all (\<lambda>s. verdict_of s = ''PASSED'') obs then v = ''PASSED''
     else v \<noteq> ''PASSED'' \<and> v \<in> set (map verdict_of obs)"
    by (auto simp: list.pred_map comp_def split: if_splits)
  with d show ?thesis by blast
qed

text \<open>
  The correctness verdict of a run is a latch: however many samples pass, a run with load is
  PASSED exactly when every one of its samples, idle and warm-up ones included, says PASSED;
  otherwise the summary carries the text of a violation that occurred.
\<close>

lemma summarize_verdict_latch:
  assumes "list_all run_sample obs" "int (length obs) < 2 ^ 53" "list_all (\<lambda>x. tame (PyF x)) ops"
    and "filter loaded obs \<noteq> []"
  shows "\<exists>d v. summarize obs ops totals = Inr d \<and> dict_get d ''correctness'' JNull = JStr v \<and>
     (if list_all (\<lambda>s. verdict_of s = ''PASSED'') obs then v = ''PASSED''
      else v \<noteq> ''PASSED'' \<and> v \<in> set (map verdict_of obs))"
  using assms by (rule summarize_latched)

definition sample_line :: "int \<Rightarrow> string \<Rightarrow> dict" where
  "sample_line tps verdict =
     [(''tps'', JInt tps), (''p50_lat_us'', JInt 1), (''p90_lat_us'', JInt 2), (''p99_lat_us'', JInt 3),
      (''total_events'', JInt 7), (''correctness'', JStr verdict)]"

lemma run_sample_line: "\<bar>tps\<bar> \<le> 2 ^ 53 \<Longrightarrow> run_sample (sample_line tps v)"
  by (simp add: run_sample_def tame_field_def event_field_def verdict_field_def sample_line_def JInt_def)

lemma loaded_line: "loaded (sample_line tps v) \<longleftrightarrow> 0 < tps" "verdict_of (sample_line tps v) = v"
  by (simp_all add: loaded_def verdict_of_def sample_line_def JInt_def num_lt_def)

theorem summarize_sound_witness:
  "\<exists>d. summarize [sample_line 0 ''PASSED'', sample_line 5 ''PASSED'', sample_line 9 ''PASSED''] [Fin 3] [] = Inr d \<and>
     dict_get d ''under_load_sample_count'' JNull = JInt 2 \<and> dict_get d ''idle_samples_excluded'' JNull = JInt 1"
  using summarize_sound [of "[sample_line 0 ''PASSED'', sample_line 5 ''PASSED'', sample_line 9 ''PASSED'']"
      "[Fin 3]" "[]"]
  by (auto simp: run_sample_line loaded_line)

section \<open>aggregate\<close>

definition int_field :: "string \<Rightarrow> dict \<Rightarrow> bool" where
  "int_field k r \<longleftrightarrow> (case map_of r k of Some (JNum (PyI n)) \<Rightarrow> True | _ \<Rightarrow> False)"

definition run_summary :: "dict \<Rightarrow> bool" where
  "run_summary r \<longleftrightarrow> list_all (\<lambda>k. tame_field k r) (map fst AGGREGATED) \<and> verdict_field r \<and>
     int_field ''fleet_drops'' r \<and> int_field ''fleet_fails'' r"

lemma int_field_get: "int_field k r \<Longrightarrow> \<exists>n. \<forall>d. dict_get r k d = JNum (PyI n)"
  by (auto simp: int_field_def dict_get_def split: option.splits json.splits pynum.splits)

lemma sum_field_ok:
  assumes "list_all (int_field k) rs"
  shows "\<exists>n. sum_field k rs = Inr (PyI n)"
proof -
  define f where "f r = (case dict_get r k JNull of JNum (PyI n) \<Rightarrow> n | _ \<Rightarrow> 0)" for r
  have "\<forall>d. dict_get r k d = JNum (PyI (f r))" if "r \<in> set rs" for r
    using int_field_get [of k r] assms that by (auto simp: list_all_iff f_def)
  then have "rmap_list (\<lambda>r. json_number (dict_get r k (JInt 0))) rs = Inr (map (\<lambda>r. PyI (f r)) rs)"
    by (intro rmap_list_Inr) (simp add: json_number_def)
  moreover have "\<exists>n. num_sum (PyI a) (map (\<lambda>r. PyI (f r)) xs) = Inr (PyI n)" for a xs
    by (induction xs arbitrary: a) auto
  ultimately show ?thesis by (simp add: sum_field_def)
qed

lemma stat_of_ok:
  assumes "list_all tame xs" "xs \<noteq> []"
  shows "\<exists>lo med hi sp. stat_of xs = Inr [(''min'', JNum lo), (''median'', JNum med), (''max'', JNum hi),
      (''spread_ratio'', sp)] \<and> num_le lo med \<and> num_le med hi"
proof -
  obtain m x y where m: "median xs = Inr m" "tame m" "x \<in> set xs" "num_le x m" "y \<in> set xs" "num_le m y"
    using median_between [OF assms] by blast
  obtain lo where lo: "num_min xs = Inr lo" "tame lo" "\<forall>x \<in> set xs. num_le lo x"
    using num_min_bound [OF assms] by blast
  obtain hi where hi: "num_max xs = Inr hi" "tame hi" "\<forall>x \<in> set xs. num_le x hi"
    using num_max_bound [OF assms] by blast
  have "num_le lo m" "num_le m hi" using m lo(3) hi(3) num_le_trans by blast+
  then have "num_le (num_round 2 lo) (num_round 2 m)" "num_le (num_round 2 m) (num_round 2 hi)"
    using m(2) lo(2) hi(2) by (simp_all add: num_round_le)
  moreover have "\<exists>sp. spread_ratio lo hi = Inr sp"
  proof (cases "num_lt (PyI 0) lo")
    case True
    then have "num_val lo \<noteq> 0" using tame_order [of "PyI 0" lo] lo(2) by simp
    from truediv_ok [OF hi(2) lo(2) this] True show ?thesis by (auto simp: spread_ratio_def)
  qed (simp add: spread_ratio_def)
  ultimately show ?thesis using m(1) lo(1) hi(1) by (auto simp: stat_of_def)
qed

lemma stats_of_ok:
  assumes "good \<noteq> []" "\<forall>k \<in> set keys. list_all (tame_field k) good"
  shows "\<exists>ds. stats_of good keys = Inr ds \<and>
     (\<forall>k \<in> set keys. \<exists>lo med hi sp. map_of ds k = Some (JObj [(''min'', JNum lo), (''median'', JNum med),
        (''max'', JNum hi), (''spread_ratio'', sp)]) \<and> num_le lo med \<and> num_le med hi)"
  using assms(2)
proof (induction keys)
  case (Cons k keys)
  have f: "length (field_values k good) = length good \<and> list_all tame (field_values k good)"
    using Cons.prems by (intro field_values_ok) simp
  with assms(1) have ne: "field_values k good \<noteq> []" by auto
  from stat_of_ok [OF conjunct2 [OF f] ne] obtain lo med hi sp where st:
    "stat_of (field_values k good) = Inr [(''min'', JNum lo), (''median'', JNum med), (''max'', JNum hi),
      (''spread_ratio'', sp)]" "num_le lo med" "num_le med hi" by blast
  from Cons obtain ds where ds: "stats_of good keys = Inr ds"
    "\<forall>k \<in> set keys. \<exists>lo med hi sp. map_of ds k = Some (JObj [(''min'', JNum lo), (''median'', JNum med),
        (''max'', JNum hi), (''spread_ratio'', sp)]) \<and> num_le lo med \<and> num_le med hi" by auto
  from st ds ne show ?case by (auto simp: Let_def)
qed simp

text \<open>
  \<open>aggregate\<close> over any mix of failed and well-formed runs raises nothing: with no completed run it
  says so; otherwise it counts completed and attempted runs exactly, quotes for every metric a
  median between its minimum and maximum, and is PASSED exactly when every completed run is.
\<close>

lemma aggregate_sound:
  assumes "list_all (\<lambda>r. if failed_run r then True else run_summary r) runs"
    and "good = filter (\<lambda>r. \<not> failed_run r) runs"
  shows "\<exists>d. aggregate runs = Inr d \<and>
     (if good = [] then failed_run d
      else dict_get d ''runs_completed'' JNull = JInt (int (length good)) \<and>
        dict_get d ''runs_attempted'' JNull = JInt (int (length runs)) \<and>
        (\<exists>v. dict_get d ''correctness'' JNull = JStr v \<and>
           (if list_all (\<lambda>r. verdict_of r = ''PASSED'') good then v = ''PASSED''
            else v \<noteq> ''PASSED'' \<and> v \<in> set (map verdict_of good))) \<and>
        (\<exists>stats. dict_get d ''metrics'' JNull = JObj stats \<and>
           (\<forall>k \<in> set (map fst AGGREGATED). \<exists>lo med hi sp.
              map_of stats k = Some (JObj [(''min'', JNum lo), (''median'', JNum med), (''max'', JNum hi),
                (''spread_ratio'', sp)]) \<and> num_le lo med \<and> num_le med hi)))"
proof (cases "good = []")
  case True
  with assms(2) show ?thesis by (simp add: aggregate_def Let_def failed_run_def)
next
  case False
  have g: "list_all run_summary good" using assms by (auto simp: list_all_iff)
  then have "\<forall>k \<in> set (map fst AGGREGATED). list_all (tame_field k) good"
    by (auto simp: list_all_iff run_summary_def)
  from stats_of_ok [OF False this] obtain stats where stats: "stats_of good (map fst AGGREGATED) = Inr stats"
    "\<forall>k \<in> set (map fst AGGREGATED). \<exists>lo med hi sp. map_of stats k = Some (JObj [(''min'', JNum lo),
      (''median'', JNum med), (''max'', JNum hi), (''spread_ratio'', sp)]) \<and> num_le lo med \<and> num_le med hi" by blast
  have vs: "map (\<lambda>s. dict_get s ''correctness'' JNull) good = map JStr (map verdict_of good)"
    using g by (auto simp: list_all_iff run_summary_def intro: verdict_field_get)
  obtain v where v: "first_violation (map JStr (map verdict_of good)) = Inr (JStr v)"
    "if list_all (\<lambda>c. c = ''PASSED'') (map verdict_of good) then v = ''PASSED''
     else v \<in> set (map verdict_of good) \<and> v \<noteq> ''PASSED''"
    using first_violation_texts by blast
  obtain dr fa where sums: "sum_field ''fleet_drops'' good = Inr (PyI dr)" "sum_field ''fleet_fails'' good = Inr (PyI fa)"
    using sum_field_ok [of "''fleet_drops''" good] sum_field_ok [of "''fleet_fails''" good] g
    by (auto simp: list_all_iff run_summary_def)
  have d: "aggregate runs = Inr [(''runs_completed'', JInt (int (length good))),
      (''runs_attempted'', JInt (int (length runs))), (''correctness'', JStr v),
      (''total_fleet_drops'', JNum (PyI dr)), (''total_fleet_fails'', JNum (PyI fa)), (''metrics'', JObj stats)]"
    unfolding aggregate_def Let_def assms(2) [symmetric] if_not_P [OF False] stats(1) vs v(1) sums rbind.simps
    by (rule refl)
  have "if list_all (\<lambda>r. verdict_of r = ''PASSED'') good then v = ''PASSED''
     else v \<noteq> ''PASSED'' \<and> v \<in> set (map verdict_of good)"
    using v(2) by (auto simp: list.pred_map comp_def split: if_splits)
  with stats(2) False show ?thesis unfolding d by simp
qed

definition summary_line :: "int \<Rightarrow> string \<Rightarrow> dict" where
  "summary_line n v = map (\<lambda>k. (k, JInt n)) (map fst AGGREGATED @ [''fleet_drops'', ''fleet_fails'']) @
     [(''correctness'', JStr v)]"

end
