(* ===== verification/ScoringFigures.thy ===== *)
theory ScoringFigures
  imports ScoringWorker
begin

text \<open>
  What can be relied on of the figures \<open>metrics\<close> returns, beyond their order: they are numbers a
  text keeps exactly, and for a window of at least a millisecond they are far from overflow.
\<close>

section \<open>Numbers a text keeps\<close>

definition storable :: "pynum \<Rightarrow> bool" where
  "storable a \<longleftrightarrow> num_ok a \<and> (case a of PyI n \<Rightarrow> \<bar>n\<bar> \<le> 2 ^ 53 | PyF x \<Rightarrow> True)"

lemma storable_zero [simp]: "storable (PyI 0)"
  by (simp add: storable_def)

lemma storable_round: "storable a \<Longrightarrow> storable (num_round n a)"
  by (cases a) (auto simp: storable_def)

lemma storable_truediv: "num_ok a \<Longrightarrow> num_ok b \<Longrightarrow> num_truediv a b = Inr c \<Longrightarrow> storable c"
  using num_truediv_ok [of a b c]
  by (cases "(a, b)" rule: num_truediv.cases) (auto simp: storable_def split: if_splits)

lemma storable_latency: "latency_us xs p = Inr a \<Longrightarrow> storable a"
  using storable_truediv [of "PyI v" "PyI 1000" a for v]
  by (auto simp: latency_us_def simp del: num_truediv.simps split: if_splits)

lemma metrics_storable:
  assumes "metrics now st = Inr (m, st')" "float_ok (window_seconds st)"
  shows "storable (m_tps m)" "storable (m_p50_lat_us m)" "storable (m_p90_lat_us m)" "storable (m_p99_lat_us m)"
    "storable (m_score m)"
proof -
  let ?s = "prune now st" and ?l = "map snd (samples (prune now st))"
  obtain a b c t s where r: "latency_us ?l (to_f64 (1 / 2)) = Inr a"
    "latency_us ?l (to_f64 (9 / 10)) = Inr b" "latency_us ?l (to_f64 (99 / 100)) = Inr c"
    "tps_of (length (samples ?s)) (window_seconds ?s) = Inr t" "score_of (correctness ?s) t c = Inr s"
    and m: "m_tps m = num_round 2 t" "m_p50_lat_us m = num_round 2 a" "m_p90_lat_us m = num_round 2 b"
      "m_p99_lat_us m = num_round 2 c" "m_score m = num_round 4 s"
    using assms(1) by (auto simp: metrics_def Let_def)
  have l: "storable a" "storable b" "storable c" using r(1-3) storable_latency by blast+
  have t: "storable t"
    using r(4) assms(2) storable_truediv [of "PyI n" "PyF (window_seconds ?s)" t for n]
    by (auto simp: tps_of_def simp del: num_truediv.simps split: if_splits)
  have "num_ok (num_max2 c (PyF (to_f64 (1 / 10))))" using l(3) by (simp add: num_max2_def storable_def)
  with r(5) t have "storable s"
    using storable_truediv [of t "num_max2 c (PyF (to_f64 (1 / 10)))" s]
    by (auto simp: score_of_def storable_def simp del: num_truediv.simps split: if_splits)
  with l t m show "storable (m_tps m)" "storable (m_p50_lat_us m)" "storable (m_p90_lat_us m)"
    "storable (m_p99_lat_us m)" "storable (m_score m)"
    by (simp_all add: storable_round)
qed

end
