(* ===== verification/BenchVerdict.thy ===== *)
theory BenchVerdict
  imports BenchHarvest BenchSummary ScoringVerdict ScoringFigures
begin

text \<open>
  From the engine's trades to the benchmark's verdict: the scoring worker prints one JSON line per
  report, the benchmark harvests them from the container's log and summarizes them.
\<close>

section \<open>The figures are far from overflow\<close>

definition cap :: rat where
  "cap = 2 ^ 64"

lemma cap_ok: "float_ok (Fin cap)"
  unfolding cap_def by (rule float_ok_two64)

lemma cap_bounds: "0 \<le> cap" "cap \<le> 2 ^ 1000"
  unfolding cap_def by (simp, rule power_increasing) simp_all

lemma fround_cap: "fround n (Fin cap) = Fin cap"
proof -
  have "dec_round n cap = cap" using dec_round_of_int [of n "2 ^ 64"] by (simp add: cap_def)
  then show ?thesis using to_f64_id [OF cap_ok] by simp
qed

definition moderate :: "pynum \<Rightarrow> bool" where
  "moderate a \<longleftrightarrow> storable a \<and> num_le (PyI 0) a \<and> num_le a (PyF (Fin cap))"

lemma moderate_tame: "moderate a \<Longrightarrow> tame a"
proof (cases a)
  case (PyF x)
  assume "moderate a"
  with PyF have "float_ok x" "fle (Fin 0) x" "fle x (Fin cap)"
    by (auto simp: moderate_def storable_def num_le_def)
  then show ?thesis using PyF cap_bounds by (cases x) (auto simp del: float_ok.simps)
qed (simp add: moderate_def storable_def)

lemma round_two64: "num_le a (PyF (Fin cap)) \<Longrightarrow> num_le (num_round n a) (PyF (Fin cap))"
proof (cases a)
  case (PyF x)
  assume "num_le a (PyF (Fin cap))"
  then have "fle (fround n x) (fround n (Fin cap))" using PyF by (simp add: num_le_def fround_mono del: fround.simps)
  then have "fle (fround n x) (Fin cap)" unfolding fround_cap .
  then show ?thesis using PyF by (simp add: num_le_def)
qed (simp add: num_le_def)

lemma latency_bound:
  assumes "list_all (\<lambda>l. 0 \<le> l \<and> l < 2 ^ 64) lats" "latency_us lats p = Inr a"
  shows "num_le a (PyF (Fin cap))"
proof (cases "lats = []")
  case False
  then obtain v where v: "percentile lats p = Inr v" "num_truediv (PyI v) (PyI 1000) = Inr a"
    using assms(2) by (auto simp: latency_us_def simp del: num_truediv.simps split: if_splits)
  then have "0 \<le> v" "v < 2 ^ 64" using percentile_in [OF v(1)] assms(1) by (auto simp: list_all_iff)
  then have "(of_int v :: rat) \<le> of_int (2 ^ 64)" by (simp only: of_int_le_iff)
  then have "(of_int v :: rat) / of_int 1000 \<le> cap" using \<open>0 \<le> v\<close> by (simp add: cap_def)
  then have "fle (to_f64 (of_int v / of_int 1000)) (Fin cap)" by (rule to_f64_le_ok [OF cap_ok])
  moreover have "a = PyF (to_f64 (of_int v / of_int 1000))"
    using v(2) by (auto dest!: finite_or_overflow_ok)
  ultimately show ?thesis by (simp add: num_le_def)
qed (use assms(2) cap_bounds(1) in \<open>auto simp: latency_us_def num_le_def\<close>)

lemma rate_bound:
  assumes "int n \<le> 2 ^ 53" "1 / 1000 \<le> x" "tps_of n (Fin x) = Inr a"
  shows "num_le a (PyF (Fin cap))"
proof -
  have n: "to_f64 (of_nat n) = Fin (of_nat n)" using to_f64_of_int [of "int n"] assms(1) by simp
  have x: "0 < x" using assms(2) by linarith
  have "(of_nat n :: rat) \<le> 2 ^ 53"
    using assms(1) by (metis of_int_le_iff of_int_of_nat_eq of_int_power of_int_numeral)
  then have "of_nat n * 1 \<le> cap * (1 / 1000)" by (simp add: cap_def)
  also have "\<dots> \<le> cap * x" by (rule mult_left_mono [OF assms(2) cap_bounds(1)])
  finally have "of_nat n / x \<le> cap" using x by (simp add: pos_divide_le_eq)
  then have "fle (to_f64 (of_nat n / x)) (Fin cap)" by (rule to_f64_le_ok [OF cap_ok])
  moreover have "a = PyF (to_f64 (of_nat n / x))" using assms(3) n x by (auto simp: tps_of_def)
  ultimately show ?thesis by (simp add: num_le_def)
qed

lemma metrics_moderate:
  assumes "metrics now st = Inr (m, st')" "samples_ok st" "window_seconds st = Fin x" "float_ok (Fin x)" "1 / 1000 \<le> x"
  shows "list_all moderate [m_tps m, m_p50_lat_us m, m_p90_lat_us m, m_p99_lat_us m]" "storable (m_score m)"
proof -
  let ?s = "prune now st" and ?l = "map snd (samples (prune now st))"
  obtain a b c t s where "latency_us ?l (to_f64 (1 / 2)) = Inr a" "latency_us ?l (to_f64 (9 / 10)) = Inr b"
    and rc: "latency_us ?l (to_f64 (99 / 100)) = Inr c" and rt: "tps_of (length (samples ?s)) (window_seconds ?s) = Inr t"
    and "score_of (correctness ?s) t c = Inr s"
    and m: "m_tps m = num_round 2 t" "m_p99_lat_us m = num_round 2 c"
    using assms(1) by (auto simp: metrics_def Let_def)
  have rt: "tps_of (length (samples ?s)) (Fin x) = Inr t" using rt assms(3) by simp
  have ok: "samples_ok ?s" by (rule samples_ok_prune [OF assms(2)])
  then have "list_all (\<lambda>l. 0 \<le> l \<and> l < 2 ^ 64) ?l" "int (length (samples ?s)) \<le> 2 ^ 53"
    unfolding samples_ok_def by (simp_all only: list.pred_map comp_def)
  then have top: "num_le (m_p99_lat_us m) (PyF (Fin cap))" "num_le (m_tps m) (PyF (Fin cap))"
    unfolding m using round_two64 latency_bound [OF _ rc] rate_bound [OF _ assms(5) rt] by blast+
  obtain m' where m': "metrics now st = Inr (m', prune now st)" "num_le (PyI 0) (m_p50_lat_us m')"
    "num_le (m_p50_lat_us m') (m_p90_lat_us m')" "num_le (m_p90_lat_us m') (m_p99_lat_us m')" "num_le (PyI 0) (m_tps m')"
    using metrics_total [OF assms(2), of now] by blast
  have "m' = m" using assms(1) m'(1) by simp
  note o = m'(2-5) [unfolded this]
  have z: "num_le (PyI 0) (m_p90_lat_us m)" by (rule num_le_trans [OF o(1,2)])
  have "num_le (PyI 0) (m_p99_lat_us m)" by (rule num_le_trans [OF z o(3)])
  moreover have "num_le (m_p90_lat_us m) (PyF (Fin cap))" by (rule num_le_trans [OF o(3) top(1)])
  moreover from o(2) this have "num_le (m_p50_lat_us m) (PyF (Fin cap))" by (rule num_le_trans)
  moreover have "float_ok (window_seconds st)" using assms(3,4) by (simp only:)
  note f = metrics_storable [OF assms(1) this]
  ultimately show "list_all moderate [m_tps m, m_p50_lat_us m, m_p90_lat_us m, m_p99_lat_us m]"
    using top o(1,4) z by (simp add: moderate_def f del: num_round.simps)
  show "storable (m_score m)" by (rule f)
qed

section \<open>The lines a worker prints\<close>

definition figures_ok :: "metrics \<Rightarrow> bool" where
  "figures_ok m \<longleftrightarrow>
     list_all moderate [m_tps m, m_p50_lat_us m, m_p90_lat_us m, m_p99_lat_us m] \<and> storable (m_score m) \<and>
     \<bar>m_total_events m\<bar> \<le> 2 ^ 53"

definition line_ok :: "dict \<Rightarrow> bool" where
  "line_ok d \<longleftrightarrow> (\<exists>s m. d = (''status'', JStr s) # metrics_dict m \<and> figures_ok m)"

lemma status_line: "dict_merge [(''status'', JStr s)] (metrics_dict m) = (''status'', JStr s) # metrics_dict m"
  by (simp add: metrics_dict_def)

lemma verdict_of_line [simp]: "verdict_of ((''status'', JStr s) # metrics_dict m) = m_correctness m"
  by (simp add: verdict_of_def metrics_dict_def)

lemma line_json: "line_ok d \<Longrightarrow> json_ok (JObj d) \<and> ''tps'' \<in> fst ` set d"
  by (auto simp: line_ok_def figures_ok_def metrics_dict_def moderate_def storable_def JInt_def)

lemma line_sample: "line_ok d \<Longrightarrow> run_sample d"
  by (auto simp: line_ok_def figures_ok_def run_sample_def tame_field_def event_field_def verdict_field_def
      metrics_dict_def moderate_tame JInt_def)

section \<open>What a worker prints\<close>

definition counted :: "contestant \<Rightarrow> nat \<Rightarrow> bool" where
  "counted st k \<longleftrightarrow> ready st k \<and> 0 \<le> total_events st \<and> total_events st + int k \<le> 2 ^ 53"

lemma counted_prune: "counted st k \<Longrightarrow> counted (prune now st) k"
  by (simp add: counted_def ready_prune del: prune_simps) (simp add: prune_def)

lemma counted_accept: "counted st (Suc k) \<Longrightarrow> event_fits e \<Longrightarrow> counted (accept now st e) k"
  by (simp add: counted_def ready_accept)

definition healthy_window :: "contestant \<Rightarrow> bool" where
  "healthy_window st \<longleftrightarrow> (\<exists>x. window_seconds st = Fin x \<and> float_ok (Fin x) \<and> 1 / 1000 \<le> x)"

lemma metrics_line:
  assumes "counted st k" "healthy_window st"
  shows "\<exists>m. metrics now st = Inr (m, prune now st) \<and> figures_ok m \<and> m_correctness m = correctness st"
proof -
  have ok: "samples_ok st" using assms(1) by (auto simp: counted_def dest: ready_samples_ok)
  obtain m where m: "metrics now st = Inr (m, prune now st)" using metrics_total [OF ok] by blast
  obtain x where x: "window_seconds st = Fin x" "float_ok (Fin x)" "1 / 1000 \<le> x"
    using assms(2) unfolding healthy_window_def by blast
  have "figures_ok m"
    using metrics_moderate [OF m ok x] metrics_copies [OF m] assms(1) by (simp add: figures_ok_def counted_def)
  with m metrics_copies [OF m] show ?thesis by blast
qed

text \<open>A worker that has reported nothing but PASSED and has room for \<open>k\<close> more trades.\<close>

definition clean_worker :: "nat \<Rightarrow> worker \<Rightarrow> bool" where
  "clean_worker k w \<longleftrightarrow> counted (w_state w) k \<and> healthy_window (w_state w) \<and> correctness (w_state w) = ''PASSED'' \<and>
     list_all (\<lambda>d. line_ok d \<and> verdict_of d = ''PASSED'') (w_out w)"

text \<open>The ways a part of the loop can leave such a worker, with at most \<open>n\<close> lines more.\<close>

definition clean_end :: "nat \<Rightarrow> nat \<Rightarrow> worker \<Rightarrow> worker \<times> ctrl \<Rightarrow> bool" where
  "clean_end k n w r \<longleftrightarrow>
     length (w_out (fst r)) \<le> length (w_out w) + n \<and>
     (if snd r = Running then clean_worker k (fst r)
      else snd r = Returned \<and> list_all line_ok (w_out (fst r)) \<and> w_out (fst r) \<noteq> [] \<and>
        verdict_of (last (w_out (fst r))) \<noteq> ''PASSED'')"

lemma publish_out:
  assumes "redis_fails ev = (\<lambda>_ _. None)"
  shows "\<exists>w'. publish_metrics ev a m w = (w', Running) \<and> w_state w' = w_state w \<and> w_out w' = w_out w"
  using publish_metrics_ok [OF assms, of a m w] by fastforce

lemma disqualify_line:
  assumes "redis_fails ev = (\<lambda>_ _. None)" "clean_worker k w" "reason \<noteq> ''PASSED''"
  shows "clean_end j 1 w (disqualify ev a reason w (\<lambda>m w. (print_json ''disqualified'' m w, Returned)))"
proof -
  let ?st = "(w_state w)\<lparr>correctness := reason\<rparr>" and ?now = "clock ev (w_reads w)"
  have "counted ?st k" "healthy_window ?st"
    using assms(2) by (simp_all add: clean_worker_def counted_def ready_correctness healthy_window_def)
  then obtain m where m: "metrics ?now ?st = Inr (m, prune ?now ?st)" "figures_ok m" "m_correctness m = reason"
    using metrics_line [of ?st k ?now] by auto
  let ?m = "m\<lparr>m_score := PyF (Fin (- 1))\<rparr>"
  have f: "figures_ok ?m" using m(2) by (simp add: figures_ok_def storable_def rnd_minus)
  obtain w' where "publish_metrics ev a ?m (w\<lparr>w_reads := Suc (w_reads w), w_state := prune ?now ?st\<rparr>) = (w', Running)"
    "w_out w' = w_out w"
    using publish_out [OF assms(1), of a ?m "w\<lparr>w_reads := Suc (w_reads w), w_state := prune ?now ?st\<rparr>"] by auto
  then have "disqualify ev a reason w (\<lambda>m w. (print_json ''disqualified'' m w, Returned)) =
      (print_json ''disqualified'' ?m w', Returned)"
    using m(1) by (simp add: disqualify_def take_metrics_def read_clock_def Let_def)
  moreover have "line_ok ((''status'', JStr ''disqualified'') # metrics_dict ?m)" using f line_ok_def by blast
  moreover have "list_all line_ok (w_out w)" using assms(2) by (auto simp: clean_worker_def list_all_iff)
  ultimately show ?thesis
    using \<open>w_out w' = w_out w\<close> m(3) assms(3) by (simp add: clean_end_def print_json_def status_line)
qed

lemma worker_events_lines:
  assumes "redis_fails ev = (\<lambda>_ _. None)"
  shows "clean_worker (length es + k) w \<Longrightarrow> list_all event_fits es \<Longrightarrow>
     clean_end k 1 w (worker_events ev a es w) \<and>
     (snd (worker_events ev a es w) = Running \<longrightarrow> w_out (fst (worker_events ev a es w)) = w_out w)"
proof (induction es arbitrary: w)
  case Nil
  then show ?case by (simp add: clean_end_def)
next
  case (Cons e es)
  show ?case
  proof (cases "validate (w_state w) e")
    case None
    let ?w = "w\<lparr>w_reads := Suc (w_reads w), w_state := accept (clock ev (w_reads w)) (w_state w) e\<rparr>"
    have "clean_worker (length es + k) ?w"
      using Cons.prems counted_accept [of "w_state w" "length es + k" e]
      by (simp add: clean_worker_def healthy_window_def)
    from Cons.IH [OF this] Cons.prems(2) None show ?thesis by (simp add: read_clock_def clean_end_def)
  next
    case (Some v)
    have "clean_end k 1 w (worker_events ev a (e # es) w)"
      using disqualify_line [OF assms Cons.prems(1) violation_text_not_passed] Some by simp
    moreover have "snd (worker_events ev a (e # es) w) \<noteq> Running"
      using violation_steps [OF Some _ assms, of a es] Cons.prems(1) ready_samples_ok
      by (auto simp: clean_worker_def counted_def)
    ultimately show ?thesis by blast
  qed
qed

lemma worker_report_lines:
  assumes "redis_fails ev = (\<lambda>_ _. None)" "clean_worker k w"
  shows "clean_end k 1 w (worker_report ev a w)"
proof -
  let ?w = "w\<lparr>w_reads := Suc (w_reads w)\<rparr>" and ?now = "clock ev (Suc (w_reads w))"
  let ?w' = "?w\<lparr>w_reads := Suc (Suc (w_reads w)), w_state := prune ?now (w_state w)\<rparr>"
  have st: "counted (w_state w) k" "healthy_window (w_state w)" "correctness (w_state w) = ''PASSED''"
    using assms(2) by (simp_all add: clean_worker_def)
  obtain m where m: "metrics ?now (w_state w) = Inr (m, prune ?now (w_state w))" "figures_ok m"
    "m_correctness m = ''PASSED''" using metrics_line [OF st(1,2)] st(3) by metis
  obtain w'' where w'': "publish_metrics ev a m ?w' = (w'', Running)" "w_state w'' = prune ?now (w_state w)"
    "w_out w'' = w_out w" using publish_out [OF assms(1), of a m ?w'] by auto
  have "line_ok ((''status'', JStr ''ok'') # metrics_dict m)" using m(2) line_ok_def by blast
  moreover have "healthy_window (prune ?now (w_state w))" using st(2) by (simp add: healthy_window_def)
  moreover have "correctness (prune ?now (w_state w)) = ''PASSED''" using st(3) by simp
  ultimately show ?thesis
    using assms(2) m(1,3) w'' counted_prune [OF st(1)]
    by (simp add: worker_report_def read_clock_def take_metrics_def clean_end_def clean_worker_def print_json_def
        status_line del: prune_simps)
qed

text \<open>One turn of the loop prints at most one line, and only a disqualification ends it.\<close>

lemma worker_iter_lines:
  assumes "redis_fails ev = (\<lambda>_ _. None)" "clean_worker (length es + k) w" "list_all event_fits es"
  shows "clean_end k 1 w (worker_iter ev a (Payload (concat (map trade_event_wire es))) w)"
proof -
  have m: "worker_message ev a (Payload (concat (map trade_event_wire es))) w = worker_events ev a es w"
    using assms(3) by (simp add: worker_message_def unpack_trade_wire)
  obtain w' c where r: "worker_events ev a es w = (w', c)" by (cases "worker_events ev a es w")
  note e = worker_events_lines [OF assms, of a]
  show ?thesis
  proof (cases "c = Running")
    case True
    with e r have "clean_worker k w'" "w_out w' = w_out w" by (simp_all add: clean_end_def)
    with worker_report_lines [OF assms(1), of k w' a] True r m show ?thesis
      by (simp add: worker_iter_def clean_end_def)
  next
    case False
    with e r m show ?thesis by (cases c) (simp_all add: worker_iter_def)
  qed
qed

lemma worker_loop_lines:
  assumes "redis_fails ev = (\<lambda>_ _. None)"
  shows "clean_worker (length (concat batches)) w \<Longrightarrow> list_all event_fits (concat batches) \<Longrightarrow>
     clean_end 0 (length batches) w (worker_loop ev a (map (\<lambda>b. Payload (concat (map trade_event_wire b))) batches) w)"
proof (induction batches arbitrary: w)
  case Nil
  then show ?case by (simp add: clean_end_def)
next
  case (Cons b batches)
  let ?it = "worker_iter ev a (Payload (concat (map trade_event_wire b))) w"
  obtain w' c where r: "?it = (w', c)" by (cases ?it)
  have it: "clean_end (length (concat batches)) 1 w ?it"
    using Cons.prems by (intro worker_iter_lines [OF assms]) simp_all
  show ?case
  proof (cases "c = Running")
    case True
    with it r have w': "clean_worker (length (concat batches)) w'" "length (w_out w') \<le> length (w_out w) + 1"
      by (simp_all add: clean_end_def)
    from Cons.IH [OF w'(1)] Cons.prems(2) w'(2) True r show ?thesis by (auto simp: clean_end_def)
  next
    case False
    with it r show ?thesis by (cases c) (simp_all add: clean_end_def)
  qed
qed

section \<open>The benchmark's verdict\<close>

text \<open>
  A log that shows the lines of a worker's output from some line on (the harvest asks only for lines
  since the start of the run), between lines of anything else.
\<close>

definition log_of :: "worker \<Rightarrow> (dict + string) list \<Rightarrow> bool" where
  "log_of w ls \<longleftrightarrow>
     (\<exists>n. logged_samples ls = drop n (w_out w)) \<and>
     list_all (\<lambda>l. case l of Inl d \<Rightarrow> True | Inr s \<Rightarrow> clean_line (Inr s)) ls"

lemma in_logged: "Inl d \<in> set ls \<Longrightarrow> d \<in> set (logged_samples ls)"
  by (induction ls) (auto simp: logged_samples_def)

lemma log_clean: "log_of w ls \<Longrightarrow> list_all line_ok (w_out w) \<Longrightarrow> list_all clean_line ls"
proof -
  assume a: "log_of w ls" "list_all line_ok (w_out w)"
  have "clean_line l" if "l \<in> set ls" for l
  proof (cases l)
    case (Inl d)
    with that have "d \<in> set (logged_samples ls)" using in_logged by simp
    with a(1) have "d \<in> set (w_out w)" by (auto simp: log_of_def dest: in_set_dropD)
    with a(2) Inl line_json show ?thesis by (auto simp: clean_line_def list_all_iff simp del: json_ok.simps)
  qed (use a(1) that in \<open>auto simp: log_of_def list_all_iff\<close>)
  then show ?thesis by (simp add: list_all_iff)
qed

text \<open>What the harvest of a worker's log tells: all PASSED exactly when the trades were legal.\<close>

lemma harvest_worker:
  assumes "redis_fails ev = (\<lambda>_ _. None)" "list_all event_fits (concat batches)"
    and "int (length (concat batches)) \<le> 2 ^ 53" "healthy_window (new_contestant window)"
    and "w = fst (worker_main ev a window (map (\<lambda>b. Payload (concat (map trade_event_wire b))) batches))"
    and "log_of w ls"
  shows "samples_in (log_text ls) = logged_samples ls" "list_all run_sample (logged_samples ls)"
    "length (logged_samples ls) \<le> length batches"
    "logged_samples ls \<noteq> [] \<Longrightarrow>
       list_all (\<lambda>d. verdict_of d = ''PASSED'') (logged_samples ls) \<longleftrightarrow> legal_from None (concat batches)"
proof -
  let ?msgs = "map (\<lambda>b. Payload (concat (map trade_event_wire b))) batches"
  let ?r = "worker_loop ev a ?msgs (new_worker ev window)"
  have "clean_worker (length (concat batches)) (new_worker ev window)"
    using assms(3,4) ready_new [OF assms(3)]
    by (simp add: clean_worker_def new_worker_def counted_def new_contestant_def)
  from worker_loop_lines [OF assms(1) this assms(2)] have e: "clean_end 0 (length batches) (new_worker ev window) ?r" .
  have out: "w_out w = w_out (fst ?r)" using assms(5) by (simp add: worker_main_def split: prod.splits)
  have v: "snd ?r = (if legal_from None (concat batches) then Running else Returned)"
    using worker_loop_verdict [OF assms(1), of "new_worker ev window" batches a]
      ready_new [OF assms(3), of window] assms(2) by (simp add: new_worker_def new_contestant_def)
  have ok: "list_all line_ok (w_out w)"
    using e unfolding out by (auto simp: clean_end_def clean_worker_def list_all_iff split: if_splits)
  then show "samples_in (log_text ls) = logged_samples ls"
    using harvest_log log_clean [OF assms(6)] by blast
  obtain n where n: "logged_samples ls = drop n (w_out w)" using assms(6) unfolding log_of_def by blast
  show "list_all run_sample (logged_samples ls)"
    using ok line_sample unfolding n by (auto simp: list_all_iff dest: in_set_dropD)
  have "length (w_out w) \<le> length batches" using e unfolding out by (simp add: clean_end_def new_worker_def)
  then show "length (logged_samples ls) \<le> length batches" unfolding n by simp
  assume ne: "logged_samples ls \<noteq> []"
  show "list_all (\<lambda>d. verdict_of d = ''PASSED'') (logged_samples ls) \<longleftrightarrow> legal_from None (concat batches)"
  proof (cases "legal_from None (concat batches)")
    case True
    then have "list_all (\<lambda>d. verdict_of d = ''PASSED'') (w_out w)"
      using e v unfolding out by (auto simp: clean_end_def clean_worker_def list_all_iff)
    with True show ?thesis unfolding n by (auto simp: list_all_iff dest: in_set_dropD)
  next
    case False
    have "w_out w \<noteq> []" "verdict_of (last (w_out w)) \<noteq> ''PASSED''"
      using e v False unfolding out by (auto simp: clean_end_def split: if_splits)
    moreover have "last (drop n (w_out w)) = last (w_out w)" using ne unfolding n by (simp add: last_drop)
    moreover have "last (drop n (w_out w)) \<in> set (drop n (w_out w))" by (rule last_in_set) (use ne n in simp)
    ultimately show ?thesis using False unfolding n list_all_iff by metis
  qed
qed


lemma logged_all [simp]: "logged_samples (map Inl ds) = ds"
  by (induction ds) (simp_all add: logged_samples_def)

lemma log_of_all: "log_of w (Inr ''%7|1.0|FAIL|rdkafka'' # map Inl (w_out w))"
proof -
  have "logged_samples (Inr ''%7|1.0|FAIL|rdkafka'' # map Inl (w_out w)) = drop 0 (w_out w)"
    using logged_all [of "w_out w"] by (simp add: logged_samples_def)
  moreover have "clean_line (Inr ''%7|1.0|FAIL|rdkafka'')"
    by (simp add: clean_line_def one_line_def is_boundary_def strip_def is_white_def)
  moreover have "list_all (\<lambda>l. case l of Inl d \<Rightarrow> True | Inr s \<Rightarrow> clean_line (Inr s)) (map Inl (w_out w))"
    by (simp add: list_all_iff)
  ultimately show ?thesis unfolding log_of_def by (intro conjI exI) (assumption, simp)
qed


end
