(* ===== verification/BotFleet.thy ===== *)
theory BotFleet
  imports Bots
begin

text \<open>
  The three strategies of \<^verbatim>\<open>bot-fleet/main.py\<close>, the fleet \<open>main\<close> builds and stops, and the
  reporter. A random draw is an input: \<open>randint\<close> and \<open>choice\<close> by the value drawn, \<open>uniform(a, b)\<close>
  by the underlying \<open>random()\<close> value. An iteration also takes what the network does to each of its
  orders and whether \<open>disconnect\<close> ran during its sleep.
\<close>

section \<open>Placing an order\<close>

record order_env =
  at_ns :: int
  attempts :: "attempt list"
  write_ok :: bool
  frame_mask :: bytes

datatype logic_end = Finished | AwaitingInput | Suspended | Died py_error

text \<open>\<open>await self.send_order(self.format_order(side, qty, price))\<close>: an end is an exception or a wait.\<close>

definition place :: "order_env \<Rightarrow> char \<Rightarrow> int \<Rightarrow> pyfloat \<Rightarrow> bot \<Rightarrow> bot \<times> logic_end option" where
  "place e side qty price b =
     (case format_order side qty price (at_ns e) b of
        (Inl err, b) \<Rightarrow> (b, Some (Died err))
      | (Inr order, b) \<Rightarrow>
          (case send_order (attempts e) (write_ok e) (frame_mask e) order b of
             (b, _, SendEscaped err) \<Rightarrow> (b, Some (Died err))
           | (b, _, Waiting) \<Rightarrow> (b, Some Suspended)
           | (b, _, _) \<Rightarrow> (b, None)))"

fun while_running :: "('s \<Rightarrow> bool) \<Rightarrow> ('i \<Rightarrow> 's \<Rightarrow> 's \<times> logic_end option) \<Rightarrow> 'i list \<Rightarrow> 's \<Rightarrow> 's \<times> logic_end" where
  "while_running run body [] s = (s, if run s then AwaitingInput else Finished)"
| "while_running run body (i # inputs) s =
     (if \<not> run s then (s, Finished)
      else case body i s of
             (s', None) \<Rightarrow> while_running run body inputs s'
           | (s', Some e) \<Rightarrow> (s', e))"

definition uniform :: "pyfloat \<Rightarrow> pyfloat \<Rightarrow> pyfloat \<Rightarrow> pyfloat" where
  "uniform a b r = fadd a (fmul (fsub b a) r)"

definition after_sleep :: "bool \<Rightarrow> bot \<Rightarrow> bot" where
  "after_sleep stop b = (if stop then disconnect b else b)"

section \<open>Market maker\<close>

record market_maker =
  mm_bot :: bot
  inventory :: int
  mid_price :: pyfloat

definition spread :: pyfloat where
  "spread = Fin (1 / 2)"

definition mm_quotes :: "int \<Rightarrow> pyfloat \<Rightarrow> (pyfloat \<times> pyfloat) result" where
  "mm_quotes inven mid =
     rbind (num_truediv (PyI inven) (PyF (Fin 1000))) (\<lambda>q.
     rbind (num_float q) (\<lambda>q.
       let skew = fmul q spread
       in Inr (fsub (fsub mid spread) skew, fsub (fadd mid spread) skew)))"

record mm_input =
  bid_env :: order_env
  ask_env :: order_env
  mm_qty :: int
  inventory_step :: int
  mm_draw :: pyfloat
  mm_stop :: bool

definition mm_iter :: "mm_input \<Rightarrow> market_maker \<Rightarrow> market_maker \<times> logic_end option" where
  "mm_iter i s =
     (case mm_quotes (inventory s) (mid_price s) of
        Inl err \<Rightarrow> (s, Some (Died err))
      | Inr (bid, ask) \<Rightarrow>
          (case place (bid_env i) CHR ''B'' (mm_qty i) bid (mm_bot s) of
             (b, Some e) \<Rightarrow> (s\<lparr>mm_bot := b\<rparr>, Some e)
           | (b, None) \<Rightarrow>
               (case place (ask_env i) CHR ''S'' (mm_qty i) ask b of
                  (b, Some e) \<Rightarrow> (s\<lparr>mm_bot := b\<rparr>, Some e)
                | (b, None) \<Rightarrow>
                    (s\<lparr>mm_bot := after_sleep (mm_stop i) b,
                       inventory := inventory s + inventory_step i,
                       mid_price := fadd (mid_price s)
                         (uniform (fneg (to_f64 (1 / 10))) (to_f64 (1 / 10)) (mm_draw i))\<rparr>, None))))"

definition mm_logic :: "mm_input list \<Rightarrow> bot \<Rightarrow> market_maker \<times> logic_end" where
  "mm_logic is b =
     while_running (running \<circ> mm_bot) mm_iter is \<lparr>mm_bot = b, inventory = 0, mid_price = Fin 100\<rparr>"

section \<open>Noise and momentum\<close>

record noise_input =
  noise_env :: order_env
  noise_side :: char
  noise_qty :: int
  noise_draw :: pyfloat
  noise_stop :: bool

definition noise_iter :: "noise_input \<Rightarrow> bot \<Rightarrow> bot \<times> logic_end option" where
  "noise_iter i b =
     (let price = fadd (Fin 100) (uniform (Fin (- 2)) (Fin 2) (noise_draw i))
      in case place (noise_env i) (noise_side i) (noise_qty i) price b of
           (b, Some e) \<Rightarrow> (b, Some e)
         | (b, None) \<Rightarrow> (after_sleep (noise_stop i) b, None))"

definition noise_logic :: "noise_input list \<Rightarrow> bot \<Rightarrow> bot \<times> logic_end" where
  "noise_logic = while_running running noise_iter"

record momentum =
  mo_bot :: bot
  current_price :: pyfloat
  trend_direction :: int

record momentum_input =
  mo_env :: order_env
  mo_qty :: int
  flip_draw :: pyfloat
  step_draw :: pyfloat
  mo_stop :: bool

definition momentum_iter :: "momentum_input \<Rightarrow> momentum \<Rightarrow> momentum \<times> logic_end option" where
  "momentum_iter i s =
     (let side = (if trend_direction s > 0 then CHR ''B'' else CHR ''S'')
      in case place (mo_env i) side (mo_qty i) (current_price s) (mo_bot s) of
           (b, Some e) \<Rightarrow> (s\<lparr>mo_bot := b\<rparr>, Some e)
         | (b, None) \<Rightarrow>
             (let trend = (if flt (flip_draw i) (to_f64 (1 / 10)) then trend_direction s * - 1
                           else trend_direction s)
              in case rbind (num_mul (PyI trend) (PyF (uniform (to_f64 (1 / 100)) (to_f64 (1 / 5)) (step_draw i))))
                        (\<lambda>d. num_add (PyF (current_price s)) d) of
                   Inr p \<Rightarrow>
                     (case num_float p of
                        Inr x \<Rightarrow> (s\<lparr>mo_bot := after_sleep (mo_stop i) b, current_price := x,
                                    trend_direction := trend\<rparr>, None)
                      | Inl err \<Rightarrow> (s\<lparr>mo_bot := b, trend_direction := trend\<rparr>, Some (Died err)))
                 | Inl err \<Rightarrow> (s\<lparr>mo_bot := b, trend_direction := trend\<rparr>, Some (Died err))))"

definition momentum_logic :: "momentum_input list \<Rightarrow> bot \<Rightarrow> momentum \<times> logic_end" where
  "momentum_logic is b =
     while_running (running \<circ> mo_bot) momentum_iter is
       \<lparr>mo_bot = b, current_price = Fin 100, trend_direction = 1\<rparr>"

text \<open>
  \<open>run\<close>: start, connect after the stagger, then the strategy; the first connection's read loop is a
  task of its own (\<open>read_loop\<close>). \<open>connect\<close> returning False does not keep the strategy from running.
\<close>

definition run_bot :: "attempt list \<Rightarrow> (bot \<Rightarrow> 's \<times> logic_end) \<Rightarrow> bot \<Rightarrow> (bot + 's \<times> logic_end)" where
  "run_bot atts logic b =
     (case connect atts (b\<lparr>running := True\<rparr>) of
        (b, _, Escaped e) \<Rightarrow> Inl b
      | (b, _, Pending) \<Rightarrow> Inl b
      | (b, _, _) \<Rightarrow> Inr (logic b))"

section \<open>The fleet\<close>

datatype bot_kind = MarketMakerBot | NoiseBot | MomentumBot

fun make_bots :: "(bot_kind \<times> int) list \<Rightarrow> int \<Rightarrow> string \<Rightarrow> int \<Rightarrow> (bot_kind \<times> bot) list" where
  "make_bots [] i h p = []"
| "make_bots ((kind, count) # configs) i h p =
     map (\<lambda>j. (kind, new_bot (i + int j) h p)) [0..<nat count] @
     make_bots configs (i + int (nat count)) h p"

record fleet_args =
  f_host :: string
  f_port :: int
  f_mm :: int
  f_noise :: int
  f_momentum :: int
  f_duration :: int

definition fleet_defaults :: fleet_args where
  "fleet_defaults = \<lparr>f_host = ''127.0.0.1'', f_port = 8080, f_mm = 50, f_noise = 100,
     f_momentum = 20, f_duration = 30\<rparr>"

definition create_fleet :: "fleet_args \<Rightarrow> (bot_kind \<times> bot) list" where
  "create_fleet a =
     make_bots [(MarketMakerBot, f_mm a), (NoiseBot, f_noise a), (MomentumBot, f_momentum a)] 1
       (f_host a) (f_port a)"

definition stop_fleet :: "(bot_kind \<times> bot) list \<Rightarrow> (bot_kind \<times> bot) list" where
  "stop_fleet = map (\<lambda>(k, b). (k, disconnect b))"

text \<open>The \<open>,.0f\<close> format: rounded half to even to an integer, with commas and the sign of the value.\<close>

fun format_comma_0f :: "pyfloat \<Rightarrow> string" where
  "format_comma_0f (Fin x) = (if x < 0 then CHR ''-'' # comma_int (round_half_even (- x))
                              else comma_int (round_half_even x))"
| "format_comma_0f PInf = ''inf''"
| "format_comma_0f NInf = ''-inf''"
| "format_comma_0f NaN = ''nan''"

definition metrics_line :: "int \<Rightarrow> string \<Rightarrow> int \<Rightarrow> int \<Rightarrow> string" where
  "metrics_line sent ops drops fails =
     ''[Metrics] Total Sent: '' @ comma_int sent @ '' | OPS: '' @ ops @ ''/sec | Drops: '' @
     comma_int drops @ '' | Fails: '' @ comma_int fails"

text \<open>One round of \<open>metrics_reporter\<close>: the line printed, and the new \<open>last_sent\<close>.\<close>

definition metrics_tick :: "pyfloat \<Rightarrow> int \<Rightarrow> bot list \<Rightarrow> (string \<times> int) result" where
  "metrics_tick interval last_sent bots =
     (let total_sent = sum_list (map orders_sent bots);
          total_fails = sum_list (map failed_messages bots);
          total_drops = sum_list (map connection_drops bots)
      in rbind (num_truediv (PyI (total_sent - last_sent)) (PyF interval)) (\<lambda>ops.
         rbind (num_float ops) (\<lambda>ops.
           Inr (metrics_line total_sent (format_comma_0f ops) total_drops total_fails, total_sent))))"

section \<open>Quotes never cross\<close>

lemma fsub_both_mono: "fle x y \<Longrightarrow> is_finite x \<Longrightarrow> is_finite y \<Longrightarrow> fle (fsub x (Fin s)) (fsub y (Fin s))"
  by (cases x; cases y) (simp_all add: fsub_def to_f64_mono)

lemma mm_quotes_ordered:
  assumes "\<bar>inven\<bar> \<le> 2 ^ 50" "\<bar>m\<bar> \<le> 2 ^ 50"
  shows "\<exists>bid ask. mm_quotes inven (Fin m) = Inr (bid, ask) \<and> float_ok bid \<and> float_ok ask \<and> fle bid ask"
proof -
  have i: "(of_int (- (2 ^ 50)) :: rat) \<le> of_int inven" "(of_int inven :: rat) \<le> of_int (2 ^ 50)"
    using assms(1) by (simp_all only: of_int_le_iff abs_le_iff) linarith+
  have lim: "\<bar>inven\<bar> \<le> 2 ^ 53" "\<bar>- (2 ^ 51) :: int\<bar> \<le> 2 ^ 53" "\<bar>2 ^ 51 :: int\<bar> \<le> 2 ^ 53" using assms(1) by simp_all
  have between: "\<exists>y. to_f64 x = Fin y \<and> of_int (- (2 ^ 51)) \<le> y \<and> y \<le> of_int (2 ^ 51)"
    if "of_int (- (2 ^ 51)) \<le> x" "x \<le> of_int (2 ^ 51)" for x
    by (rule to_f64_between [OF that lim(2,3)])
  obtain q where q: "to_f64 (of_int inven / 1000) = Fin q" "of_int (- (2 ^ 51)) \<le> q" "q \<le> of_int (2 ^ 51)"
    using between [of "of_int inven / 1000"] i by auto
  obtain k where k: "to_f64 (q * (1 / 2)) = Fin k"
    using between [of "q * (1 / 2)"] q by auto
  have m: "- (2 ^ 50) \<le> m" "m \<le> 2 ^ 50" using assms(2) by linarith+
  obtain lo where lo: "to_f64 (m - 1 / 2) = Fin lo" using between [of "m - 1 / 2"] m by auto
  obtain hi where hi: "to_f64 (m + 1 / 2) = Fin hi" using between [of "m + 1 / 2"] m by auto
  have "fle (to_f64 (m - 1 / 2)) (to_f64 (m + 1 / 2))" by (rule to_f64_mono) simp
  with lo hi have "lo \<le> hi" by simp
  then have "fle (to_f64 (lo - k)) (to_f64 (hi - k))" by (intro to_f64_mono) simp
  moreover have "mm_quotes inven (Fin m) = Inr (to_f64 (lo - k), to_f64 (hi - k))"
    using q(1) k lo hi to_f64_of_int [OF lim(1)]
    by (simp add: mm_quotes_def spread_def fsub_def)
  ultimately show ?thesis by auto
qed

text \<open>What \<open>randint(-5, 5)\<close> and \<open>random()\<close> can yield.\<close>

definition mm_draws_ok :: "mm_input \<Rightarrow> bool" where
  "mm_draws_ok i \<longleftrightarrow> \<bar>inventory_step i\<bar> \<le> 5 \<and>
     (\<exists>r. mm_draw i = Fin r \<and> 0 \<le> r \<and> r < 1)"

lemma mm_drift:
  assumes "0 \<le> r" "r < 1"
  shows "\<exists>d. uniform (fneg (to_f64 (1 / 10))) (to_f64 (1 / 10)) (Fin r) = Fin d \<and> \<bar>d\<bar> \<le> 1"
proof -
  obtain t where t: "to_f64 (1 / 10) = Fin t" "0 \<le> t" "t \<le> 1"
    using to_f64_between [of 0 "1 / 10" 1] by auto
  then obtain w where w: "to_f64 (t + t) = Fin w" "0 \<le> w" "w \<le> 2"
    using to_f64_between [of 0 "t + t" 2] by auto
  have "fle (to_f64 (t + t)) (to_f64 1)"
    using t(1) by (intro to_f64_mono) (simp add: float_eval)
  then have w1: "w \<le> 1" using w by simp
  have "w * r \<le> 1" using w w1 assms by (simp add: mult_le_one)
  then obtain z where z: "to_f64 (w * r) = Fin z" "0 \<le> z" "z \<le> 1"
    using to_f64_between [of 0 "w * r" 1] w assms by auto
  obtain d where "to_f64 (- t + z) = Fin d" "- 1 \<le> d" "d \<le> 1"
    using to_f64_between [of "- 1" "- t + z" 1] z t by auto
  then show ?thesis using t w z by (auto simp: uniform_def fsub_def)
qed

definition mm_bounded :: "nat \<Rightarrow> market_maker \<Rightarrow> bool" where
  "mm_bounded n s \<longleftrightarrow> \<bar>inventory s\<bar> \<le> 5 * int n \<and>
     (\<exists>m. mid_price s = Fin m \<and> \<bar>m\<bar> \<le> 100 + of_nat n)"

lemma mm_bounded_mono: "mm_bounded n s \<Longrightarrow> n \<le> k \<Longrightarrow> mm_bounded k s"
proof -
  assume a: "mm_bounded n s" "n \<le> k"
  then have "(of_nat n :: rat) \<le> of_nat k" by simp
  with a show ?thesis unfolding mm_bounded_def by fastforce
qed

lemma mm_mid_step:
  assumes "\<bar>m\<bar> \<le> 100 + of_nat n" "\<bar>d\<bar> \<le> 1" "n \<le> 2 ^ 40"
  shows "\<exists>m'. fadd (Fin m) (Fin d) = Fin m' \<and> \<bar>m'\<bar> \<le> 100 + of_nat (Suc n)"
proof -
  let ?k = "101 + int n"
  have "(of_int (- ?k) :: rat) \<le> m + d" "m + d \<le> of_int ?k" using assms(1,2) by simp_all
  moreover have "\<bar>- ?k\<bar> \<le> 2 ^ 53" "\<bar>?k\<bar> \<le> 2 ^ 53"
  proof -
    have "int n \<le> 2 ^ 40" using assms(3) by simp
    then show "\<bar>- ?k\<bar> \<le> 2 ^ 53" "\<bar>?k\<bar> \<le> 2 ^ 53" by simp_all
  qed
  ultimately obtain y where "to_f64 (m + d) = Fin y" "of_int (- ?k) \<le> y" "y \<le> of_int ?k"
    using to_f64_between by blast
  then show ?thesis by (intro exI [of _ y]) simp
qed

lemma mm_iter_bounded:
  assumes "mm_bounded n s" "mm_draws_ok i" "n \<le> 2 ^ 40"
  shows "mm_bounded (Suc n) (fst (mm_iter i s))"
proof -
  have keep: "mm_bounded (Suc n) (s\<lparr>mm_bot := b\<rparr>)" for b
    using mm_bounded_mono [OF assms(1), of "Suc n"] by (simp add: mm_bounded_def)
  obtain r where r: "mm_draw i = Fin r" "0 \<le> r" "r < 1" "\<bar>inventory_step i\<bar> \<le> 5"
    using assms(2) by (auto simp: mm_draws_ok_def)
  obtain d where d: "uniform (fneg (to_f64 (1 / 10))) (to_f64 (1 / 10)) (mm_draw i) = Fin d" "\<bar>d\<bar> \<le> 1"
    using mm_drift [OF r(2,3)] r(1) by auto
  obtain m where m: "mid_price s = Fin m" "\<bar>m\<bar> \<le> 100 + of_nat n" "\<bar>inventory s\<bar> \<le> 5 * int n"
    using assms(1) by (auto simp: mm_bounded_def)
  obtain m' where m': "fadd (Fin m) (Fin d) = Fin m'" "\<bar>m'\<bar> \<le> 100 + of_nat (Suc n)"
    using mm_mid_step [OF m(2) d(2) assms(3)] by blast
  have "mm_bounded (Suc n) (s\<lparr>mm_bot := b, inventory := inventory s + inventory_step i,
      mid_price := fadd (mid_price s) (Fin d)\<rparr>)" for b
    using m' m(1,3) r(4) by (simp add: mm_bounded_def del: fadd.simps)
  then show ?thesis
    using keep mm_bounded_mono [OF assms(1), of "Suc n"]
    by (simp add: mm_iter_def d(1) del: fadd.simps split: sum.split prod.split option.split)
qed

lemma mm_run_bounded:
  "mm_bounded n s \<Longrightarrow> list_all mm_draws_ok is \<Longrightarrow> n + length is \<le> 2 ^ 40 \<Longrightarrow>
     mm_bounded (n + length is) (fst (while_running (running \<circ> mm_bot) mm_iter is s))"
proof (induction "is" arbitrary: n s)
  case Nil
  then show ?case by simp
next
  case (Cons i "is")
  have step: "mm_bounded (Suc n) (fst (mm_iter i s))"
    using Cons.prems by (intro mm_iter_bounded) auto
  obtain s' e where r: "mm_iter i s = (s', e)" by (cases "mm_iter i s")
  show ?case
  proof (cases "running (mm_bot s)")
    case False
    with Cons.prems mm_bounded_mono show ?thesis by simp
  next
    case True
    show ?thesis
    proof (cases e)
      case None
      with True r step Cons.IH [of "Suc n" s'] Cons.prems show ?thesis by simp
    next
      case (Some x)
      with True r step mm_bounded_mono [OF step, of "n + length (i # is)"] show ?thesis by simp
    qed
  qed
qed


section \<open>The fleet\<close>

lemma make_bots_ids:
  "map (bot_id \<circ> snd) (make_bots configs i h p) =
     map (\<lambda>j. i + int j) [0..<sum_list (map (nat \<circ> snd) configs)]"
proof (induction configs i h p rule: make_bots.induct)
  case (2 kind count configs i h p)
  let ?n = "nat count" and ?m = "sum_list (map (nat \<circ> snd) configs)"
  have u: "[0..<?n + ?m] = [0..<?n] @ map (\<lambda>j. j + ?n) [0..<?m]"
    using upt_add_eq_append [of 0 ?n ?m] map_add_upt [of ?n ?m] by (simp only: add.commute [of ?m])
  have "map (bot_id \<circ> snd) (make_bots ((kind, count) # configs) i h p) =
      map (\<lambda>j. i + int j) [0..<?n] @ map (\<lambda>j. i + int ?n + int j) [0..<?m]"
    unfolding make_bots.simps map_append 2 by (simp add: comp_def new_bot_def)
  also have "\<dots> = map (\<lambda>j. i + int j) [0..<?n + ?m]" unfolding u by (simp add: comp_def algebra_simps)
  finally show ?case by (simp add: comp_def del: make_bots.simps)
qed simp

lemma make_bots_new: "x \<in> set (make_bots configs i h p) \<Longrightarrow> snd x = new_bot (bot_id (snd x)) h p"
  by (induction configs i h p rule: make_bots.induct) (auto simp: new_bot_def)

text \<open>
  The fleet \<open>main\<close> builds has one bot per requested count (none for a negative one), numbered
  1, 2, 3, ... without gap or repetition, each in its initial state; so the orders of two bots of
  the fleet, up to a million each, never share an id.
\<close>

lemma fleet_order_ids:
  assumes "create_fleet a = fleet" "x < length fleet" "y < length fleet" "x \<noteq> y"
    and "m \<le> 1000000" "n \<le> 1000000"
  shows "map (bot_id \<circ> snd) fleet = map (\<lambda>j. 1 + int j) [0..<nat (f_mm a) + nat (f_noise a) + nat (f_momentum a)] \<and>
         set (fst (issue m (snd (fleet ! x)))) \<inter> set (fst (issue n (snd (fleet ! y)))) = {}"
proof
  show ids: "map (bot_id \<circ> snd) fleet =
      map (\<lambda>j. 1 + int j) [0..<nat (f_mm a) + nat (f_noise a) + nat (f_momentum a)]"
    using assms(1) make_bots_ids
      [of "[(MarketMakerBot, f_mm a), (NoiseBot, f_noise a), (MomentumBot, f_momentum a)]" 1 "f_host a" "f_port a"]
    by (auto simp: create_fleet_def add.assoc)
  then have "length fleet = nat (f_mm a) + nat (f_noise a) + nat (f_momentum a)"
    using map_eq_imp_length_eq [OF ids] by simp
  then have at: "bot_id (snd (fleet ! k)) = 1 + int k" if "k < length fleet" for k
    using arg_cong [OF ids, of "\<lambda>l. l ! k"] that by simp
  have new: "snd (fleet ! k) = new_bot (1 + int k) (f_host a) (f_port a)" if "k < length fleet" for k
  proof -
    have "fleet ! k \<in> set (create_fleet a)" using that assms(1) by simp
    from make_bots_new [OF this [unfolded create_fleet_def]] at [OF that] show ?thesis by simp
  qed
  have "1 + int x \<noteq> 1 + int y" using assms(4) by simp
  from disjoint_ids [OF this assms(5,6)] new [OF assms(2)] new [OF assms(3)]
  show "set (fst (issue m (snd (fleet ! x)))) \<inter> set (fst (issue n (snd (fleet ! y)))) = {}" by simp
qed

lemma disconnected_send:
  "send_order atts ok msk order (disconnect b) = (disconnect b, atts, Skipped)"
  by (cases atts) (simp_all add: send_order_def connect_def disconnect_def)

text \<open>
  After the fleet is stopped nothing more goes out: whatever order a task still tries to send,
  on whatever network, each stopped bot writes no frame, opens no connection and counts nothing.
\<close>

lemma stopped_fleet_silent:
  assumes "(k, b) \<in> set (stop_fleet fleet)"
  shows "send_order atts ok msk order b = (b, atts, Skipped) \<and> \<not> running b"
  using assms disconnected_send [of atts ok msk order] by (auto simp: stop_fleet_def disconnect_def)

section \<open>Witnesses\<close>

definition calm :: order_env where
  "calm = \<lparr>at_ns = 1, attempts = [answered], write_ok = True, frame_mask = [1, 2, 3, 4]\<rparr>"

definition sample_round :: mm_input where
  "sample_round = \<lparr>bid_env = calm, ask_env = calm, mm_qty = 10, inventory_step = - 5,
     mm_draw = Fin (1 / 4), mm_stop = False\<rparr>"


end
