(* ===== verification/BenchFleet.thy ===== *)
theory BenchFleet
  imports BotFleet PyText
begin

text \<open>
  How \<^verbatim>\<open>bench/run_loadtest.py\<close> reads the fleet's output back: \<open>parse_fleet_ops\<close> and
  \<open>parse_fleet_totals\<close>, against the line \<open>metrics_reporter\<close> of \<^verbatim>\<open>bot-fleet/main.py\<close> prints.
\<close>

section \<open>The parsers\<close>

definition ops_reading :: "string \<Rightarrow> pyfloat result" where
  "ops_reading line =
     rbind (after ''OPS:'' line) (\<lambda>r.
       parse_float (strip (replace ''/sec'' [] (replace '','' [] (before ''|'' r)))))"

fun parse_ops_lines :: "string list \<Rightarrow> pyfloat list" where
  "parse_ops_lines [] = []"
| "parse_ops_lines (line # rest) =
     (if \<not> contains ''[Metrics]'' line \<or> \<not> contains ''OPS:'' line then parse_ops_lines rest
      else case ops_reading line of
             Inr x \<Rightarrow> x # parse_ops_lines rest
           | Inl _ \<Rightarrow> parse_ops_lines rest)"

definition parse_fleet_ops :: "string \<Rightarrow> pyfloat list" where
  "parse_fleet_ops stdout = parse_ops_lines (splitlines stdout)"

record fleet_totals =
  t_sent :: "int option"
  t_drops :: "int option"
  t_fails :: "int option"

definition no_totals :: fleet_totals where
  "no_totals = \<lparr>t_sent = None, t_drops = None, t_fails = None\<rparr>"

definition total_field :: "string \<Rightarrow> string \<Rightarrow> int result" where
  "total_field field line =
     rbind (after field line) (\<lambda>r. parse_int (strip (replace '','' [] (before ''|'' r))))"

text \<open>
  The loop over the three fields of a line: a field that is absent is skipped, an exception leaves
  the rest of the line unread and the fields already stored in place.
\<close>

definition read_totals :: "string \<Rightarrow> fleet_totals \<Rightarrow> fleet_totals" where
  "read_totals line t =
     (let one = (\<lambda>field upd (t, live).
                   if live \<and> contains field line
                   then case total_field field line of Inr n \<Rightarrow> (upd n t, True) | Inl _ \<Rightarrow> (t, False)
                   else (t, live))
      in fst (one ''Fails:'' (\<lambda>n t. t\<lparr>t_fails := Some n\<rparr>)
          (one ''Drops:'' (\<lambda>n t. t\<lparr>t_drops := Some n\<rparr>)
            (one ''Total Sent:'' (\<lambda>n t. t\<lparr>t_sent := Some n\<rparr>) (t, True)))))"

definition parse_fleet_totals :: "string \<Rightarrow> fleet_totals" where
  "parse_fleet_totals stdout =
     fold (\<lambda>line t. if contains ''[Metrics]'' line then read_totals line t else t)
       (splitlines stdout) no_totals"

section \<open>Reading a report line back\<close>

lemma comma_nat_chars: "c \<in> set (comma_nat n) \<Longrightarrow> is_digit c \<or> c = CHR '',''"
proof -
  have "set (group3 cs) \<subseteq> set cs \<union> {CHR '',''}" for cs
    by (induction cs rule: group3.induct) auto
  then have "set (comma_nat n) \<subseteq> set (show_nat n) \<union> {CHR '',''}" by (force simp: comma_nat_def)
  then show "c \<in> set (comma_nat n) \<Longrightarrow> is_digit c \<or> c = CHR '',''"
    using show_nat_digits [of n] by (auto simp: list_all_iff)
qed

lemma comma_int_chars: "c \<in> set (comma_int n) \<Longrightarrow> is_digit c \<or> c = CHR '','' \<or> c = CHR ''-''"
  using comma_nat_chars by (auto simp: comma_int_def split: if_splits)

definition number_char :: "char \<Rightarrow> bool" where
  "number_char c \<longleftrightarrow> is_digit c \<or> c = CHR '','' \<or> c = CHR ''-''"

lemma number_char_not [simp]:
  "\<not> number_char CHR ''T''" "\<not> number_char CHR ''O''" "\<not> number_char CHR ''D''" "\<not> number_char CHR ''F''"
  "\<not> number_char CHR ''|''" "\<not> number_char CHR ''[''" "\<not> number_char CHR ''/''" "\<not> number_char CHR '' ''"
  by (auto simp: number_char_def is_digit_def)

lemma comma_int_number: "list_all number_char (comma_int n)"
  using comma_int_chars by (auto simp: list_all_iff number_char_def)

lemma find_sub_number:
  "p \<noteq> [] \<Longrightarrow> list_all number_char xs \<Longrightarrow> \<not> number_char (hd p) \<Longrightarrow>
     find_sub p (xs @ ys) = map_option ((+) (length xs)) (find_sub p ys)"
  by (rule find_sub_skip) (auto simp: list_all_iff)

lemma replace_from_char:
  "length s \<le> n \<Longrightarrow> replace_from n [c] [] s = filter (\<lambda>d. d \<noteq> c) s"
proof (induction n arbitrary: s)
  case (Suc n)
  then show ?case by (cases s) (auto simp: starts_with_def)
qed simp

lemma replace_comma: "replace '','' [] s = drop_commas s"
  by (simp add: replace_def replace_from_char drop_commas_def)

lemma replace_from_absent:
  "find_sub p s = None \<Longrightarrow> p \<noteq> [] \<Longrightarrow> replace_from n p q s = s"
  by (induction n arbitrary: s) (auto split: list.splits if_splits)

lemma replace_from_tail:
  "p \<noteq> [] \<Longrightarrow> hd p \<notin> set xs \<Longrightarrow> length xs \<le> n \<Longrightarrow>
     replace_from n p q (xs @ ys) = xs @ replace_from (n - length xs) p q ys"
proof (induction xs arbitrary: n)
  case (Cons x xs)
  from Cons.prems obtain m where n: "n = Suc m" by (cases n) auto
  have "\<not> starts_with p (x # xs @ ys)" using Cons.prems by (cases p) (auto simp: starts_with_def)
  with Cons n show ?case by simp
qed simp

text \<open>The text after a field up to the next bar, and what is left of it.\<close>

lemma before_bar:
  assumes "list_all number_char xs"
  shows "before ''|'' (CHR '' '' # xs @ '' |'' @ r) = CHR '' '' # xs @ '' ''"
    "before ''|'' (CHR '' '' # xs @ ''/sec |'' @ r) = CHR '' '' # xs @ ''/sec ''"
    "before ''|'' (CHR '' '' # xs) = CHR '' '' # xs"
  using find_sub_number [OF _ assms, of "''|''"] find_sub_number [OF _ assms, of "''|''" "[]"]
  by (simp_all add: before_def starts_with_def)

lemma field_number:
  "rbind (Inr (CHR '' '' # comma_int n @ '' |'' @ rest))
     (\<lambda>r. parse_int (strip (replace '','' [] (before ''|'' r)))) = Inr n"
  "rbind (Inr (CHR '' '' # comma_int n))
     (\<lambda>r. parse_int (strip (replace '','' [] (before ''|'' r)))) = Inr n"
proof -
  have ne: "show_int n \<noteq> []" "\<not> is_white (hd (show_int n))" "\<not> is_white (last (show_int n))"
    using show_nat_edges [of "nat n"] show_nat_edges [of "nat (- n)"] by (auto simp: show_int_def)
  have "drop_commas (CHR '' '' # comma_int n @ '' '') = CHR '' '' # show_int n @ '' ''"
    "drop_commas (CHR '' '' # comma_int n) = CHR '' '' # show_int n"
    using drop_commas_comma_int [of n] by (simp_all add: drop_commas_def)
  with strip_spaced [OF ne] before_bar [OF comma_int_number] show
    "rbind (Inr (CHR '' '' # comma_int n @ '' |'' @ rest))
       (\<lambda>r. parse_int (strip (replace '','' [] (before ''|'' r)))) = Inr n"
    "rbind (Inr (CHR '' '' # comma_int n))
       (\<lambda>r. parse_int (strip (replace '','' [] (before ''|'' r)))) = Inr n"
    by (simp_all add: replace_comma parse_int_show_int)
qed

lemma after_first: "p \<noteq> [] \<Longrightarrow> hd p \<notin> set pre \<Longrightarrow> after p (pre @ p @ r) = Inr r"
  by (simp add: after_def find_sub_skip find_sub_here)

lemma contains_field: "contains p (pre @ p @ r)"
  by (rule contains_append)

lemma number_not_in: "list_all number_char xs \<Longrightarrow> \<not> number_char c \<Longrightarrow> c \<notin> set xs"
  by (auto simp: list_all_iff)

text \<open>The line, cut at each of its fields.\<close>

lemma line_cuts:
  "metrics_line n ops d f = ''[Metrics] '' @ ''Total Sent:'' @
     (CHR '' '' # comma_int n @ '' |'' @ '' OPS: '' @ ops @ ''/sec | Drops: '' @ comma_int d @ '' | Fails: '' @ comma_int f)"
  "metrics_line n ops d f = (''[Metrics] Total Sent: '' @ comma_int n @ '' | '') @ ''OPS:'' @
     (CHR '' '' # ops @ ''/sec |'' @ '' Drops: '' @ comma_int d @ '' | Fails: '' @ comma_int f)"
  "metrics_line n ops d f =
     (''[Metrics] Total Sent: '' @ comma_int n @ '' | OPS: '' @ ops @ ''/sec | '') @ ''Drops:'' @
     (CHR '' '' # comma_int d @ '' |'' @ '' Fails: '' @ comma_int f)"
  "metrics_line n ops d f = (''[Metrics] Total Sent: '' @ comma_int n @ '' | OPS: '' @ ops @
     ''/sec | Drops: '' @ comma_int d @ '' | '') @ ''Fails:'' @ (CHR '' '' # comma_int f)"
  by (simp_all add: metrics_line_def)

lemma line_fields:
  "contains ''[Metrics]'' (metrics_line n ops d f)" "contains ''Total Sent:'' (metrics_line n ops d f)"
  "contains ''OPS:'' (metrics_line n ops d f)" "contains ''Drops:'' (metrics_line n ops d f)"
  "contains ''Fails:'' (metrics_line n ops d f)"
proof -
  show "contains ''[Metrics]'' (metrics_line n ops d f)"
    by (simp add: metrics_line_def starts_with_def)
qed (subst line_cuts(1), rule contains_field, subst line_cuts(2), rule contains_field,
  subst line_cuts(3), rule contains_field, subst line_cuts(4), rule contains_field)

lemma line_totals:
  assumes "list_all number_char ops"
  shows "total_field ''Total Sent:'' (metrics_line n ops d f) = Inr n"
    "total_field ''Drops:'' (metrics_line n ops d f) = Inr d"
    "total_field ''Fails:'' (metrics_line n ops d f) = Inr f"
proof -
  note out = number_not_in [OF comma_int_number] number_not_in [OF assms]
  show "total_field ''Total Sent:'' (metrics_line n ops d f) = Inr n"
    unfolding total_field_def line_cuts(1) by (subst after_first, simp, simp, rule field_number)
  show "total_field ''Drops:'' (metrics_line n ops d f) = Inr d"
    unfolding total_field_def line_cuts(3) by (subst after_first, simp, simp add: out, rule field_number)
  show "total_field ''Fails:'' (metrics_line n ops d f) = Inr f"
    unfolding total_field_def line_cuts(4) by (subst after_first, simp, simp add: out, rule field_number)
qed

lemma read_totals_line:
  "list_all number_char ops \<Longrightarrow>
     read_totals (metrics_line n ops d f) t = \<lparr>t_sent = Some n, t_drops = Some d, t_fails = Some f\<rparr>"
  by (simp add: read_totals_def line_fields line_totals)

text \<open>The rate: \<open>parse_float\<close> of the grouped integer.\<close>

lemma parse_float_show_nat: "parse_float (show_nat n) = Inr (to_f64 (of_nat n))"
proof -
  let ?s = "show_nat n"
  have d: "list_all is_digit ?s" "?s \<noteq> []" by (rule show_nat_digits, simp)
  obtain c cs where s: "?s = c # cs" "is_digit c" using d by (cases ?s) auto
  have low: "map ascii_lower ?s = ?s"
    using d(1) by (intro map_idI) (auto simp: list_all_iff ascii_lower_def is_digit_def Let_def)
  have none: "find_sub [c] ?s = None" if "\<not> is_digit c" for c
    using find_sub_skip [of "[c]" ?s "[]"] that d(1) by (auto simp: list_all_iff)
  have "strip ?s = ?s" by (rule strip_trim) (simp_all add: show_nat_edges)
  moreover have "split_sign ?s = (False, ?s)" using s by auto
  moreover have "?s \<noteq> ''inf''" "?s \<noteq> ''infinity''" "?s \<noteq> ''nan''" using s by (auto simp: is_digit_def)
  moreover have "\<not> is_digit CHR ''e''" "\<not> is_digit CHR ''.''" by (simp_all add: is_digit_def)
  ultimately show ?thesis
    using low none digit_run_digits [OF d(2,1)]
    by (simp add: parse_float_def parse_decimal_def parse_mantissa_def digits_val_show_nat)
qed

lemma ops_field_text:
  assumes "list_all number_char xs" "drop_commas xs = show_nat n"
  shows "strip (replace ''/sec'' [] (replace '','' [] (before ''|'' (CHR '' '' # xs @ ''/sec |'' @ r)))) = show_nat n"
proof -
  let ?s = "show_nat n"
  have ne: "?s \<noteq> []" "\<not> is_white (hd ?s)" "\<not> is_white (last ?s)" by (simp_all add: show_nat_edges)
  have c: "replace '','' [] (CHR '' '' # xs @ ''/sec '') = CHR '' '' # ?s @ ''/sec ''"
    unfolding replace_comma using assms(2) by (simp add: drop_commas_def)
  have "CHR ''/'' \<notin> set (CHR '' '' # ?s)" using show_nat_digits [of n] by (auto simp: list_all_iff)
  then have "replace ''/sec'' [] ((CHR '' '' # ?s) @ ''/sec '') = (CHR '' '' # ?s) @ '' ''"
    unfolding replace_def by (subst replace_from_tail) (simp_all add: starts_with_def eval_nat_numeral)
  then have "replace ''/sec'' [] (CHR '' '' # ?s @ ''/sec '') = CHR '' '' # ?s @ '' ''" by simp
  with strip_spaced [OF ne] show ?thesis unfolding before_bar(2) [OF assms(1)] c by simp
qed

lemma ops_reading_line:
  assumes "0 \<le> x"
  shows "list_all number_char (format_comma_0f (Fin x))"
    "ops_reading (metrics_line n (format_comma_0f (Fin x)) d f) = Inr (to_f64 (of_int (round_half_even x)))"
proof -
  let ?k = "nat (round_half_even x)" and ?o = "format_comma_0f (Fin x)"
  have k: "0 \<le> round_half_even x" using round_half_even_ge [of 0 x] assms by simp
  then have o: "?o = comma_nat ?k" using assms by (simp add: comma_int_def)
  have dc: "drop_commas ?o = show_nat ?k" unfolding o by (rule drop_commas_comma_nat)
  show num: "list_all number_char ?o" using assms comma_int_number by simp
  have "ops_reading (metrics_line n ?o d f) = parse_float (show_nat ?k)"
    unfolding ops_reading_def line_cuts(2)
    by (subst after_first, simp, simp add: number_not_in [OF comma_int_number])
      (simp only: rbind.simps ops_field_text [OF num dc])
  then show "ops_reading (metrics_line n ?o d f) = Inr (to_f64 (of_int (round_half_even x)))"
    using k by (simp add: parse_float_show_nat)
qed

section \<open>The whole output\<close>

lemma splitlines_unlines:
  "list_all one_line ls \<Longrightarrow> splitlines (concat (map (\<lambda>l. l @ [CHR 0x0A]) ls)) = ls"
  unfolding splitlines_def by (induction ls) (simp_all add: lines_from_line)

record report =
  r_sent :: int
  r_ops :: rat
  r_drops :: int
  r_fails :: int

definition report_line :: "report \<Rightarrow> string" where
  "report_line r = metrics_line (r_sent r) (format_comma_0f (Fin (r_ops r))) (r_drops r) (r_fails r)"

lemma number_char_plain: "list_all number_char xs \<Longrightarrow> one_line xs"
  by (auto simp: one_line_def list_all_iff number_char_def is_digit_def is_boundary_def Let_def)

lemma report_line_plain: "0 \<le> r_ops r \<Longrightarrow> one_line (report_line r)"
proof -
  assume "0 \<le> r_ops r"
  from number_char_plain [OF ops_reading_line(1) [OF this]] number_char_plain [OF comma_int_number]
  show ?thesis by (auto simp: report_line_def metrics_line_def one_line_def list_all_iff is_boundary_def)
qed

lemma parse_ops_lines_append: "parse_ops_lines (xs @ ys) = parse_ops_lines xs @ parse_ops_lines ys"
  by (induction xs) (auto split: sum.splits)

lemma parse_ops_reports:
  "list_all (\<lambda>r. 0 \<le> r_ops r) rs \<Longrightarrow>
     parse_ops_lines (map report_line rs) = map (\<lambda>r. to_f64 (of_int (round_half_even (r_ops r)))) rs"
  by (induction rs) (simp_all add: report_line_def line_fields ops_reading_line(2) del: format_comma_0f.simps)

lemma parse_ops_other:
  "list_all (\<lambda>l. \<not> contains ''[Metrics]'' l) ls \<Longrightarrow> parse_ops_lines ls = []"
  by (induction ls) simp_all

definition totals_of :: "report \<Rightarrow> fleet_totals" where
  "totals_of r = \<lparr>t_sent = Some (r_sent r), t_drops = Some (r_drops r), t_fails = Some (r_fails r)\<rparr>"

lemma fold_totals_reports:
  "list_all (\<lambda>r. 0 \<le> r_ops r) rs \<Longrightarrow>
     fold (\<lambda>line t. if contains ''[Metrics]'' line then read_totals line t else t) (map report_line rs) t =
       (if rs = [] then t else totals_of (last rs))"
  by (induction rs arbitrary: t)
    (simp_all add: report_line_def line_fields read_totals_line ops_reading_line(1) totals_of_def
      del: format_comma_0f.simps)

lemma fold_totals_other:
  "list_all (\<lambda>l. \<not> contains ''[Metrics]'' l) ls \<Longrightarrow>
     fold (\<lambda>line t. if contains ''[Metrics]'' line then read_totals line t else t) ls t = t"
  by (induction ls) simp_all

text \<open>
  What the fleet prints is what the benchmark reads: from an output that consists of any other
  lines before and after and one report line per reporting round, the harness recovers every
  round's rate, rounded to the integer that was printed, and exactly the last round's counters of
  orders sent, drops and failures.
\<close>

lemma fleet_output_read:
  assumes "list_all (\<lambda>l. one_line l \<and> \<not> contains ''[Metrics]'' l) (pre @ post)"
    and "list_all (\<lambda>r. 0 \<le> r_ops r) reports" "reports \<noteq> []"
    and "stdout = concat (map (\<lambda>l. l @ [CHR 0x0A]) (pre @ map report_line reports @ post))"
  shows "parse_fleet_ops stdout = map (\<lambda>r. to_f64 (of_int (round_half_even (r_ops r)))) reports \<and>
         parse_fleet_totals stdout = totals_of (last reports)"
proof -
  have lines: "splitlines stdout = pre @ map report_line reports @ post"
    unfolding assms(4) using assms(1,2) report_line_plain
    by (intro splitlines_unlines) (auto simp: list_all_iff)
  have other: "list_all (\<lambda>l. \<not> contains ''[Metrics]'' l) pre" "list_all (\<lambda>l. \<not> contains ''[Metrics]'' l) post"
    using assms(1) by (simp_all add: list_all_iff)
  show ?thesis
    using other assms(2,3)
    by (simp add: parse_fleet_ops_def parse_fleet_totals_def lines parse_ops_lines_append parse_ops_reports
        parse_ops_other fold_totals_reports fold_totals_other)
qed

end
