(* ===== verification/PyPath.thy ===== *)
theory PyPath
  imports PyText
begin

text \<open>
  POSIX paths as \<^verbatim>\<open>os.path\<close> handles them: \<open>path_join\<close>, \<open>normpath\<close>, \<open>abspath\<close> and \<open>relpath\<close>,
  the working directory being an argument. The lemmas follow a walk from a directory to a file below
  it: the components a walk adds are the components \<open>relpath\<close> returns.
\<close>

section \<open>Splitting and joining\<close>

text \<open>\<open>s.split(c)\<close> for a one-character separator, and \<open>c.join(ws)\<close>.\<close>

fun split_on :: "char \<Rightarrow> string \<Rightarrow> string list" where
  "split_on c [] = [[]]"
| "split_on c (x # xs) = (if x = c then [] # split_on c xs else (x # hd (split_on c xs)) # tl (split_on c xs))"

fun join_on :: "char \<Rightarrow> string list \<Rightarrow> string" where
  "join_on c [] = []"
| "join_on c [w] = w"
| "join_on c (w # v # ws) = w @ c # join_on c (v # ws)"

lemma split_on_nonempty [simp]: "split_on c s \<noteq> []"
  by (cases s) auto

lemma split_on_append: "split_on c (s @ c # t) = split_on c s @ split_on c t"
proof (induction s)
  case (Cons x s)
  then show ?case by (cases "split_on c s") (auto simp: split_on_nonempty)
qed simp

lemma split_on_plain: "c \<notin> set s \<Longrightarrow> split_on c s = [s]"
  by (induction s) auto

lemma split_on_join: "ws \<noteq> [] \<Longrightarrow> (\<And>w. w \<in> set ws \<Longrightarrow> c \<notin> set w) \<Longrightarrow> split_on c (join_on c ws) = ws"
  by (induction c ws rule: join_on.induct) (auto simp: split_on_append split_on_plain)

section \<open>Paths\<close>

abbreviation slash :: char where
  "slash \<equiv> CHR ''/''"

definition path_join :: "string \<Rightarrow> string \<Rightarrow> string" where
  "path_join a b =
     (if starts_with [slash] b then b
      else if a = [] \<or> last a = slash then a @ b
      else a @ slash # b)"

text \<open>One round of the loop of \<open>normpath\<close>; the components collected so far are in reverse order.\<close>

definition norm_step :: "bool \<Rightarrow> string list \<Rightarrow> string \<Rightarrow> string list" where
  "norm_step rooted acc w =
     (if w = [] \<or> w = ''.'' then acc
      else if w \<noteq> ''..'' \<or> (\<not> rooted \<and> acc = []) \<or> (acc \<noteq> [] \<and> hd acc = ''..'') then w # acc
      else tl acc)"

definition norm_comps :: "bool \<Rightarrow> string \<Rightarrow> string list" where
  "norm_comps rooted p = rev (foldl (norm_step rooted) [] (split_on slash p))"

definition initial_slashes :: "string \<Rightarrow> nat" where
  "initial_slashes p =
     (if \<not> starts_with [slash] p then 0
      else if starts_with [slash, slash] p \<and> \<not> starts_with [slash, slash, slash] p then 2 else 1)"

definition normpath :: "string \<Rightarrow> string" where
  "normpath p =
     (if p = [] then ''.''
      else let n = initial_slashes p;
               q = replicate n slash @ join_on slash (norm_comps (0 < n) p)
           in if q = [] then ''.'' else q)"

definition abspath :: "string \<Rightarrow> string \<Rightarrow> string" where
  "abspath cwd p = normpath (if starts_with [slash] p then p else path_join cwd p)"

fun common_prefix :: "'a list \<Rightarrow> 'a list \<Rightarrow> nat" where
  "common_prefix (x # xs) (y # ys) = (if x = y then Suc (common_prefix xs ys) else 0)"
| "common_prefix _ _ = 0"

definition parts :: "string \<Rightarrow> string list" where
  "parts p = filter (\<lambda>w. w \<noteq> []) (split_on slash p)"

definition relpath :: "string \<Rightarrow> string \<Rightarrow> string \<Rightarrow> string result" where
  "relpath cwd p start =
     (if p = [] then Inl ValueError
      else let s = parts (abspath cwd start); q = parts (abspath cwd p); i = common_prefix s q;
               rel = replicate (length s - i) ''..'' @ drop i q
           in Inr (if rel = [] then ''.'' else foldl path_join (hd rel) (tl rel)))"

section \<open>A walk below a directory\<close>

text \<open>A name a directory entry can have.\<close>

definition plain :: "string \<Rightarrow> bool" where
  "plain w \<longleftrightarrow> w \<noteq> [] \<and> slash \<notin> set w \<and> w \<noteq> ''.'' \<and> w \<noteq> ''..''"

text \<open>\<open>below d ws\<close> is the root \<open>os.walk\<close> reports for the directory reached from \<open>d\<close> by the names \<open>ws\<close>.\<close>

definition below :: "string \<Rightarrow> string list \<Rightarrow> string" where
  "below d ws = foldl path_join d ws"

lemma plain_start: "plain w \<Longrightarrow> \<not> starts_with [slash] w"
  by (cases w) (auto simp: plain_def starts_with_def)

lemma norm_step_plain: "plain w \<Longrightarrow> norm_step rooted acc w = w # acc"
  by (simp add: norm_step_def plain_def)

lemma norm_comps_empty: "norm_comps rooted [] = []"
  by (simp add: norm_comps_def norm_step_def)

lemma norm_comps_join:
  assumes "plain w"
  shows "norm_comps rooted (path_join p w) = norm_comps rooted p @ [w]"
proof -
  have w: "split_on slash w = [w]" using assms by (simp add: plain_def split_on_plain)
  show ?thesis
  proof (cases "p = [] \<or> last p = slash")
    case False
    then show ?thesis
      using plain_start [OF assms] w
      by (simp add: path_join_def norm_comps_def split_on_append norm_step_plain [OF assms])
  next
    case True
    show ?thesis
    proof (cases p rule: rev_cases)
      case Nil
      then show ?thesis
        using plain_start [OF assms] w
        by (simp add: path_join_def norm_comps_def norm_step_plain [OF assms]) (simp add: norm_step_def)
    next
      case (snoc q c)
      with True have p: "p = q @ [slash]" by simp
      have "split_on slash p = split_on slash q @ [[]]" using split_on_append [of slash q "[]"] p by simp
      moreover have "split_on slash (p @ w) = split_on slash q @ [w]" using split_on_append [of slash q w] p w by simp
      ultimately show ?thesis
        using plain_start [OF assms] True
        by (simp add: path_join_def norm_comps_def norm_step_plain [OF assms]) (simp add: norm_step_def)
    qed
  qed
qed

lemma norm_comps_below: "list_all plain ws \<Longrightarrow> norm_comps rooted (below p ws) = norm_comps rooted p @ ws"
  by (induction ws rule: rev_induct) (auto simp: below_def norm_comps_join)

lemma split_on_free: "w \<in> set (split_on c s) \<Longrightarrow> c \<notin> set w"
proof (induction s arbitrary: w)
  case (Cons x s)
  have "hd (split_on c s) \<in> set (split_on c s)" by simp
  with Cons show ?case by (auto split: if_splits dest: list.set_sel(2) [rotated])
qed simp

lemma norm_fold_free:
  "(\<And>w. w \<in> set ws \<Longrightarrow> slash \<notin> set w) \<Longrightarrow> (\<And>w. w \<in> set acc \<Longrightarrow> w \<noteq> [] \<and> slash \<notin> set w) \<Longrightarrow>
     w \<in> set (foldl (norm_step rooted) acc ws) \<Longrightarrow> w \<noteq> [] \<and> slash \<notin> set w"
proof (induction ws arbitrary: acc)
  case (Cons v ws)
  have "u \<noteq> [] \<and> slash \<notin> set u" if "u \<in> set (norm_step rooted acc v)" for u
    using that Cons.prems(1) [of v] Cons.prems(2) [of u]
    by (cases acc) (auto simp: norm_step_def split: if_splits)
  moreover have "w \<in> set (foldl (norm_step rooted) (norm_step rooted acc v) ws)" using Cons.prems(3) by simp
  ultimately show ?case using Cons.IH Cons.prems(1) by (meson list.set_intros(2))
qed simp

lemma norm_comps_free: "w \<in> set (norm_comps rooted p) \<Longrightarrow> w \<noteq> [] \<and> slash \<notin> set w"
  using norm_fold_free [of "split_on slash p" "[]" w rooted] split_on_free by (auto simp: norm_comps_def)

lemma parts_slashes: "parts (replicate n slash @ p) = parts p"
  by (induction n) (auto simp: parts_def)

lemma parts_join:
  "(\<And>w. w \<in> set ws \<Longrightarrow> w \<noteq> [] \<and> slash \<notin> set w) \<Longrightarrow> parts (join_on slash ws) = ws"
  by (cases "ws = []") (auto simp: parts_def split_on_join)

lemma parts_normpath: "starts_with [slash] p \<Longrightarrow> parts (normpath p) = norm_comps True p"
proof -
  assume a: "starts_with [slash] p"
  then have p: "p \<noteq> []" and n: "0 < initial_slashes p" by (auto simp: starts_with_def initial_slashes_def)
  then have "normpath p = replicate (initial_slashes p) slash @ join_on slash (norm_comps True p)"
    by (simp add: normpath_def Let_def)
  with norm_comps_free show ?thesis by (simp add: parts_slashes parts_join)
qed

lemma starts_with_path_join: "starts_with [slash] p \<Longrightarrow> starts_with [slash] (path_join p w)"
  by (cases p) (auto simp: starts_with_def path_join_def)

lemma starts_with_below: "starts_with [slash] p \<Longrightarrow> starts_with [slash] (below p ws)"
  by (induction ws rule: rev_induct) (auto simp: below_def starts_with_path_join)

lemma path_join_assoc:
  "\<not> starts_with [slash] d \<Longrightarrow> plain w \<Longrightarrow> path_join c (path_join d w) = path_join (path_join c d) w"
  using plain_start [of w] by (cases d) (auto simp: path_join_def starts_with_def)

lemma not_starts_path_join:
  "\<not> starts_with [slash] d \<Longrightarrow> plain w \<Longrightarrow> \<not> starts_with [slash] (path_join d w)"
  using plain_start [of w] by (cases d) (auto simp: path_join_def starts_with_def)

lemma below_assoc:
  "\<not> starts_with [slash] d \<Longrightarrow> list_all plain ws \<Longrightarrow>
     \<not> starts_with [slash] (below d ws) \<and> path_join c (below d ws) = below (path_join c d) ws"
proof (induction ws rule: rev_induct)
  case (snoc w ws)
  then show ?case by (simp add: below_def path_join_assoc not_starts_path_join)
qed (simp add: below_def)

lemma parts_abspath_below:
  assumes "starts_with [slash] cwd" "list_all plain ws"
  shows "parts (abspath cwd (below d ws)) = parts (abspath cwd d) @ ws"
proof (cases "starts_with [slash] d")
  case True
  with assms show ?thesis
    by (simp add: abspath_def starts_with_below parts_normpath norm_comps_below)
next
  case False
  with below_assoc [OF False assms(2)] assms starts_with_path_join [OF assms(1)] show ?thesis
    by (simp add: abspath_def starts_with_below parts_normpath norm_comps_below)
qed

lemma common_prefix_append: "common_prefix xs (xs @ ys) = length xs"
  by (induction xs) auto

lemma below_plain: "plain w \<Longrightarrow> list_all plain ws \<Longrightarrow> below w ws = join_on slash (w # ws)"
proof (induction ws arbitrary: w rule: rev_induct)
  case (snoc v ws)
  have "join_on slash (w # us @ [v]) = join_on slash (w # us) @ slash # v" for us :: "string list" and w v
    by (induction us arbitrary: w) auto
  moreover have "u \<noteq> [] \<Longrightarrow> last (join_on slash us) \<noteq> slash \<and> join_on slash us \<noteq> []"
    if "us \<noteq> []" "list_all plain us" for us and u :: string
    using that
    by (induction slash us rule: join_on.induct) (auto simp: plain_def dest: last_in_set)
  ultimately show ?case
    using snoc plain_start [of v] by (fastforce simp: below_def path_join_def)
qed (simp add: below_def)

lemma below_nonempty: "ws \<noteq> [] \<Longrightarrow> list_all plain ws \<Longrightarrow> below d ws \<noteq> []"
  by (induction ws rule: rev_induct) (auto simp: below_def path_join_def plain_def)

lemma relpath_below:
  assumes "starts_with [slash] cwd" "list_all plain ws" "ws \<noteq> []"
  shows "relpath cwd (below d ws) d = Inr (join_on slash ws)"
proof -
  have "common_prefix (parts (abspath cwd d)) (parts (abspath cwd (below d ws))) = length (parts (abspath cwd d))"
    by (simp add: parts_abspath_below [OF assms(1,2)] common_prefix_append)
  moreover have "foldl path_join (hd ws) (tl ws) = join_on slash ws"
    using assms(2,3) below_plain [of "hd ws" "tl ws"] by (cases ws) (auto simp: below_def)
  ultimately show ?thesis
    using assms(3) below_nonempty [OF assms(3,2)]
    by (simp add: relpath_def Let_def parts_abspath_below [OF assms(1,2)])
qed

end
