(* ===== verification/BenchReport.thy ===== *)
theory BenchReport
  imports BenchStats BotFleet PyPath FloatText
begin

text \<open>
  \<open>write_markdown\<close> of \<^verbatim>\<open>bench/run_loadtest.py\<close>: the text of the report, and the number formats it
  uses. The file is UTF-8, so the one character beyond the model's alphabet, the em dash, is the three
  bytes it is written as.
\<close>

section \<open>Formats\<close>

definition EM_DASH :: string where
  "EM_DASH = [CHR 0xE2, CHR 0x80, CHR 0x94]"

definition pad_zeros :: "nat \<Rightarrow> string \<Rightarrow> string" where
  "pad_zeros n s = replicate (n - length s) CHR ''0'' @ s"

text \<open>\<open>{x:,.2f}\<close>: the exact value rounded half to even, with commas in the integer part.\<close>

fun comma_2f :: "pyfloat \<Rightarrow> string" where
  "comma_2f (Fin x) =
     (let q = nat (round_half_even (\<bar>x\<bar> * 100))
      in (if x < 0 then ''-'' else []) @ comma_nat (q div 100) @ ''.'' @ pad_zeros 2 (show_nat (q mod 100)))"
| "comma_2f PInf = ''inf''"
| "comma_2f NInf = ''-inf''"
| "comma_2f NaN = ''nan''"

definition format_2f :: "pynum \<Rightarrow> string result" where
  "format_2f a = rbind (num_float a) (\<lambda>x. Inr (comma_2f x))"

definition format_0f :: "pynum \<Rightarrow> string result" where
  "format_0f a = rbind (num_float a) (\<lambda>x. Inr (format_comma_0f x))"

text \<open>\<open>{x:,}\<close>: an int with commas; a float as its \<open>repr\<close> with commas in the leading digits.\<close>

definition comma_digits :: "string \<Rightarrow> string" where
  "comma_digits s = rev (group3 (rev (takeWhile is_digit s))) @ dropWhile is_digit s"

fun format_comma :: "pynum \<Rightarrow> string" where
  "format_comma (PyI n) = comma_int n"
| "format_comma (PyF x) =
     (case float_repr x of
        c # s \<Rightarrow> if c = CHR ''-'' then c # comma_digits s else comma_digits (c # s)
      | [] \<Rightarrow> [])"

text \<open>\<open>str(x)\<close> of a value a report cell can hold; lists and dicts do not occur there.\<close>

fun py_str :: "json \<Rightarrow> string" where
  "py_str JNull = ''None''"
| "py_str (JBool b) = (if b then ''True'' else ''False'')"
| "py_str (JNum (PyI n)) = show_int n"
| "py_str (JNum (PyF x)) = float_repr x"
| "py_str (JStr s) = s"
| "py_str _ = []"

text \<open>\<open>bool(x)\<close>, \<open>d[k]\<close> and \<open>format(d[k], spec)\<close>\<close>

fun py_truth :: "json \<Rightarrow> bool" where
  "py_truth JNull \<longleftrightarrow> False"
| "py_truth (JBool b) \<longleftrightarrow> b"
| "py_truth (JNum a) \<longleftrightarrow> num_truth a"
| "py_truth (JStr s) \<longleftrightarrow> s \<noteq> []"
| "py_truth (JList vs) \<longleftrightarrow> vs \<noteq> []"
| "py_truth (JObj d) \<longleftrightarrow> d \<noteq> []"

definition item :: "dict \<Rightarrow> string \<Rightarrow> json result" where
  "item d k = (case map_of d k of None \<Rightarrow> Inl KeyError | Some v \<Rightarrow> Inr v)"

definition number_item :: "(pynum \<Rightarrow> string result) \<Rightarrow> dict \<Rightarrow> string \<Rightarrow> string result" where
  "number_item f d k =
     rbind (item d k) (\<lambda>v. case json_num v of None \<Rightarrow> Inl TypeError | Some a \<Rightarrow> f a)"

section \<open>The report\<close>

text \<open>The dict \<open>meta\<close> of \<open>main\<close>, with the host's facts as the dict they are.\<close>

record bench_meta =
  me_label :: string
  me_started :: string
  me_finished :: string
  me_duration :: int
  me_runs :: int
  me_restart :: bool
  me_redis_port :: string
  me_mm :: int
  me_noise :: int
  me_momentum :: int
  me_target :: string
  me_host :: dict

definition meta_dict :: "bench_meta \<Rightarrow> dict" where
  "meta_dict m =
     [(''label'', JStr (me_label m)), (''started_at'', JStr (me_started m)), (''finished_at'', JStr (me_finished m)),
      (''duration_s'', JInt (me_duration m)), (''runs'', JInt (me_runs m)),
      (''restart_between_runs'', JBool (me_restart m)), (''redis_host_port'', JStr (me_redis_port m)),
      (''bots'', JObj [(''mm'', JInt (me_mm m)), (''noise'', JInt (me_noise m)), (''momentum'', JInt (me_momentum m)),
         (''total'', JInt (me_mm m + me_noise m + me_momentum m))]),
      (''target'', JStr (me_target m)), (''host'', JObj (me_host m))]"

definition spread_cell :: "dict \<Rightarrow> string" where
  "spread_cell s =
     (let v = dict_get s ''spread_ratio'' JNull in if py_truth v then py_str v @ ''x'' else EM_DASH)"

definition report_row :: "dict \<Rightarrow> string \<times> string \<Rightarrow> string result" where
  "report_row stats kl =
     (let (key, label) = kl
      in case dict_get stats key JNull of
           JObj s \<Rightarrow>
             if s = [] then Inr (''| '' @ label @ '' | '' @ EM_DASH @ '' | '' @ EM_DASH @ '' | '' @ EM_DASH @ '' | '' @ EM_DASH @ '' |'')
             else rbind (number_item format_2f s ''min'') (\<lambda>lo.
                  rbind (number_item format_2f s ''median'') (\<lambda>med.
                  rbind (number_item format_2f s ''max'') (\<lambda>hi.
                    Inr (''| '' @ label @ '' | '' @ lo @ '' | **'' @ med @ ''** | '' @ hi @ '' | '' @ spread_cell s @ '' |''))))
         | _ \<Rightarrow> Inr (''| '' @ label @ '' | '' @ EM_DASH @ '' | '' @ EM_DASH @ '' | '' @ EM_DASH @ '' | '' @ EM_DASH @ '' |''))"

definition run_row :: "nat \<Rightarrow> dict \<Rightarrow> string result" where
  "run_row i r =
     (case map_of r ''error'' of
        Some e \<Rightarrow> Inr (''| '' @ show_nat i @ '' | FAILED '' @ EM_DASH @ '' '' @ py_str e @ '' | | | | | | |'')
      | None \<Rightarrow>
          rbind (number_item format_0f r ''engine_tps_median'') (\<lambda>tps.
          rbind (number_item format_2f r ''p50_lat_us'') (\<lambda>p50.
          rbind (number_item format_2f r ''p90_lat_us'') (\<lambda>p90.
          rbind (number_item format_2f r ''p99_lat_us'') (\<lambda>p99.
          rbind (number_item (\<lambda>a. Inr (format_comma a)) r ''trade_events_this_run'') (\<lambda>events.
          rbind (number_item (\<lambda>a. Inr (format_comma a)) r ''scoring_backlog_at_start'') (\<lambda>backlog.
          rbind (item r ''correctness'') (\<lambda>c.
            Inr (''| '' @ show_nat i @ '' | '' @ tps @ '' | '' @ p50 @ '' | '' @ p90 @ '' | '' @ p99 @ '' | '' @
              events @ '' | '' @ backlog @ '' | '' @ py_str c @ '' |'')))))))))"

definition report_head :: "bench_meta \<Rightarrow> dict \<Rightarrow> string list" where
  "report_head m agg =
     [''# Load test '' @ EM_DASH @ '' '' @ me_label m,
      [],
      ''**Run at:** '' @ me_started m @ ''  '',
      ''**Runs:** '' @ py_str (dict_get agg ''runs_completed'' (JInt 0)) @ '' of '' @ show_int (me_runs m) @ '' ('' @
        show_int (me_duration m) @ ''s each, full stack restart between runs)  '',
      ''**Fleet:** '' @ show_int (me_mm m + me_noise m + me_momentum m) @ '' bots ('' @ show_int (me_mm m) @
        '' market maker, '' @ show_int (me_noise m) @ '' noise, '' @ show_int (me_momentum m) @ '' momentum)  '',
      ''**Correctness:** '' @ py_str (dict_get agg ''correctness'' (JStr ''UNKNOWN'')) @ '' (fleet drops: '' @
        py_str (dict_get agg ''total_fleet_drops'' (JInt 0)) @ '', fails: '' @
        py_str (dict_get agg ''total_fleet_fails'' (JInt 0)) @ '')'',
      [],
      ''## Results across runs'',
      [],
      ''| Metric | Min | Median | Max | Spread |'',
      ''| --- | ---: | ---: | ---: | ---: |'']"

definition report_reading :: "string list" where
  "report_reading =
     [[],
      ''**Median is the figure to quote.** Spread is max/min across runs; anything much'',
      ''above ~1.5x means run-to-run variance dominates and a single run would misreport'',
      ''the platform.'',
      [],
      ''## Per-run detail'',
      [],
      ''| # | Trades/s | P50 | P90 | P99 | Events | Backlog at start | Correctness |'',
      ''| --- | ---: | ---: | ---: | ---: | ---: | ---: | --- |'']"

definition report_notes :: "string list" where
  "report_notes =
     [[],
      [CHR 0x60] @ ''Backlog at start'' @ [CHR 0x60] @ '' is the scoring engine's cumulative event counter when the run'',
      ''began. A fresh stack reads 0; a non-zero value means the run inherited state and'',
      ''its numbers are not comparable to the others.'',
      [],
      ''## What was measured'',
      [],
      ''Latency is **engine-internal** '' @ EM_DASH @ '' '' @ [CHR 0x60] @ ''t2 - t1'' @ [CHR 0x60] @ '' from the trade event, i.e. the span the'',
      ''matching engine itself accounts for. It is **not** a wire-to-wire round trip and does'',
      ''not include network, kernel, or client-side time. Throughput counts trade events'',
      ''published to Kafka, which is match output, not inbound order rate '' @ EM_DASH @ '' the fleet send'',
      ''rate is reported separately for that.'',
      [],
      ''Within each run, samples recording zero throughput (fleet ramp-up and post-run'',
      ''drain) are dropped, then the leading 25% of what remains is'',
      ''trimmed as warm-up while the scoring engine's rolling window fills.'',
      [],
      ''## Limitations'',
      [],
      ''**This does not establish the engine's ceiling.** The fleet's send rate is governed'',
      ''by the bots' own hardcoded sleep intervals, not by backpressure from the engine: market'',
      ''makers emit two orders per 10 ms, noise bots one per ~125 ms, momentum bots one per 50 ms.'',
      ''That caps offered load at roughly 11.2k orders/s regardless of how fast the engine is, and'',
      ''the observed send rate sits near that cap with zero drops. The engine absorbed everything'',
      ''it was offered; it was never pushed to saturation.'',
      [],
      ''Treat these figures as *latency under a fixed, modest offered load* rather than as capacity.'',
      ''Establishing a real ceiling requires a load generator that can outrun the engine -- which'',
      ''means sharding the fleet across processes/pods instead of running 170 coroutines in one'',
      ''Python process, where the GIL and a single event loop bound throughput.'',
      [],
      ''## Reproducing'',
      [],
      [CHR 0x60] @ [CHR 0x60] @ [CHR 0x60] @ ''bash'']"

text \<open>The command that repeats the run, and the host.\<close>

definition reproduce :: "bench_meta \<Rightarrow> string list" where
  "reproduce m =
     [''REDIS_HOST_PORT='' @ me_redis_port m @ '' python3 bench/run_loadtest.py '' @ [CHR 0x5C],
      ''    --runs '' @ show_int (me_runs m) @ '' --duration '' @ show_int (me_duration m) @ '' '' @ [CHR 0x5C],
      ''    --mm '' @ show_int (me_mm m) @ '' --noise '' @ show_int (me_noise m) @ '' --momentum '' @
        show_int (me_momentum m) @ '' --label '' @ me_label m]"

definition or_else :: "json \<Rightarrow> json \<Rightarrow> json" where
  "or_else v dflt = (if py_truth v then v else dflt)"

definition memory_mb :: "json \<Rightarrow> string result" where
  "memory_mb v =
     (case or_else v (JInt 0) of
        JNum (PyI n) \<Rightarrow> Inr (comma_int (n div 1024))
      | _ \<Rightarrow> Inl TypeError)"

definition host_lines :: "dict \<Rightarrow> string list result" where
  "host_lines h =
     rbind (memory_mb (dict_get h ''mem_total_kb'' JNull)) (\<lambda>mb.
       Inr [''- CPU: '' @ py_str (or_else (dict_get h ''cpu_model'' JNull) (JStr ''unknown'')) @ '' ('' @
              py_str (dict_get h ''cpu_count'' JNull) @ '' cores)'',
            ''- Memory: '' @ mb @ '' MB'',
            ''- Platform: '' @ py_str (dict_get h ''platform'' JNull),
            []])"

definition stats_part :: "dict \<Rightarrow> dict" where
  "stats_part agg = (case dict_get agg ''metrics'' JNull of JObj s \<Rightarrow> s | _ \<Rightarrow> [])"

definition markdown :: "bench_meta \<Rightarrow> dict \<Rightarrow> dict list \<Rightarrow> string result" where
  "markdown m agg runs =
     rbind (rmap_list (report_row (stats_part agg)) AGGREGATED) (\<lambda>rows.
     rbind (rmap_list (\<lambda>(i, r). run_row i r) (enumerate 1 runs)) (\<lambda>details.
     rbind (host_lines (me_host m)) (\<lambda>host.
       Inr (join_on CHR 0x0A
         (report_head m agg @ rows @ report_reading @ details @ report_notes @ reproduce m @
          [replicate 3 (CHR 0x60), [], ''The harness brings the stack up and tears it down itself between runs.'', [],
           ''## Host'', []] @ host)))))"

lemma report_ignores_restart: "markdown (m\<lparr>me_restart := b\<rparr>) agg runs = markdown m agg runs"
  by (simp add: markdown_def report_head_def reproduce_def)

end
