(* ===== verification/Effects.thy ===== *)
theory Effects
  imports Prelude
begin

text \<open>
  Code that calls the outside world: an action maps a state to an outcome and a new state. It ends
  with a value or an exception, or is still unfinished when its fuel is used up. \<open>seq\<close>,
  \<open>catching\<close> and \<open>ensuring\<close> are the code's sequencing, \<open>except\<close> and \<open>finally\<close>. The locale
  \<open>outside_world\<close> is the interface of a logged outside call; in it, rules relate an invariant of the
  log to the structure of an action.
\<close>

section \<open>Actions\<close>

datatype 'a outcome = Ended "'a result" | Unfinished

type_synonym ('s, 'a) act = "'s \<Rightarrow> 'a outcome \<times> 's"

definition ret :: "'a \<Rightarrow> ('s, 'a) act" where
  "ret a s = (Ended (Inr a), s)"

definition throw :: "py_error \<Rightarrow> ('s, 'a) act" where
  "throw e s = (Ended (Inl e), s)"

definition seq :: "('s, 'a) act \<Rightarrow> ('a \<Rightarrow> ('s, 'b) act) \<Rightarrow> ('s, 'b) act" where
  "seq m f s =
     (case m s of
        (Ended (Inr a), s) \<Rightarrow> f a s
      | (Ended (Inl e), s) \<Rightarrow> (Ended (Inl e), s)
      | (Unfinished, s) \<Rightarrow> (Unfinished, s))"

definition andthen :: "('s, 'a) act \<Rightarrow> ('s, 'b) act \<Rightarrow> ('s, 'b) act" where
  "andthen m n = seq m (\<lambda>_. n)"

definition catching :: "('s, 'a) act \<Rightarrow> (py_error \<Rightarrow> ('s, 'a) act) \<Rightarrow> ('s, 'a) act" where
  "catching m h s =
     (case m s of
        (Ended (Inl e), s) \<Rightarrow> h e s
      | (r, s) \<Rightarrow> (r, s))"

text \<open>An exception of the \<open>finally\<close> block replaces whatever the body ended with.\<close>

definition ensuring :: "('s, 'a) act \<Rightarrow> ('s, unit) act \<Rightarrow> ('s, 'a) act" where
  "ensuring m f s =
     (case m s of
        (Unfinished, s) \<Rightarrow> (Unfinished, s)
      | (Ended r, s) \<Rightarrow>
          (case f s of
             (Ended (Inr _), s) \<Rightarrow> (Ended r, s)
           | (Ended (Inl e), s) \<Rightarrow> (Ended (Inl e), s)
           | (Unfinished, s) \<Rightarrow> (Unfinished, s)))"

definition unfinished :: "('s, 'a) act" where
  "unfinished s = (Unfinished, s)"

text \<open>A computation without calls.\<close>

definition lift :: "'a result \<Rightarrow> ('s, 'a) act" where
  "lift r s = (Ended r, s)"

section \<open>Rules\<close>

text \<open>
  From a state with \<open>P\<close>, \<open>m\<close> reaches one with \<open>I\<close> however it ends, and with \<open>Q\<close> when it ends with a
  value.
\<close>

definition triple :: "('s \<Rightarrow> bool) \<Rightarrow> ('s, 'a) act \<Rightarrow> ('s \<Rightarrow> bool) \<Rightarrow> ('s \<Rightarrow> bool) \<Rightarrow> bool" where
  "triple P m I Q \<longleftrightarrow>
     (\<forall>s. P s \<longrightarrow> I (snd (m s)) \<and> (\<forall>a. fst (m s) = Ended (Inr a) \<longrightarrow> Q (snd (m s))))"

lemma tripleD: "triple P m I Q \<Longrightarrow> P s \<Longrightarrow> m s = (r, s') \<Longrightarrow> I s' \<and> (\<forall>a. r = Ended (Inr a) \<longrightarrow> Q s')"
  unfolding triple_def by (metis fst_conv snd_conv)

lemma triple_ret: "(\<And>s. P s \<Longrightarrow> I s \<and> Q s) \<Longrightarrow> triple P (ret a) I Q"
  by (simp add: triple_def ret_def)

lemma triple_throw: "(\<And>s. P s \<Longrightarrow> I s) \<Longrightarrow> triple P (throw e) I Q"
  by (simp add: triple_def throw_def)

lemma triple_seq:
  assumes "triple P m I J" "\<And>a. triple (\<lambda>s. I s \<and> J s) (f a) I K"
  shows "triple P (seq m f) I K"
  unfolding triple_def
proof (intro allI impI)
  fix s assume P: "P s"
  obtain r s' where m: "m s = (r, s')" by (cases "m s")
  from tripleD [OF assms(1) P m] have I: "I s'" "\<And>a. r = Ended (Inr a) \<Longrightarrow> J s'" by auto
  show "I (snd (seq m f s)) \<and> (\<forall>a. fst (seq m f s) = Ended (Inr a) \<longrightarrow> K (snd (seq m f s)))"
  proof (cases "\<exists>a. r = Ended (Inr a)")
    case True
    then obtain a where "r = Ended (Inr a)" by blast
    with assms(2) [of a] m I show ?thesis unfolding triple_def seq_def by auto
  next
    case False
    with I m show ?thesis by (auto simp: seq_def split: outcome.splits sum.splits)
  qed
qed

lemma triple_andthen:
  "triple P m I J \<Longrightarrow> triple (\<lambda>s. I s \<and> J s) n I K \<Longrightarrow> triple P (andthen m n) I K"
  unfolding andthen_def by (rule triple_seq)

lemma triple_conseq:
  "triple P m I Q \<Longrightarrow> (\<And>s. P' s \<Longrightarrow> P s) \<Longrightarrow> (\<And>s. Q s \<Longrightarrow> Q' s) \<Longrightarrow> triple P' m I Q'"
  unfolding triple_def by blast

lemma triple_catching:
  assumes "triple P m I Q" "\<And>e. triple I (h e) I Q"
  shows "triple P (catching m h) I Q"
  unfolding triple_def
proof (intro allI impI)
  fix s assume P: "P s"
  obtain r s' where m: "m s = (r, s')" by (cases "m s")
  from tripleD [OF assms(1) P m] have I: "I s'" "\<And>a. r = Ended (Inr a) \<Longrightarrow> Q s'" by auto
  show "I (snd (catching m h s)) \<and> (\<forall>a. fst (catching m h s) = Ended (Inr a) \<longrightarrow> Q (snd (catching m h s)))"
  proof (cases "\<exists>e. r = Ended (Inl e)")
    case True
    then obtain e where "r = Ended (Inl e)" by blast
    with assms(2) [of e] I(1) m show ?thesis unfolding triple_def catching_def by auto
  next
    case False
    with I m show ?thesis by (auto simp: catching_def split: outcome.splits sum.splits)
  qed
qed

lemma triple_ensuring:
  assumes "triple P m I J" "triple I f I K"
  shows "triple P (ensuring m f) I (\<lambda>_. True)"
  unfolding triple_def
proof (intro allI impI)
  fix s assume P: "P s"
  obtain r s' where m: "m s = (r, s')" by (cases "m s")
  obtain q s'' where f: "f s' = (q, s'')" by (cases "f s'")
  from tripleD [OF assms(1) P m] have "I s'" by simp
  with tripleD [OF assms(2) _ f] have "I s''" by simp
  with \<open>I s'\<close> m f show "I (snd (ensuring m f s)) \<and>
      (\<forall>a. fst (ensuring m f s) = Ended (Inr a) \<longrightarrow> True)"
    by (auto simp: ensuring_def split: outcome.splits sum.splits)
qed

lemma triple_post:
  "triple P m I Q \<Longrightarrow> (\<And>s a. fst (m s) = Ended (Inr a) \<Longrightarrow> R (snd (m s))) \<Longrightarrow> triple P m I (\<lambda>s. Q s \<and> R s)"
  unfolding triple_def by blast

lemma triple_seq_value:
  assumes "triple P m I J" "\<And>s a. fst (m s) = Ended (Inr a) \<Longrightarrow> a = v" "triple (\<lambda>s. I s \<and> J s) (f v) I K"
  shows "triple P (seq m f) I K"
proof -
  have "seq m f = seq m (\<lambda>_. f v)"
  proof
    fix s show "seq m f s = seq m (\<lambda>_. f v) s"
      using assms(2) [of s] by (cases "m s") (auto simp: seq_def split: outcome.splits sum.splits)
  qed
  with triple_seq [OF assms(1), of "\<lambda>_. f v" K] assms(3) show ?thesis by simp
qed

text \<open>The same with a condition on the value.\<close>

definition yields :: "('s \<Rightarrow> bool) \<Rightarrow> ('s, 'a) act \<Rightarrow> ('s \<Rightarrow> bool) \<Rightarrow> ('a \<Rightarrow> 's \<Rightarrow> bool) \<Rightarrow> bool" where
  "yields P m I Q \<longleftrightarrow>
     (\<forall>s. P s \<longrightarrow> I (snd (m s)) \<and> (\<forall>a. fst (m s) = Ended (Inr a) \<longrightarrow> Q a (snd (m s))))"

lemma yieldsD: "yields P m I Q \<Longrightarrow> P s \<Longrightarrow> m s = (r, s') \<Longrightarrow> I s' \<and> (\<forall>a. r = Ended (Inr a) \<longrightarrow> Q a s')"
  unfolding yields_def by (metis fst_conv snd_conv)

lemma yields_ret: "(\<And>s. P s \<Longrightarrow> I s \<and> Q a s) \<Longrightarrow> yields P (ret a) I Q"
  by (simp add: yields_def ret_def)

lemma yields_stop: "(\<And>s. P s \<Longrightarrow> I s) \<Longrightarrow> yields P (throw e) I Q" "(\<And>s. P s \<Longrightarrow> I s) \<Longrightarrow> yields P unfinished I Q"
  by (simp_all add: yields_def throw_def unfinished_def)

lemma yields_lift: "(\<And>s. P s \<Longrightarrow> I s) \<Longrightarrow> (\<And>s a. P s \<Longrightarrow> r = Inr a \<Longrightarrow> Q a s) \<Longrightarrow> yields P (lift r) I Q"
  by (simp add: yields_def lift_def)

lemma yields_seq:
  assumes "yields P m I J" "\<And>a. yields (\<lambda>s. I s \<and> J a s) (f a) I K"
  shows "yields P (seq m f) I K"
  unfolding yields_def
proof (intro allI impI)
  fix s assume P: "P s"
  obtain r s' where m: "m s = (r, s')" by (cases "m s")
  from yieldsD [OF assms(1) P m] have I: "I s'" "\<And>a. r = Ended (Inr a) \<Longrightarrow> J a s'" by auto
  show "I (snd (seq m f s)) \<and> (\<forall>a. fst (seq m f s) = Ended (Inr a) \<longrightarrow> K a (snd (seq m f s)))"
  proof (cases "\<exists>a. r = Ended (Inr a)")
    case True
    then obtain a where "r = Ended (Inr a)" by blast
    with assms(2) [of a] m I show ?thesis unfolding yields_def seq_def by auto
  next
    case False
    with I m show ?thesis by (auto simp: seq_def split: outcome.splits sum.splits)
  qed
qed

lemma yields_andthen:
  "yields P m I (\<lambda>_. J) \<Longrightarrow> yields (\<lambda>s. I s \<and> J s) n I K \<Longrightarrow> yields P (andthen m n) I K"
  unfolding andthen_def by (rule yields_seq)

lemma yields_ensuring:
  assumes "yields P m I (\<lambda>a _. R a)" "yields I f I (\<lambda>_ _. True)"
  shows "yields P (ensuring m f) I (\<lambda>a _. R a)"
  unfolding yields_def
proof (intro allI impI)
  fix s assume P: "P s"
  obtain r s' where m: "m s = (r, s')" by (cases "m s")
  obtain q s'' where f: "f s' = (q, s'')" by (cases "f s'")
  from yieldsD [OF assms(1) P m] have "I s'" "\<And>a. r = Ended (Inr a) \<Longrightarrow> R a" by auto
  with yieldsD [OF assms(2) _ f] m f
  show "I (snd (ensuring m f s)) \<and> (\<forall>a. fst (ensuring m f s) = Ended (Inr a) \<longrightarrow> R a)"
    by (auto simp: ensuring_def split: outcome.splits sum.splits)
qed

lemma yields_conseq:
  "yields P m I Q \<Longrightarrow> (\<And>s. P' s \<Longrightarrow> P s) \<Longrightarrow> (\<And>a s. Q a s \<Longrightarrow> Q' a s) \<Longrightarrow> yields P' m I Q'"
  unfolding yields_def by blast

lemma yields_triple: "triple P m I Q \<longleftrightarrow> yields P m I (\<lambda>_. Q)"
  by (simp add: triple_def yields_def)

text \<open>\<open>m\<close> keeps \<open>I\<close>, however it ends.\<close>

definition keeps :: "('s \<Rightarrow> bool) \<Rightarrow> ('s, 'a) act \<Rightarrow> bool" where
  "keeps I m \<longleftrightarrow> (\<forall>s. I s \<longrightarrow> I (snd (m s)))"

lemma keeps_triple: "keeps I m \<longleftrightarrow> triple I m I (\<lambda>_. True)"
  by (simp add: keeps_def triple_def)

lemma keeps_simps: "keeps I (ret a)" "keeps I (throw e)" "keeps I (lift r)" "keeps I unfinished"
  by (simp_all add: keeps_def ret_def throw_def lift_def unfinished_def)

lemma keeps_seq: "keeps I m \<Longrightarrow> (\<And>a. keeps I (f a)) \<Longrightarrow> keeps I (seq m f)"
  unfolding keeps_triple by (rule triple_seq) auto

lemma keeps_andthen: "keeps I m \<Longrightarrow> keeps I n \<Longrightarrow> keeps I (andthen m n)"
  unfolding andthen_def by (rule keeps_seq)

lemma keeps_catching: "keeps I m \<Longrightarrow> (\<And>e. keeps I (h e)) \<Longrightarrow> keeps I (catching m h)"
  unfolding keeps_triple by (rule triple_catching)

lemma keeps_ensuring: "keeps I m \<Longrightarrow> keeps I f \<Longrightarrow> keeps I (ensuring m f)"
  unfolding keeps_triple by (rule triple_ensuring)

lemmas keeps_rules = keeps_simps keeps_seq keeps_andthen keeps_catching keeps_ensuring

lemma seq_lift: "seq (lift (Inr a)) f = f a" "seq (lift (Inl e)) f = throw e" "seq (ret a) f = f a" "seq (throw e) f = throw e"
  by (rule ext, simp add: seq_def lift_def ret_def throw_def)+

lemma andthen_done: "m s = (Ended (Inr a), u) \<Longrightarrow> andthen m n s = n u"
  by (simp add: andthen_def seq_def)

lemma seq_done: "m s = (Ended (Inr a), u) \<Longrightarrow> seq m f s = f a u"
  by (simp add: seq_def)

lemma catching_done: "m s = (Ended (Inr a), u) \<Longrightarrow> catching m h s = (Ended (Inr a), u)"
  by (simp add: catching_def)

lemma seq_assoc: "seq (seq m f) g = seq m (\<lambda>a. seq (f a) g)"
  by (rule ext) (auto simp: seq_def split: prod.splits outcome.splits sum.splits)

section \<open>Logged calls\<close>

text \<open>A trace lists the calls made so far, each with the exception it raised, if any.\<close>

type_synonym 'c trace = "('c \<times> py_error option) list"

definition failure :: "'a outcome \<Rightarrow> py_error option" where
  "failure r = (case r of Ended (Inl e) \<Rightarrow> Some e | _ \<Rightarrow> None)"

lemma failure_simps [simp]:
  "failure (Ended (Inl e)) = Some e" "failure (Ended (Inr a)) = None" "failure Unfinished = None"
  by (simp_all add: failure_def)

text \<open>\<open>P\<close> holds of every call, together with the trace before it.\<close>

definition every_call :: "('c trace \<Rightarrow> 'c \<Rightarrow> bool) \<Rightarrow> 'c trace \<Rightarrow> bool" where
  "every_call P t \<longleftrightarrow> (\<forall>i < length t. P (take i t) (fst (t ! i)))"

lemma every_call_Nil [simp]: "every_call P []"
  by (simp add: every_call_def)

lemma every_call_snoc [simp]: "every_call P (t @ [(c, r)]) \<longleftrightarrow> every_call P t \<and> P t c"
  by (auto simp: every_call_def less_Suc_eq nth_append)

lemma every_call_append:
  "(\<And>t c. C c \<Longrightarrow> P t c) \<Longrightarrow> every_call P t \<Longrightarrow> list_all (\<lambda>x. C (fst x)) u \<Longrightarrow> every_call P (t @ u)"
proof (induction u rule: rev_induct)
  case (snoc x u)
  then show ?case by (cases x) (auto simp flip: append_assoc)
qed simp

text \<open>\<open>m\<close> only appends to the trace, and only calls of the class \<open>C\<close>.\<close>

definition adds :: "('s \<Rightarrow> 'c trace) \<Rightarrow> ('c \<Rightarrow> bool) \<Rightarrow> ('s, 'a) act \<Rightarrow> bool" where
  "adds logged C m \<longleftrightarrow>
     (\<forall>s. \<exists>t. logged (snd (m s)) = logged s @ t \<and> list_all (\<lambda>x. C (fst x)) t)"

lemma adds_trans:
  "logged s' = logged s @ t \<Longrightarrow> list_all (\<lambda>x. C (fst x)) t \<Longrightarrow> adds logged C m \<Longrightarrow>
     \<exists>u. logged (snd (m s')) = logged s @ u \<and> list_all (\<lambda>x. C (fst x)) u"
  unfolding adds_def by (metis append_assoc list_all_append)

lemma adds_refl: "logged s' = logged s \<Longrightarrow> \<exists>u. logged s' = logged s @ u \<and> list_all (\<lambda>x. C (fst x)) u"
  by (intro exI [of _ "[]"]) simp

lemma adds_ret [intro]: "adds logged C (ret a)"
  by (simp add: adds_def ret_def)

lemma adds_throw [intro]: "adds logged C (throw e)"
  by (simp add: adds_def throw_def)

lemma adds_seq:
  assumes "adds logged C m" "\<And>a. adds logged C (f a)"
  shows "adds logged C (seq m f)"
  unfolding adds_def
proof
  fix s
  obtain r s' where m: "m s = (r, s')" by (cases "m s")
  obtain t where t: "logged s' = logged s @ t" "list_all (\<lambda>x. C (fst x)) t"
    using assms(1) m unfolding adds_def by (metis snd_conv)
  show "\<exists>t. logged (snd (seq m f s)) = logged s @ t \<and> list_all (\<lambda>x. C (fst x)) t"
    using m t adds_trans [OF t assms(2)] by (auto simp: seq_def split: outcome.splits sum.splits)
qed

lemma adds_andthen: "adds logged C m \<Longrightarrow> adds logged C n \<Longrightarrow> adds logged C (andthen m n)"
  unfolding andthen_def by (rule adds_seq)

lemma adds_catching:
  assumes "adds logged C m" "\<And>e. adds logged C (h e)"
  shows "adds logged C (catching m h)"
  unfolding adds_def
proof
  fix s
  obtain r s' where m: "m s = (r, s')" by (cases "m s")
  obtain t where t: "logged s' = logged s @ t" "list_all (\<lambda>x. C (fst x)) t"
    using assms(1) m unfolding adds_def by (metis snd_conv)
  show "\<exists>t. logged (snd (catching m h s)) = logged s @ t \<and> list_all (\<lambda>x. C (fst x)) t"
    using m t adds_trans [OF t assms(2)] by (auto simp: catching_def split: outcome.splits sum.splits)
qed

lemma adds_ensuring:
  assumes "adds logged C m" "adds logged C f"
  shows "adds logged C (ensuring m f)"
  unfolding adds_def
proof
  fix s
  obtain r s' where m: "m s = (r, s')" by (cases "m s")
  obtain t where t: "logged s' = logged s @ t" "list_all (\<lambda>x. C (fst x)) t"
    using assms(1) m unfolding adds_def by (metis snd_conv)
  obtain q s'' where f: "f s' = (q, s'')" by (cases "f s'")
  show "\<exists>t. logged (snd (ensuring m f s)) = logged s @ t \<and> list_all (\<lambda>x. C (fst x)) t"
    using m f t adds_trans [OF t assms(2)] by (auto simp: ensuring_def split: outcome.splits sum.splits)
qed

lemma adds_lift [intro]: "adds logged C (lift r)"
  by (simp add: adds_def lift_def)

lemma adds_unfinished [intro]: "adds logged C unfinished"
  by (simp add: adds_def unfinished_def)

lemmas adds_rules = adds_ret adds_throw adds_lift adds_unfinished adds_seq adds_andthen adds_catching adds_ensuring

lemma adds_weaken: "adds logged C m \<Longrightarrow> (\<And>c. C c \<Longrightarrow> D c) \<Longrightarrow> adds logged D m"
  unfolding adds_def list_all_def by metis

text \<open>A fact of the trace that later calls do not undo.\<close>

definition stable :: "('c trace \<Rightarrow> bool) \<Rightarrow> bool" where
  "stable J \<longleftrightarrow> (\<forall>t u. J t \<longrightarrow> J (t @ u))"

lemma stable_rules [intro]:
  "stable (\<lambda>t. x \<in> set t)" "stable (\<lambda>t. True)"
  "stable J \<Longrightarrow> stable K \<Longrightarrow> stable (\<lambda>t. J t \<and> K t)"
  "stable J \<Longrightarrow> stable K \<Longrightarrow> stable (\<lambda>t. J t \<or> K t)"
  by (auto simp: stable_def)

lemma adds_triple:
  assumes "adds logged C m" "stable J" "\<And>t c. C c \<Longrightarrow> P t c"
  shows "triple (\<lambda>s. every_call P (logged s) \<and> J (logged s)) m (\<lambda>s. every_call P (logged s)) (\<lambda>s. J (logged s))"
  unfolding triple_def
proof (intro allI impI)
  fix s assume I: "every_call P (logged s) \<and> J (logged s)"
  obtain t where t: "logged (snd (m s)) = logged s @ t" "list_all (\<lambda>x. C (fst x)) t"
    using assms(1) unfolding adds_def by blast
  have "every_call P (logged s @ t)" using every_call_append [of C P] assms(3) I t(2) by blast
  with t(1) I assms(2) show "every_call P (logged (snd (m s))) \<and>
      (\<forall>a. fst (m s) = Ended (Inr a) \<longrightarrow> J (logged (snd (m s))))"
    by (simp add: stable_def)
qed

text \<open>
  The full contract of an action: from a state with \<open>P\<close> it ends, with a value and \<open>Q\<close> or with an
  exception and \<open>E\<close>.
\<close>

definition spec :: "('s \<Rightarrow> bool) \<Rightarrow> ('s, 'a) act \<Rightarrow> ('a \<Rightarrow> 's \<Rightarrow> bool) \<Rightarrow> (py_error \<Rightarrow> 's \<Rightarrow> bool) \<Rightarrow> bool" where
  "spec P m Q E \<longleftrightarrow>
     (\<forall>s. P s \<longrightarrow> (case fst (m s) of
        Ended (Inr a) \<Rightarrow> Q a (snd (m s))
      | Ended (Inl e) \<Rightarrow> E e (snd (m s))
      | Unfinished \<Rightarrow> False))"

lemma spec_ret: "(\<And>s. P s \<Longrightarrow> Q a s) \<Longrightarrow> spec P (ret a) Q E"
  by (simp add: spec_def ret_def)

lemma spec_throw: "(\<And>s. P s \<Longrightarrow> E e s) \<Longrightarrow> spec P (throw e) Q E"
  by (simp add: spec_def throw_def)

lemma spec_seq: "spec P m R E \<Longrightarrow> (\<And>a. spec (R a) (f a) Q E) \<Longrightarrow> spec P (seq m f) Q E"
  by (fastforce simp: spec_def seq_def split: prod.splits outcome.splits sum.splits)

lemma spec_andthen: "spec P m (\<lambda>_. R) E \<Longrightarrow> spec R n Q E \<Longrightarrow> spec P (andthen m n) Q E"
  unfolding andthen_def by (rule spec_seq)

lemma spec_catching: "spec P m Q F \<Longrightarrow> (\<And>e. spec (F e) (h e) Q E) \<Longrightarrow> spec P (catching m h) Q E"
  by (fastforce simp: spec_def catching_def split: prod.splits outcome.splits sum.splits)

lemma spec_conseq:
  "spec P m Q E \<Longrightarrow> (\<And>s. P' s \<Longrightarrow> P s) \<Longrightarrow> (\<And>a s. Q a s \<Longrightarrow> Q' a s) \<Longrightarrow> (\<And>e s. E e s \<Longrightarrow> E' e s) \<Longrightarrow>
     spec P' m Q' E'"
  unfolding spec_def by (fastforce split: outcome.splits sum.splits)

text \<open>How a composed action ends with a value.\<close>

lemma seq_value:
  "seq m f s = (Ended (Inr b), s') \<longleftrightarrow> (\<exists>a u. m s = (Ended (Inr a), u) \<and> f a u = (Ended (Inr b), s'))"
  by (auto simp: seq_def split: prod.splits outcome.splits sum.splits)

lemma andthen_value:
  "andthen m n s = (Ended (Inr b), s') \<longleftrightarrow> (\<exists>a u. m s = (Ended (Inr a), u) \<and> n u = (Ended (Inr b), s'))"
  by (simp add: andthen_def seq_value)

lemma ensuring_value:
  "ensuring m f s = (Ended (Inr b), s') \<longleftrightarrow> (\<exists>a u. m s = (Ended (Inr b), u) \<and> f u = (Ended (Inr a), s'))"
  by (auto simp: ensuring_def split: prod.splits outcome.splits sum.splits)

lemma seq_finishes:
  "fst (seq m f s) \<noteq> Unfinished \<longleftrightarrow> fst (m s) \<noteq> Unfinished \<and>
     (\<forall>a. fst (m s) = Ended (Inr a) \<longrightarrow> fst (f a (snd (m s))) \<noteq> Unfinished)"
  by (auto simp: seq_def split: prod.splits outcome.splits sum.splits)

lemma catching_finishes:
  "fst (catching m h s) \<noteq> Unfinished \<longleftrightarrow> fst (m s) \<noteq> Unfinished \<and>
     (\<forall>e. fst (m s) = Ended (Inl e) \<longrightarrow> fst (h e (snd (m s))) \<noteq> Unfinished)"
  by (auto simp: catching_def split: prod.splits outcome.splits sum.splits)

text \<open>\<open>m\<close> does not run out of fuel from a state with \<open>I\<close>.\<close>

definition ends :: "('s \<Rightarrow> bool) \<Rightarrow> ('s, 'a) act \<Rightarrow> bool" where
  "ends I m \<longleftrightarrow> (\<forall>s. I s \<longrightarrow> fst (m s) \<noteq> Unfinished)"

lemma ends_simps [simp]: "ends I (ret a)" "ends I (throw e)" "ends I (lift r)"
  by (simp_all add: ends_def ret_def throw_def lift_def)

lemma ends_seq:
  "ends I m \<Longrightarrow> keeps I m \<Longrightarrow> (\<And>a. ends I (f a)) \<Longrightarrow> ends I (seq m f)"
  by (fastforce simp: ends_def keeps_def seq_def split: prod.splits outcome.splits sum.splits)

lemma ends_andthen: "ends I m \<Longrightarrow> keeps I m \<Longrightarrow> ends I n \<Longrightarrow> ends I (andthen m n)"
  unfolding andthen_def by (rule ends_seq)

lemma ends_catching:
  "ends I m \<Longrightarrow> keeps I m \<Longrightarrow> (\<And>e. ends I (h e)) \<Longrightarrow> ends I (catching m h)"
  by (fastforce simp: ends_def keeps_def catching_def split: prod.splits outcome.splits sum.splits)

lemma ensuring_finishes:
  "fst (ensuring m f s) \<noteq> Unfinished \<longleftrightarrow> fst (m s) \<noteq> Unfinished \<and> fst (f (snd (m s))) \<noteq> Unfinished"
  by (auto simp: ensuring_def split: prod.splits outcome.splits sum.splits)

lemma ends_ensuring: "ends I m \<Longrightarrow> ends (\<lambda>_. True) f \<Longrightarrow> ends I (ensuring m f)"
  by (simp add: ends_def ensuring_finishes)

section \<open>The outside world\<close>

text \<open>
  The interface of an outside call: \<open>does c\<close> answers or raises, appends \<open>c\<close> with its failure to the
  trace, and nothing else.
\<close>

locale outside_world =
  fixes does :: "'c \<Rightarrow> ('s, 'r) act"
    and logged :: "'s \<Rightarrow> 'c trace"
  assumes logged_does: "logged (snd (does c s)) = logged s @ [(c, failure (fst (does c s)))]"
    and does_ends: "fst (does c s) \<noteq> Unfinished"
begin

lemma ends_does: "ends I (does c)"
  by (simp add: ends_def does_ends)

lemma adds_does: "C c \<Longrightarrow> adds logged C (does c)"
  by (auto simp: adds_def logged_does)

lemma triple_does:
  assumes "\<And>t. J t \<Longrightarrow> P t c" "\<And>t. J t \<Longrightarrow> K (t @ [(c, None)])"
  shows "triple (\<lambda>s. every_call P (logged s) \<and> J (logged s)) (does c)
    (\<lambda>s. every_call P (logged s)) (\<lambda>s. K (logged s))"
  using assms unfolding triple_def by (auto simp: logged_does)

lemma does_cases:
  obtains a where "fst (does c s) = Ended (Inr a)" "logged (snd (does c s)) = logged s @ [(c, None)]"
  | e where "fst (does c s) = Ended (Inl e)" "logged (snd (does c s)) = logged s @ [(c, Some e)]"
  using logged_does [of c s] does_ends [of c s]
  by (cases "fst (does c s)") (auto split: sum.splits, metis failure_simps obj_sumE)

end

end
