(* ===== verification/BenchRun.thy ===== *)
theory BenchRun
  imports BenchSummary BenchFleet BenchHarvest BenchReport Effects
begin

text \<open>
  The runs of \<^verbatim>\<open>bench/run_loadtest.py\<close>: everything it does to the machine it runs on, from the
  docker compose commands to the result files and the exit status. Docker, the fleet's process, the
  clocks and the file system are a \<open>bench_world\<close> that answers each call from the trace of the calls
  before; printed lines are left out.
\<close>

section \<open>Waiting for the stack\<close>

definition STACK_SERVICES :: "string list" where
  "STACK_SERVICES = [''zookeeper'', ''kafka'', ''redis'', ''matching-engine'', ''scoring-engine'']"

definition HEALTHCHECKED :: "string list" where
  "HEALTHCHECKED = [''zookeeper'', ''kafka'', ''redis'']"

definition state_line :: "string \<Rightarrow> (string \<times> string) list \<Rightarrow> (string \<times> string) list" where
  "state_line line states =
     (case after [CHR 0x09] line of
        Inr status \<Rightarrow> AList.update (strip (before [CHR 0x09] line)) (strip status) states
      | Inl _ \<Rightarrow> states)"

definition states_of :: "string \<Rightarrow> (string \<times> string) list" where
  "states_of stdout = fold state_line (splitlines stdout) []"

definition service_ready :: "(string \<times> string) list \<Rightarrow> string \<Rightarrow> bool" where
  "service_ready states svc \<longleftrightarrow>
     (case map_of states svc of
        None \<Rightarrow> False
      | Some status \<Rightarrow>
          starts_with ''Up'' status \<and> (svc \<in> set HEALTHCHECKED \<longrightarrow> contains ''healthy'' status))"

definition stack_ready :: "(string \<times> string) list \<Rightarrow> bool" where
  "stack_ready states \<longleftrightarrow> list_all (service_ready states) STACK_SERVICES"

section \<open>Host facts\<close>

text \<open>\<open>None\<close> for a text stands for an OSError on reading it; any other exception escapes.\<close>

fun first_line_with :: "string \<Rightarrow> string list \<Rightarrow> string option" where
  "first_line_with p [] = None"
| "first_line_with p (l # ls) = (if starts_with p l then Some l else first_line_with p ls)"

definition cpu_model :: "string option \<Rightarrow> json result" where
  "cpu_model text =
     (case text of
        None \<Rightarrow> Inr JNull
      | Some t \<Rightarrow>
          (case first_line_with ''model name'' (splitlines t) of
             None \<Rightarrow> Inr JNull
           | Some l \<Rightarrow> rbind (after '':'' l) (\<lambda>v. Inr (JStr (strip v)))))"

fun words_from :: "string \<Rightarrow> string \<Rightarrow> string list" where
  "words_from acc [] = (if acc = [] then [] else [rev acc])"
| "words_from acc (c # cs) =
     (if is_white c then (if acc = [] then words_from [] cs else rev acc # words_from [] cs)
      else words_from (c # acc) cs)"

definition mem_total_kb :: "string option \<Rightarrow> json result" where
  "mem_total_kb text =
     (case text of
        None \<Rightarrow> Inr JNull
      | Some t \<Rightarrow>
          (case first_line_with ''MemTotal'' (splitlines t) of
             None \<Rightarrow> Inr JNull
           | Some l \<Rightarrow> rbind (py_index (words_from [] l) 1) (\<lambda>w. rbind (parse_int w) (\<lambda>n. Inr (JInt n)))))"

section \<open>Arguments\<close>

record bench_args =
  b_host :: string
  b_port :: int
  b_duration :: int
  b_runs :: int
  b_mm :: int
  b_noise :: int
  b_momentum :: int
  b_label :: string
  b_redis_host_port :: string
  b_no_restart :: bool

definition bench_defaults :: "string \<Rightarrow> bench_args" where
  "bench_defaults redis_port =
     \<lparr>b_host = ''127.0.0.1'', b_port = 8080, b_duration = 60, b_runs = 5, b_mm = 50, b_noise = 100,
      b_momentum = 20, b_label = ''baseline'', b_redis_host_port = redis_port, b_no_restart = False\<rparr>"

definition fleet_command :: "string \<Rightarrow> string \<Rightarrow> bench_args \<Rightarrow> string list" where
  "fleet_command python script a =
     [python, script, ''--host'', b_host a, ''--port'', show_int (b_port a), ''--mm'', show_int (b_mm a),
      ''--noise'', show_int (b_noise a), ''--momentum'', show_int (b_momentum a),
      ''--duration'', show_int (b_duration a)]"

definition totals_dict :: "fleet_totals \<Rightarrow> dict" where
  "totals_dict t =
     (case t_sent t of None \<Rightarrow> [] | Some n \<Rightarrow> [(''sent'', JInt n)]) @
     (case t_drops t of None \<Rightarrow> [] | Some n \<Rightarrow> [(''drops'', JInt n)]) @
     (case t_fails t of None \<Rightarrow> [] | Some n \<Rightarrow> [(''fails'', JInt n)])"

section \<open>Calls\<close>

text \<open>A point in time as \<open>datetime.now(timezone.utc)\<close> returns it, for years of four digits.\<close>

record utc =
  u_year :: nat
  u_month :: nat
  u_day :: nat
  u_hour :: nat
  u_minute :: nat
  u_second :: nat
  u_micro :: nat

definition two :: "nat \<Rightarrow> string" where
  "two n = pad_zeros 2 (show_nat n)"

text \<open>The formats \<open>%Y-%m-%dT%H:%M:%SZ\<close> and \<open>%Y%m%dT%H%M%SZ\<close>, and \<open>isoformat()\<close>.\<close>

definition since_format :: "utc \<Rightarrow> string" where
  "since_format t = show_nat (u_year t) @ ''-'' @ two (u_month t) @ ''-'' @ two (u_day t) @ ''T'' @
     two (u_hour t) @ '':'' @ two (u_minute t) @ '':'' @ two (u_second t) @ ''Z''"

definition stamp_format :: "utc \<Rightarrow> string" where
  "stamp_format t = show_nat (u_year t) @ two (u_month t) @ two (u_day t) @ ''T'' @
     two (u_hour t) @ two (u_minute t) @ two (u_second t) @ ''Z''"

definition isoformat :: "utc \<Rightarrow> string" where
  "isoformat t = show_nat (u_year t) @ ''-'' @ two (u_month t) @ ''-'' @ two (u_day t) @ ''T'' @
     two (u_hour t) @ '':'' @ two (u_minute t) @ '':'' @ two (u_second t) @
     (if u_micro t = 0 then [] else ''.'' @ pad_zeros 6 (show_nat (u_micro t))) @ ''+00:00''"

record completed =
  returncode :: int
  p_stdout :: string
  p_stderr :: string

datatype bench_call =
    Compose "string list" "string \<Rightarrow> string option"
  | RunFleet "string list" int
  | ClockRead
  | Rest int
  | UtcRead
  | MakeResults string
  | ReadFile string
  | WriteText string string

record bench_world =
  denied :: "bench_call trace \<Rightarrow> bench_call \<Rightarrow> py_error option"
  finished :: "bench_call trace \<Rightarrow> completed"
  ticks :: "bench_call trace \<Rightarrow> pyfloat"
  utc_at :: "bench_call trace \<Rightarrow> utc"
  file_at :: "bench_call trace \<Rightarrow> string"
  bench_environ :: "string \<Rightarrow> string option"
  docker_found :: bool
  python_exe :: string
  REPO_ROOT :: string
  platform_text :: string
  python_version :: string
  cpu_count :: json

type_synonym 'a bench = "(bench_call trace, 'a) act"

definition calls_out :: "bench_world \<Rightarrow> (bench_call trace \<Rightarrow> 'a) \<Rightarrow> bench_call \<Rightarrow> 'a bench" where
  "calls_out w f c t =
     (case denied w t c of
        None \<Rightarrow> (Ended (Inr (f t)), t @ [(c, None)])
      | Some e \<Rightarrow> (Ended (Inl e), t @ [(c, Some e)]))"

definition reads_out :: "(bench_call trace \<Rightarrow> 'a) \<Rightarrow> bench_call \<Rightarrow> 'a bench" where
  "reads_out f c t = (Ended (Inr (f t)), t @ [(c, None)])"

interpretation calling: outside_world "calls_out w f" "\<lambda>t. t" for w f
  by unfold_locales (auto simp: calls_out_def split: option.splits)

interpretation reading: outside_world "reads_out f" "\<lambda>t. t" for f
  by unfold_locales (auto simp: reads_out_def)

abbreviation rest :: "int \<Rightarrow> unit bench" where
  "rest n \<equiv> reads_out (\<lambda>t. ()) (Rest n)"

section \<open>The stack\<close>

definition compose_env :: "bench_world \<Rightarrow> bench_args \<Rightarrow> string \<Rightarrow> string option" where
  "compose_env w a = (bench_environ w)(''REDIS_HOST_PORT'' \<mapsto> b_redis_host_port a)"

definition compose :: "bench_world \<Rightarrow> bench_args \<Rightarrow> string list \<Rightarrow> completed bench" where
  "compose w a cmd = calls_out w (finished w) (Compose (''docker'' # ''compose'' # cmd) (compose_env w a))"

definition PS :: "string list" where
  "PS = [''ps'', ''--format'', ''{{.Service}}'' @ [CHR 0x09] @ ''{{.Status}}'']"

definition DOWN :: "string list" where
  "DOWN = [''down'', ''--remove-orphans'']"

definition UP :: "string list" where
  "UP = [''up'', ''-d''] @ STACK_SERVICES"

definition service_states :: "bench_world \<Rightarrow> bench_args \<Rightarrow> (string \<times> string) list bench" where
  "service_states w a = seq (compose w a PS) (\<lambda>proc. ret (states_of (p_stdout proc)))"

text \<open>The loop is True when the stack is ready, False when the deadline passed.\<close>

fun wait_loop :: "bench_world \<Rightarrow> bench_args \<Rightarrow> pyfloat \<Rightarrow> nat \<Rightarrow> bool bench" where
  "wait_loop w a deadline 0 = unfinished"
| "wait_loop w a deadline (Suc n) =
     seq (reads_out (ticks w) ClockRead) (\<lambda>now.
       if \<not> flt now deadline then ret False
       else seq (service_states w a) (\<lambda>states.
         if stack_ready states then ret True
         else andthen (rest 3) (wait_loop w a deadline n)))"

definition wait_until_ready :: "bench_world \<Rightarrow> bench_args \<Rightarrow> nat \<Rightarrow> bool bench" where
  "wait_until_ready w a fuel =
     seq (reads_out (ticks w) ClockRead) (\<lambda>now.
     seq (wait_loop w a (fadd now (Fin 180)) fuel) (\<lambda>ready.
       if ready then ret True else andthen (service_states w a) (ret False)))"

definition restart_stack :: "bench_world \<Rightarrow> bench_args \<Rightarrow> nat \<Rightarrow> bool bench" where
  "restart_stack w a fuel =
     andthen (compose w a DOWN)
     (seq (compose w a UP) (\<lambda>up. if returncode up \<noteq> 0 then ret False else wait_until_ready w a fuel))"

section \<open>One run\<close>

definition read_text :: "bench_world \<Rightarrow> string \<Rightarrow> string option bench" where
  "read_text w p =
     catching (seq (calls_out w (file_at w) (ReadFile p)) (\<lambda>t. ret (Some t)))
       (\<lambda>e. if e = OSError then ret None else throw e)"

definition host_facts :: "bench_world \<Rightarrow> dict bench" where
  "host_facts w =
     seq (read_text w ''/proc/cpuinfo'') (\<lambda>cpuinfo.
     seq (lift (cpu_model cpuinfo)) (\<lambda>model.
     seq (read_text w ''/proc/meminfo'') (\<lambda>meminfo.
     seq (lift (mem_total_kb meminfo)) (\<lambda>mem.
       ret [(''platform'', JStr (platform_text w)), (''python'', JStr (python_version w)),
            (''cpu_count'', cpu_count w), (''cpu_model'', model), (''mem_total_kb'', mem)]))))"

definition run_bot_fleet :: "bench_world \<Rightarrow> bench_args \<Rightarrow> string bench" where
  "run_bot_fleet w a =
     seq (calls_out w (finished w)
       (RunFleet (fleet_command (python_exe w) (path_join (path_join (REPO_ROOT w) ''bot-fleet'') ''main.py'') a)
         (b_duration a + 120)))
       (\<lambda>proc. ret (p_stdout proc))"

definition harvest_scoring_samples :: "bench_world \<Rightarrow> bench_args \<Rightarrow> string \<Rightarrow> dict list bench" where
  "harvest_scoring_samples w a since =
     seq (compose w a [''logs'', ''--no-log-prefix'', ''--since'', since, ''scoring-engine''])
       (\<lambda>proc. ret (samples_in (p_stdout proc)))"

definition measured_run :: "bench_world \<Rightarrow> bench_args \<Rightarrow> dict bench" where
  "measured_run w a =
     seq (reads_out (utc_at w) UtcRead) (\<lambda>started.
     seq (run_bot_fleet w a) (\<lambda>fleet_stdout.
     andthen (rest 5)
     (seq (harvest_scoring_samples w a (since_format started)) (\<lambda>samples.
       lift (summarize samples (parse_fleet_ops fleet_stdout) (totals_dict (parse_fleet_totals fleet_stdout)))))))"

definition bench_run :: "bench_world \<Rightarrow> bench_args \<Rightarrow> nat \<Rightarrow> dict bench" where
  "bench_run w a fuel =
     (if b_no_restart a
      then seq (wait_until_ready w a fuel) (\<lambda>ready.
             if \<not> ready then ret [(''error'', JStr ''stack not ready'')] else measured_run w a)
      else seq (restart_stack w a fuel) (\<lambda>ready.
             if \<not> ready then ret [(''error'', JStr ''stack failed to start'')]
             else andthen (rest 5) (measured_run w a)))"

fun bench_loop :: "bench_world \<Rightarrow> bench_args \<Rightarrow> nat \<Rightarrow> nat \<Rightarrow> dict list bench" where
  "bench_loop w a fuel 0 = ret []"
| "bench_loop w a fuel (Suc k) =
     seq (bench_run w a fuel) (\<lambda>r. seq (bench_loop w a fuel k) (\<lambda>rs. ret (r # rs)))"

section \<open>The results\<close>

definition bench_meta_of :: "bench_world \<Rightarrow> bench_args \<Rightarrow> utc \<Rightarrow> utc \<Rightarrow> dict \<Rightarrow> bench_meta" where
  "bench_meta_of w a started ended facts =
     \<lparr>me_label = b_label a, me_started = isoformat started, me_finished = isoformat ended,
      me_duration = b_duration a, me_runs = b_runs a, me_restart = (\<not> b_no_restart a),
      me_redis_port = b_redis_host_port a, me_mm = b_mm a, me_noise = b_noise a, me_momentum = b_momentum a,
      me_target = b_host a @ '':'' @ show_int (b_port a), me_host = facts\<rparr>"

definition results_json :: "bench_meta \<Rightarrow> dict \<Rightarrow> dict list \<Rightarrow> json" where
  "results_json m agg runs =
     JObj [(''meta'', JObj (meta_dict m)), (''aggregate'', JObj agg), (''runs'', JList (map JObj runs))]"

definition RESULTS_DIR :: "bench_world \<Rightarrow> string" where
  "RESULTS_DIR w = path_join (REPO_ROOT w) ''results''"

definition result_path :: "bench_world \<Rightarrow> bench_args \<Rightarrow> utc \<Rightarrow> string \<Rightarrow> string" where
  "result_path w a started ext =
     path_join (RESULTS_DIR w) (''loadtest-'' @ stamp_format started @ ''-'' @ b_label a @ ext)"

definition exit_status :: "dict \<Rightarrow> int" where
  "exit_status agg = (if py_truth (dict_get agg ''runs_completed'' JNull) then 0 else 1)"

text \<open>\<open>sys.exit\<close> with a message ends the process with status 1.\<close>

definition bench_main :: "bench_world \<Rightarrow> bench_args \<Rightarrow> nat \<Rightarrow> int bench" where
  "bench_main w a fuel =
     (if \<not> docker_found w then ret 1
      else
        andthen (calls_out w (\<lambda>t. ()) (MakeResults (RESULTS_DIR w)))
       (seq (reads_out (utc_at w) UtcRead) (\<lambda>started.
        seq (bench_loop w a fuel (nat (b_runs a))) (\<lambda>runs.
        seq (lift (aggregate runs)) (\<lambda>agg.
        seq (reads_out (utc_at w) UtcRead) (\<lambda>ended.
        seq (host_facts w) (\<lambda>facts.
        let m = bench_meta_of w a started ended facts
        in andthen (calls_out w (\<lambda>t. ())
             (WriteText (result_path w a started ''.json'') (json_pretty (results_json m agg runs))))
          (seq (lift (markdown m agg runs)) (\<lambda>text.
           andthen (calls_out w (\<lambda>t. ()) (WriteText (result_path w a started ''.md'') text))
             (ret (exit_status agg)))))))))))"

end
