(* ===== verification/BenchRuns.thy ===== *)
theory BenchRuns
  imports BenchRun
begin

text \<open>
  What the benchmark's loop promises: it measures only a stack it has just brought up and seen ready,
  its waits end, and what it records and returns is what it measured.
\<close>

section \<open>Calls\<close>

lemma calls_out_value:
  "calls_out w f c t = (Ended (Inr x), t') \<longleftrightarrow> denied w t c = None \<and> x = f t \<and> t' = t @ [(c, None)]"
  by (auto simp: calls_out_def split: option.splits)

lemma reads_out_value: "reads_out f c t = (Ended (Inr x), t') \<longleftrightarrow> x = f t \<and> t' = t @ [(c, None)]"
  by (auto simp: reads_out_def)

lemma ret_value: "ret x t = (Ended (Inr y), t') \<longleftrightarrow> x = y \<and> t = t'"
  by (simp add: ret_def)

lemma lift_value: "lift r t = (Ended (Inr y), t') \<longleftrightarrow> r = Inr y \<and> t = t'"
  by (auto simp: lift_def)

lemmas act_value = seq_value andthen_value calls_out_value reads_out_value ret_value lift_value

definition ps_call :: "bench_world \<Rightarrow> bench_args \<Rightarrow> bench_call" where
  "ps_call w a = Compose (''docker'' # ''compose'' # PS) (compose_env w a)"

lemma service_states_value:
  "service_states w a t = (Ended (Inr st), t') \<longleftrightarrow>
     denied w t (ps_call w a) = None \<and> st = states_of (p_stdout (finished w t)) \<and> t' = t @ [(ps_call w a, None)]"
  by (auto simp: service_states_def compose_def ps_call_def act_value)

section \<open>Ready means up\<close>

lemma wait_loop_true:
  "wait_loop w a d n t = (Ended (Inr True), t') \<Longrightarrow>
     \<exists>u. t' = u @ [(ClockRead, None), (ps_call w a, None)] \<and> flt (ticks w u) d \<and>
       stack_ready (states_of (p_stdout (finished w (u @ [(ClockRead, None)]))))"
proof (induction n arbitrary: t)
  case 0
  then show ?case by (simp add: unfinished_def)
next
  case (Suc n)
  then show ?case
    by (auto simp: act_value service_states_value split: if_splits)
qed

lemma ready_services:
  "stack_ready st \<longleftrightarrow>
     list_all (\<lambda>svc. \<exists>status. map_of st svc = Some status \<and> starts_with ''Up'' status \<and>
       (if svc \<in> set HEALTHCHECKED then contains ''healthy'' status else True)) STACK_SERVICES"
  unfolding stack_ready_def list_all_iff service_ready_def by (intro ball_cong refl) (auto split: option.splits)

text \<open>
  The wait for the stack is sound: when it reports readiness, its last call is a \<open>docker compose
  ps\<close> made before the deadline whose output lists each of the five services as Up, with the word
  healthy in the status of each of the three that have a health check.
\<close>

lemma ready_means_up:
  assumes "wait_until_ready w a n t = (Ended (Inr True), t')"
  shows "\<exists>u. t' = u @ [(ClockRead, None), (ps_call w a, None)] \<and>
     flt (ticks w u) (fadd (ticks w t) (Fin 180)) \<and>
     list_all (\<lambda>svc. \<exists>status. map_of (states_of (p_stdout (finished w (u @ [(ClockRead, None)])))) svc = Some status \<and>
        starts_with ''Up'' status \<and> (if svc \<in> set HEALTHCHECKED then contains ''healthy'' status else True)) STACK_SERVICES"
proof -
  have "wait_loop w a (fadd (ticks w t) (Fin 180)) n (t @ [(ClockRead, None)]) = (Ended (Inr True), t')"
    using assms by (auto simp: wait_until_ready_def act_value split: if_splits)
  from wait_loop_true [OF this] ready_services show ?thesis by auto
qed

section \<open>The wait ends\<close>

text \<open>A clock that advances by at least the time rested.\<close>

definition rested :: "bench_call trace \<Rightarrow> int" where
  "rested t = sum_list (map (\<lambda>x. case fst x of Rest n \<Rightarrow> n | _ \<Rightarrow> 0) t)"

definition steady_clock :: "bench_world \<Rightarrow> bool" where
  "steady_clock w \<longleftrightarrow>
     (\<forall>t u. \<exists>x y. ticks w t = Fin x \<and> ticks w (t @ u) = Fin y \<and> x + of_int (rested u) \<le> y)"

lemma steady_later:
  assumes "steady_clock w" "ticks w t = Fin x"
  shows "\<exists>y. ticks w (t @ u) = Fin y \<and> x + of_int (rested u) \<le> y"
proof -
  have "\<exists>a b. ticks w t = Fin a \<and> ticks w (t @ u) = Fin b \<and> a + of_int (rested u) \<le> b"
    using assms(1) unfolding steady_clock_def by blast
  with assms(2) show ?thesis by auto
qed

lemma service_states_ends: "fst (service_states w a t) \<noteq> Unfinished"
  unfolding service_states_def compose_def seq_finishes using calling.does_ends by (auto simp: ret_def)

lemma wait_loop_ends:
  assumes "steady_clock w"
  shows "ticks w t = Fin y \<Longrightarrow> d \<le> y + 3 * of_nat n \<Longrightarrow> fst (wait_loop w a (Fin d) (Suc n) t) \<noteq> Unfinished"
proof (induction n arbitrary: t y)
  case 0
  then show ?case by (simp add: seq_def reads_out_def ret_def)
next
  case (Suc n)
  let ?u = "[(ClockRead, None), (ps_call w a, None), (Rest 3, None)]"
  have "\<exists>y'. ticks w (t @ ?u) = Fin y' \<and> y + of_int (rested ?u) \<le> y'"
    by (rule steady_later [OF assms Suc.prems(1)])
  then obtain y' where y': "ticks w (t @ ?u) = Fin y'" "y + 3 \<le> y'" by (auto simp: rested_def ps_call_def)
  have "fst (wait_loop w a (Fin d) (Suc n) (t @ ?u)) \<noteq> Unfinished"
  proof (rule Suc.IH [OF y'(1)])
    have "d \<le> (y + 3) + 3 * of_nat n" using Suc.prems(2) by simp
    with y'(2) show "d \<le> y' + 3 * of_nat n" by linarith
  qed
  then show ?case
    using service_states_ends [of w a "t @ [(ClockRead, None)]"] Suc.prems(1)
    by (auto simp: seq_finishes andthen_def reads_out_def ret_def wait_loop.simps(2) [of w a "Fin d" "Suc n"]
        simp del: wait_loop.simps)
      (auto simp: seq_def service_states_def compose_def calls_out_def ret_def ps_call_def split: option.splits)
qed

text \<open>
  C35. The wait ends: from a clock of less than 2 to the 40 seconds that advances by at least the time
  slept, it has returned (or raised) by its 62nd test at the latest, whatever compose reports.
\<close>

theorem wait_terminates:
  assumes "steady_clock w" "ticks w t = Fin s" "\<bar>s\<bar> \<le> 2 ^ 40"
  shows "fst (wait_until_ready w a 62 t) \<noteq> Unfinished"
proof -
  have c: "\<bar>\<lceil>s\<rceil>\<bar> \<le> 2 ^ 40 + 1" using assms(3) ceiling_correct [of s] by (simp add: abs_le_iff) linarith
  have "of_int (- (2 ^ 53)) \<le> s + 180" "s + 180 \<le> of_int (\<lceil>s\<rceil> + 180)"
    using assms(3) by (simp_all add: abs_le_iff)
  then obtain d where d: "to_f64 (s + 180) = Fin d" "d \<le> of_int (\<lceil>s\<rceil> + 180)"
    using to_f64_between [of "- (2 ^ 53)" "s + 180" "\<lceil>s\<rceil> + 180"] c by (auto simp: abs_le_iff)
  have "of_int (\<lceil>s\<rceil> + 180) < s + 181" using ceiling_correct [of s] by simp
  with d(2) have d': "d < s + 181" by linarith
  have "\<exists>y. ticks w (t @ [(ClockRead, None)]) = Fin y \<and> s + of_int (rested [(ClockRead, None)]) \<le> y"
    by (rule steady_later [OF assms(1,2)])
  then obtain y where y: "ticks w (t @ [(ClockRead, None)]) = Fin y" "s \<le> y" by (auto simp: rested_def)
  have "d \<le> y + 3 * of_nat 61" using d' y(2) by simp
  from wait_loop_ends [OF assms(1) y(1) this] have "fst (wait_loop w a (Fin d) 62 (t @ [(ClockRead, None)])) \<noteq> Unfinished"
    by simp
  moreover have "fadd (ticks w t) (Fin 180) = Fin d" using assms(2) d(1) by simp
  ultimately show ?thesis
    unfolding wait_until_ready_def
    using service_states_ends by (auto simp: seq_finishes andthen_def reads_out_def ret_def simp del: wait_loop.simps)
qed

section \<open>Every measurement is of a fresh stack\<close>

text \<open>
  What the trace says of the stack since the last fleet: torn down, brought up after that, and seen
  ready after that. A command that raised leaves nothing to rely on.
\<close>

definition stack_step :: "bench_world \<Rightarrow> bench_args \<Rightarrow> bench_call trace \<Rightarrow> bench_call \<times> py_error option \<Rightarrow>
    bool \<times> bool \<times> bool \<Rightarrow> bool \<times> bool \<times> bool" where
  "stack_step w a t x f =
     (let (down, up, ready) = f
      in case x of
           (Compose cmd env, None) \<Rightarrow>
             if cmd = ''docker'' # ''compose'' # DOWN then (True, False, False)
             else if cmd = ''docker'' # ''compose'' # UP then (down, returncode (finished w t) = 0, False)
             else if cmd = ''docker'' # ''compose'' # PS
             then (down, up, stack_ready (states_of (p_stdout (finished w t))))
             else f
         | (Compose cmd env, Some e) \<Rightarrow> (False, False, False)
         | (RunFleet cmd timeout, r) \<Rightarrow> (False, False, False)
         | _ \<Rightarrow> f)"

fun stack_rev :: "bench_world \<Rightarrow> bench_args \<Rightarrow> bench_call trace \<Rightarrow> bool \<times> bool \<times> bool" where
  "stack_rev w a [] = (False, False, False)"
| "stack_rev w a (x # t) = stack_step w a (rev t) x (stack_rev w a t)"

definition stack_state :: "bench_world \<Rightarrow> bench_args \<Rightarrow> bench_call trace \<Rightarrow> bool \<times> bool \<times> bool" where
  "stack_state w a t = stack_rev w a (rev t)"

lemma stack_state_snoc [simp]: "stack_state w a (t @ [x]) = stack_step w a t x (stack_state w a t)"
  by (simp add: stack_state_def)

definition fresh_stack :: "bench_world \<Rightarrow> bench_args \<Rightarrow> bench_call trace \<Rightarrow> bool" where
  "fresh_stack w a t \<longleftrightarrow>
     (let (down, up, ready) = stack_state w a t in ready \<and> (b_no_restart a \<or> down \<and> up))"

definition measured_fresh :: "bench_world \<Rightarrow> bench_args \<Rightarrow> bench_call trace \<Rightarrow> bench_call \<Rightarrow> bool" where
  "measured_fresh w a t c \<longleftrightarrow> (case c of RunFleet cmd timeout \<Rightarrow> fresh_stack w a t | _ \<Rightarrow> True)"

lemma measured_fresh_simps [simp]:
  "measured_fresh w a t (Compose cmd env)" "measured_fresh w a t ClockRead" "measured_fresh w a t (Rest n)"
  "measured_fresh w a t UtcRead" "measured_fresh w a t (MakeResults p)" "measured_fresh w a t (ReadFile p)"
  "measured_fresh w a t (WriteText p x)"
  by (simp_all add: measured_fresh_def)

text \<open>Rules for the two kinds of call, under the invariant that every fleet so far was.\<close>

abbreviation sound_runs :: "bench_world \<Rightarrow> bench_args \<Rightarrow> bench_call trace \<Rightarrow> bool" where
  "sound_runs w a \<equiv> every_call (measured_fresh w a)"

lemma yields_calls:
  assumes "\<And>t. J t \<Longrightarrow> measured_fresh w a t c" "\<And>t. J t \<Longrightarrow> K (f t) (t @ [(c, None)])"
  shows "yields (\<lambda>t. sound_runs w a t \<and> J t) (calls_out w' f c) (sound_runs w a) K"
    "yields (\<lambda>t. sound_runs w a t \<and> J t) (reads_out f c) (sound_runs w a) K"
  using assms by (auto simp: yields_def calls_out_def reads_out_def split: option.splits)

abbreviation torn_up :: "bench_world \<Rightarrow> bench_args \<Rightarrow> bool \<times> bool \<Rightarrow> bench_call trace \<Rightarrow> bool" where
  "torn_up w a X t \<equiv> (fst (stack_state w a t), fst (snd (stack_state w a t))) = X"

lemma compose_differ:
  "DOWN \<noteq> UP" "DOWN \<noteq> PS" "UP \<noteq> PS" "DOWN \<noteq> ''logs'' # xs" "UP \<noteq> ''logs'' # xs" "PS \<noteq> ''logs'' # xs"
  by (simp_all add: DOWN_def UP_def PS_def)

lemma step_simps [simp]:
  "stack_step w a t (Compose (''docker'' # ''compose'' # DOWN) env, None) f = (True, False, False)"
  "stack_step w a t (Compose (''docker'' # ''compose'' # UP) env, None) f = (fst f, returncode (finished w t) = 0, False)"
  "stack_step w a t (Compose (''docker'' # ''compose'' # PS) env, None) f =
     (fst f, fst (snd f), stack_ready (states_of (p_stdout (finished w t))))"
  "stack_step w a t (ClockRead, r) f = f" "stack_step w a t (UtcRead, r) f = f" "stack_step w a t (Rest n, r) f = f"
  using compose_differ by (auto simp: stack_step_def split: prod.split)

lemma fresh_service_states:
  "yields (\<lambda>t. sound_runs w a t \<and> torn_up w a X t) (service_states w a) (sound_runs w a)
     (\<lambda>st t. torn_up w a X t \<and> snd (snd (stack_state w a t)) = stack_ready st)"
  unfolding service_states_def compose_def
  by (rule yields_seq [OF yields_calls(1) [where K = "\<lambda>p t. torn_up w a X t \<and>
        snd (snd (stack_state w a t)) = stack_ready (states_of (p_stdout p))"]])
    (auto intro: yields_ret)

lemma fresh_wait_loop:
  "yields (\<lambda>t. sound_runs w a t \<and> torn_up w a X t) (wait_loop w a d n) (sound_runs w a)
     (\<lambda>r t. torn_up w a X t \<and> (r \<longrightarrow> snd (snd (stack_state w a t))))"
proof (induction n)
  case 0
  then show ?case by (auto intro: yields_stop)
next
  case (Suc n)
  have "yields (\<lambda>t. sound_runs w a t \<and> torn_up w a X t) (andthen (rest 3) (wait_loop w a d n)) (sound_runs w a)
     (\<lambda>r t. torn_up w a X t \<and> (r \<longrightarrow> snd (snd (stack_state w a t))))"
    by (rule yields_andthen [OF yields_calls(2) Suc.IH]) auto
  then have "yields (\<lambda>t. sound_runs w a t \<and> torn_up w a X t)
      (seq (service_states w a) (\<lambda>states. if stack_ready states then ret True
         else andthen (rest 3) (wait_loop w a d n))) (sound_runs w a)
      (\<lambda>r t. torn_up w a X t \<and> (r \<longrightarrow> snd (snd (stack_state w a t))))"
    by (intro yields_seq [OF fresh_service_states]) (auto intro: yields_ret elim: yields_conseq)
  then show ?case
    unfolding wait_loop.simps
    by (intro yields_seq [OF yields_calls(2) [where K = "\<lambda>x. torn_up w a X"]]) (auto intro: yields_ret)
qed

lemma fresh_wait:
  "yields (\<lambda>t. sound_runs w a t \<and> torn_up w a X t) (wait_until_ready w a n) (sound_runs w a)
     (\<lambda>r t. torn_up w a X t \<and> (r \<longrightarrow> snd (snd (stack_state w a t))))"
proof -
  have "yields (\<lambda>t. sound_runs w a t \<and> torn_up w a X t) (andthen (service_states w a) (ret False)) (sound_runs w a)
     (\<lambda>r t. torn_up w a X t \<and> (r \<longrightarrow> snd (snd (stack_state w a t))))"
    unfolding andthen_def by (rule yields_seq [OF fresh_service_states]) (auto intro: yields_ret)
  then have "yields (\<lambda>t. sound_runs w a t \<and> torn_up w a X t)
      (seq (wait_loop w a d n) (\<lambda>ready. if ready then ret True else andthen (service_states w a) (ret False)))
      (sound_runs w a) (\<lambda>r t. torn_up w a X t \<and> (r \<longrightarrow> snd (snd (stack_state w a t))))" for d
    by (intro yields_seq [OF fresh_wait_loop]) (auto intro: yields_ret elim: yields_conseq)
  then show ?thesis
    unfolding wait_until_ready_def
    by (intro yields_seq [OF yields_calls(2) [where K = "\<lambda>x. torn_up w a X"]]) auto
qed

lemma fresh_restart:
  "yields (sound_runs w a) (restart_stack w a n) (sound_runs w a)
     (\<lambda>r t. r \<longrightarrow> stack_state w a t = (True, True, True))"
proof -
  have go: "yields (\<lambda>t. sound_runs w a t \<and> torn_up w a (True, True) t) (wait_until_ready w a n) (sound_runs w a)
     (\<lambda>r t. r \<longrightarrow> stack_state w a t = (True, True, True))"
    by (rule yields_conseq [OF fresh_wait [where X = "(True, True)"]]) (auto simp: prod_eq_iff)
  have "yields (\<lambda>t. sound_runs w a t \<and> fst (stack_state w a t))
     (seq (compose w a UP) (\<lambda>up. if returncode up \<noteq> 0 then ret False else wait_until_ready w a n)) (sound_runs w a)
     (\<lambda>r t. r \<longrightarrow> stack_state w a t = (True, True, True))"
    unfolding compose_def
    by (rule yields_seq [OF yields_calls(1) [where K = "\<lambda>p. torn_up w a (True, returncode p = 0)"]])
      (auto intro: yields_ret intro: yields_conseq [OF go])
  moreover have "yields (\<lambda>t. sound_runs w a t \<and> True) (compose w a DOWN) (sound_runs w a) (\<lambda>_ t. fst (stack_state w a t))"
    unfolding compose_def by (rule yields_calls(1)) auto
  ultimately show ?thesis unfolding restart_stack_def by (intro yields_andthen) auto
qed

text \<open>Calls that are not a fleet need no condition, and promise nothing.\<close>

lemma sound_harvest: "yields (sound_runs w a) (harvest_scoring_samples w a s) (sound_runs w a) (\<lambda>_ _. True)"
proof -
  have "yields (\<lambda>t. sound_runs w a t \<and> True) (harvest_scoring_samples w a s) (sound_runs w a) (\<lambda>_ _. True)"
    unfolding harvest_scoring_samples_def compose_def
    by (rule yields_seq [OF yields_calls(1)]) (auto intro: yields_ret)
  then show ?thesis by simp
qed

lemma fresh_measured:
  "yields (\<lambda>t. sound_runs w a t \<and> fresh_stack w a t) (measured_run w a) (sound_runs w a) (\<lambda>_ _. True)"
proof -
  have tail: "yields (sound_runs w a) (andthen (rest 5)
       (seq (harvest_scoring_samples w a (since_format started)) (\<lambda>samples.
         lift (summarize samples (parse_fleet_ops out) (totals_dict (parse_fleet_totals out))))))
     (sound_runs w a) (\<lambda>_ _. True)" for started out
  proof -
    have "yields (\<lambda>t. sound_runs w a t \<and> True) (rest 5) (sound_runs w a) (\<lambda>_ _. True)"
      by (rule yields_calls(2)) auto
    then show ?thesis
      by (intro yields_andthen [where J = "\<lambda>_. True"] yields_conseq [OF yields_seq [OF sound_harvest]])
        (auto intro: yields_lift)
  qed
  have fleet: "yields (\<lambda>t. sound_runs w a t \<and> fresh_stack w a t) (run_bot_fleet w a) (sound_runs w a) (\<lambda>_ _. True)"
    unfolding run_bot_fleet_def
    by (rule yields_seq [OF yields_calls(1)]) (auto simp: measured_fresh_def intro: yields_ret)
  show ?thesis
    unfolding measured_run_def
    by (intro yields_seq [OF yields_calls(2) [where K = "\<lambda>x. fresh_stack w a"]] yields_seq [OF fleet])
      (auto simp: fresh_stack_def intro: yields_conseq [OF tail])
qed

lemma fresh_run: "yields (sound_runs w a) (bench_run w a n) (sound_runs w a) (\<lambda>_ _. True)"
proof (cases "b_no_restart a")
  case True
  have "yields (\<lambda>t. sound_runs w a t \<and> snd (snd (stack_state w a t))) (measured_run w a) (sound_runs w a) (\<lambda>_ _. True)"
    using True by (intro yields_conseq [OF fresh_measured]) (auto simp: fresh_stack_def split: prod.split)
  moreover have "yields (sound_runs w a) (wait_until_ready w a n) (sound_runs w a)
      (\<lambda>r t. r \<longrightarrow> snd (snd (stack_state w a t)))"
    using fresh_wait [of w a _ n] unfolding yields_def by blast
  ultimately show ?thesis
    unfolding bench_run_def if_P [OF True] by (intro yields_seq) (auto intro: yields_ret elim: yields_conseq)
next
  case False
  have "yields (\<lambda>t. sound_runs w a t \<and> stack_state w a t = (True, True, True)) (andthen (rest 5) (measured_run w a))
      (sound_runs w a) (\<lambda>_ _. True)"
    by (rule yields_andthen [OF yields_calls(2) fresh_measured]) (auto simp: fresh_stack_def)
  then show ?thesis
    unfolding bench_run_def if_not_P [OF False]
    by (intro yields_seq [OF fresh_restart]) (auto intro: yields_ret elim: yields_conseq)
qed

lemma fresh_loop: "yields (sound_runs w a) (bench_loop w a n k) (sound_runs w a) (\<lambda>_ _. True)"
proof (induction k)
  case (Suc k)
  have "yields (sound_runs w a) (seq (bench_loop w a n k) (\<lambda>rs. ret (r # rs))) (sound_runs w a) (\<lambda>_ _. True)" for r
    by (rule yields_seq [OF Suc.IH]) (auto intro: yields_ret)
  then show ?case
    unfolding bench_loop.simps by (intro yields_seq [OF fresh_run]) (auto elim: yields_conseq)
qed (auto intro: yields_ret)

text \<open>Actions that start no fleet.\<close>

definition no_fleet :: "bench_call \<Rightarrow> bool" where
  "no_fleet c \<longleftrightarrow> (case c of RunFleet cmd timeout \<Rightarrow> False | _ \<Rightarrow> True)"

lemma sound_adds: "adds (\<lambda>t. t) no_fleet m \<Longrightarrow> yields (sound_runs w a) m (sound_runs w a) (\<lambda>_ _. True)"
  using adds_triple [of "\<lambda>t. t" no_fleet m "\<lambda>_. True" "measured_fresh w a"]
  by (auto simp: yields_triple no_fleet_def measured_fresh_def stable_def split: bench_call.splits)

lemma no_fleet_calls:
  "no_fleet c \<Longrightarrow> adds (\<lambda>t. t) no_fleet (calls_out w f c)" "no_fleet c \<Longrightarrow> adds (\<lambda>t. t) no_fleet (reads_out f c)"
  by (rule calling.adds_does, assumption) (rule reading.adds_does)

lemma no_fleet_facts: "adds (\<lambda>t. t) no_fleet (host_facts w)"
  unfolding host_facts_def read_text_def
  by (intro adds_rules no_fleet_calls) (auto simp: no_fleet_def intro: adds_rules)


section \<open>The exit status and the files\<close>

lemma aggregate_completed:
  assumes "aggregate runs = Inr d"
  shows "exit_status d = (if list_all failed_run runs then 1 else 0)"
proof (cases "filter (\<lambda>r. \<not> failed_run r) runs = []")
  case True
  then have "list_all failed_run runs" by (auto simp: filter_empty_conv list_all_iff)
  with True assms show ?thesis by (auto simp: aggregate_def Let_def exit_status_def)
next
  case False
  then have "\<not> list_all failed_run runs" by (auto simp: filter_empty_conv list_all_iff)
  with False assms show ?thesis by (auto simp: aggregate_def Let_def JInt_def exit_status_def)
qed

lemma bench_loop_runs: "bench_loop w a n k t = (Ended (Inr runs), t') \<Longrightarrow> length runs = k"
  by (induction k arbitrary: t runs t') (auto simp: act_value)

text \<open>
  C36. The benchmark ends with its results: when it returns, it has recorded exactly the runs asked for
  (none for a negative count), its last two calls wrote the JSON text of the meta data, the aggregate
  and these runs and the report on them, and its exit status is 0 when at least one run completed and
  1 otherwise.
\<close>

theorem bench_writes_results:
  assumes "bench_main w a n [] = (Ended (Inr code), t)" "docker_found w"
  shows "\<exists>runs agg m rep started u. length runs = nat (b_runs a) \<and> aggregate runs = Inr agg \<and>
     markdown m agg runs = Inr rep \<and> code = (if list_all failed_run runs then 1 else 0) \<and>
     t = u @ [(WriteText (result_path w a started ''.json'') (json_pretty (results_json m agg runs)), None),
              (WriteText (result_path w a started ''.md'') rep, None)]"
proof -
  obtain runs agg started ended facts rep u u' where r:
    "bench_loop w a n (nat (b_runs a)) u = (Ended (Inr runs), u')" "aggregate runs = Inr agg"
    "code = exit_status agg"
    and m: "markdown (bench_meta_of w a started ended facts) agg runs = Inr rep"
    and t: "\<exists>v. t = v @ [(WriteText (result_path w a started ''.json'')
              (json_pretty (results_json (bench_meta_of w a started ended facts) agg runs)), None),
            (WriteText (result_path w a started ''.md'') rep, None)]"
    using assms unfolding bench_main_def Let_def by (fastforce simp: act_value)
  from bench_loop_runs [OF r(1)] aggregate_completed [OF r(2)] r m t show ?thesis by blast
qed

definition broken_world :: bench_world where
  "broken_world =
     \<lparr>denied = (\<lambda>t c. None), finished = (\<lambda>t. \<lparr>returncode = 1, p_stdout = [], p_stderr = []\<rparr>),
      ticks = (\<lambda>t. Fin (of_int (rested t))),
      utc_at = (\<lambda>t. \<lparr>u_year = 2026, u_month = 1, u_day = 2, u_hour = 3, u_minute = 4, u_second = 5, u_micro = 6\<rparr>),
      file_at = (\<lambda>t. []), bench_environ = (\<lambda>k. None), docker_found = True, python_exe = ''python3'',
      REPO_ROOT = ''/repo'', platform_text = ''Linux'', python_version = ''3.11'', cpu_count = JNull\<rparr>"

lemma broken_clock: "steady_clock broken_world"
  by (simp add: steady_clock_def broken_world_def rested_def)

theorem wait_terminates_witness: "fst (wait_until_ready broken_world (bench_defaults ''6379'') 62 []) \<noteq> Unfinished"
  by (rule wait_terminates [OF broken_clock, where s = 0]) (simp_all add: broken_world_def rested_def)

lemma rmap_list_some: "(\<And>x. x \<in> set xs \<Longrightarrow> \<exists>y. f x = Inr y) \<Longrightarrow> \<exists>ys. rmap_list f xs = Inr ys"
  using rmap_list_total [of xs f "\<lambda>_. True"] by auto

lemma failed_report:
  assumes "dict_get agg ''metrics'' JNull = JNull" "list_all failed_run runs"
    and "dict_get (me_host m) ''mem_total_kb'' JNull = JNull"
  shows "\<exists>text. markdown m agg runs = Inr text"
proof -
  have "\<exists>ys. rmap_list (report_row (stats_part agg)) AGGREGATED = Inr ys"
    using assms(1) by (intro rmap_list_some) (auto simp: report_row_def stats_part_def dict_get_def split: prod.split)
  moreover have "\<exists>ys. rmap_list (\<lambda>(i, r). run_row i r) (enumerate 1 runs) = Inr ys"
  proof (rule rmap_list_some)
    fix x assume "x \<in> set (enumerate 1 runs)"
    then have "snd x \<in> set runs" using nth_mem [of "fst x - 1" runs] by (auto simp: in_set_enumerate_eq)
    with assms(2) obtain e where "map_of (snd x) ''error'' = Some e" by (auto simp: failed_run_def list_all_iff)
    then show "\<exists>y. (case x of (i, r) \<Rightarrow> run_row i r) = Inr y" by (cases x) (simp add: run_row_def)
  qed
  moreover have "\<exists>l. host_lines (me_host m) = Inr l"
    using assms(3) by (simp add: host_lines_def memory_mb_def or_else_def JInt_def)
  ultimately show ?thesis by (auto simp: markdown_def)
qed

lemma broken_runs: "\<exists>t'. bench_run broken_world (bench_defaults ''6379'') n t =
    (Ended (Inr [(''error'', JStr ''stack failed to start'')]), t')"
  by (simp add: bench_run_def bench_defaults_def restart_stack_def compose_def andthen_def seq_def calls_out_def
      broken_world_def ret_def)

lemma broken_loop: "\<exists>t'. bench_loop broken_world (bench_defaults ''6379'') n k t =
    (Ended (Inr (replicate k [(''error'', JStr ''stack failed to start'')])), t')"
proof (induction k arbitrary: t)
  case (Suc k)
  obtain u where u: "bench_run broken_world (bench_defaults ''6379'') n t =
      (Ended (Inr [(''error'', JStr ''stack failed to start'')]), u)" using broken_runs by blast
  obtain v where "bench_loop broken_world (bench_defaults ''6379'') n k u =
      (Ended (Inr (replicate k [(''error'', JStr ''stack failed to start'')])), v)" using Suc.IH by blast
  with u show ?case by (simp add: seq_def ret_def)
qed (simp add: ret_def)

theorem bench_writes_results_witness:
  "\<exists>code t. bench_main broken_world (bench_defaults ''6379'') 0 [] = (Ended (Inr code), t) \<and> code = 1 \<and> length t \<ge> 2"
proof -
  let ?a = "bench_defaults ''6379''" and ?w = broken_world
  let ?runs = "replicate 5 [(''error'', JStr ''stack failed to start'')]"
  have calls: "calls_out ?w f c t = (Ended (Inr (f t)), t @ [(c, None)])" for c t and f :: "bench_call trace \<Rightarrow> 'c"
    by (simp add: calls_out_def broken_world_def)
  have texts: "file_at ?w t = []" for t by (simp add: broken_world_def)
  obtain agg where agg: "aggregate ?runs = Inr agg" "dict_get agg ''metrics'' JNull = JNull"
    by (simp add: aggregate_def failed_run_def)
  have facts: "\<exists>facts t'. host_facts ?w t = (Ended (Inr facts), t') \<and> dict_get facts ''mem_total_kb'' JNull = JNull" for t
    by (simp add: host_facts_def read_text_def seq_def calls catching_def lift_def ret_def cpu_model_def mem_total_kb_def
        splitlines_def texts)
  have "list_all failed_run ?runs" by (simp add: failed_run_def list_all_iff)
  then have md: "dict_get (me_host m) ''mem_total_kb'' JNull = JNull \<Longrightarrow> \<exists>rep. markdown m agg ?runs = Inr rep" for m
    using failed_report [OF agg(2)] by blast
  have five: "nat (b_runs ?a) = 5" by (simp add: bench_defaults_def)
  let ?t1 = "[(MakeResults (RESULTS_DIR ?w), None), (UtcRead, None)]"
  obtain t2 where t2: "bench_loop ?w ?a 0 5 ?t1 = (Ended (Inr ?runs), t2)" using broken_loop by blast
  obtain facts t3 where t3: "host_facts ?w (t2 @ [(UtcRead, None)]) = (Ended (Inr facts), t3)"
    "dict_get facts ''mem_total_kb'' JNull = JNull" using facts by blast
  obtain rep where rep: "markdown (bench_meta_of ?w ?a (utc_at ?w [(MakeResults (RESULTS_DIR ?w), None)])
      (utc_at ?w t2) facts) agg ?runs = Inr rep"
  proof -
    have "me_host (bench_meta_of ?w ?a s e facts) = facts" for s e by (simp add: bench_meta_of_def)
    with md t3(2) that show thesis by metis
  qed
  have "docker_found ?w" by (simp add: broken_world_def)
  moreover from this obtain t where m: "bench_main ?w ?a 0 [] = (Ended (Inr (exit_status agg)), t)"
    unfolding bench_main_def five
    by (simp add: andthen_def seq_def calls reads_out_def t2 agg(1) lift_def t3(1) Let_def rep ret_def)
  ultimately show ?thesis using bench_writes_results [OF m] \<open>list_all failed_run ?runs\<close> aggregate_completed [OF agg(1)] m
    by auto
qed

text \<open>
  The health check of the wait is a substring test, and \<open>unhealthy\<close> contains \<open>healthy\<close>: with Kafka
  reported as Up and unhealthy the stack counts as ready.
\<close>

definition ps_output :: "string \<Rightarrow> string" where
  "ps_output kafka =
     concat (map (\<lambda>(svc, status). svc @ [CHR 0x09] @ status @ [CHR 0x0A])
       [(''zookeeper'', ''Up 2 minutes (healthy)''), (''kafka'', kafka),
        (''redis'', ''Up 2 minutes (healthy)''), (''matching-engine'', ''Up 2 minutes''),
        (''scoring-engine'', ''Up 2 minutes'')])"

lemmas ps_eval = ps_output_def states_of_def splitlines_def is_boundary_def state_line_def after_def
  before_def starts_with_def strip_def is_white_def

lemma unhealthy_counts_as_ready: "stack_ready (states_of (ps_output ''Up 2 minutes (unhealthy)''))"
proof -
  have "states_of (ps_output ''Up 2 minutes (unhealthy)'') =
     [(''zookeeper'', ''Up 2 minutes (healthy)''), (''kafka'', ''Up 2 minutes (unhealthy)''),
      (''redis'', ''Up 2 minutes (healthy)''), (''matching-engine'', ''Up 2 minutes''),
      (''scoring-engine'', ''Up 2 minutes'')]"
    by (simp add: ps_eval)
  then show ?thesis
    by (simp add: stack_ready_def service_ready_def STACK_SERVICES_def HEALTHCHECKED_def starts_with_def)
qed

definition ready_world :: bench_world where
  "ready_world = broken_world\<lparr>finished := (\<lambda>t. \<lparr>returncode = 0,
     p_stdout = ps_output ''Up 2 minutes (unhealthy)'', p_stderr = []\<rparr>)\<rparr>"

end
