(* ===== verification/ArgParse.thy ===== *)
theory ArgParse
  imports PyText
begin

text \<open>
  Python's \<open>argparse\<close> as the four command lines use it: long options that are switches or take one
  value, converted by \<open>str\<close>, \<open>int\<close> or \<open>float\<close>, and the help options the parser adds. Each argument
  is classified first; an unambiguous prefix stands for its option, and what follows \<open>--\<close> is never an
  option. A parse ends in the options found or in the exit code of \<open>parser.exit\<close> (0 for the help, 2 for
  a usage error).
\<close>

section \<open>Arguments\<close>

datatype arg_kind = Switch | TextArg | IntArg | FloatArg

datatype arg_value = AStr string | AInt int | AFloat pyfloat | ATrue

datatype 'a parsed = Exit nat | Args 'a

type_synonym options = "(string \<times> arg_kind) list"
type_synonym namespace = "(string \<times> arg_value) list"

datatype token = Word | Opt string "string option" | Stray | Ambiguous

definition names_of :: "options \<Rightarrow> string list" where
  "names_of spec = ''-h'' # ''--help'' # map fst spec"

text \<open>\<open>^-\d+$|^-\d*\.\d+$\<close>, where \<open>$\<close> also matches before a final newline.\<close>

definition negative_digits :: "string \<Rightarrow> bool" where
  "negative_digits t =
     (case dropWhile is_digit t of
        [] \<Rightarrow> t \<noteq> []
      | c # f \<Rightarrow> c = CHR ''.'' \<and> f \<noteq> [] \<and> list_all is_digit f)"

definition negative_number :: "string \<Rightarrow> bool" where
  "negative_number s =
     (case s of
        [] \<Rightarrow> False
      | c # t \<Rightarrow> c = CHR ''-'' \<and> negative_digits (if t \<noteq> [] \<and> last t = CHR 0x0A then butlast t else t))"

text \<open>The options an argument may abbreviate, each with the value it carries.\<close>

definition abbreviated :: "string list \<Rightarrow> string \<Rightarrow> (string \<times> string option) list" where
  "abbreviated names s =
     (if starts_with ''--'' s
      then case find_sub ''='' s of
             None \<Rightarrow> map (\<lambda>n. (n, None)) (filter (starts_with s) names)
           | Some i \<Rightarrow> map (\<lambda>n. (n, Some (drop (Suc i) s))) (filter (starts_with (take i s)) names)
      else concat (map (\<lambda>n. if n = take 2 s then [(n, Some (drop 2 s))]
                            else if starts_with s n then [(n, None)] else []) names))"

definition exact_with_value :: "string list \<Rightarrow> string \<Rightarrow> (string \<times> string) option" where
  "exact_with_value names s =
     (case find_sub ''='' s of
        None \<Rightarrow> None
      | Some i \<Rightarrow> if take i s \<in> set names then Some (take i s, drop (Suc i) s) else None)"

definition classify :: "string list \<Rightarrow> string \<Rightarrow> token" where
  "classify names s =
     (if s = [] \<or> hd s \<noteq> CHR ''-'' then Word
      else if s \<in> set names then Opt s None
      else if length s = 1 then Word
      else case exact_with_value names s of
             Some (n, v) \<Rightarrow> Opt n (Some v)
           | None \<Rightarrow>
               (case abbreviated names s of
                  [(n, v)] \<Rightarrow> Opt n v
                | _ # _ # _ \<Rightarrow> Ambiguous
                | [] \<Rightarrow> if negative_number s \<or> CHR '' '' \<in> set s then Word else Stray))"

fun tokens :: "string list \<Rightarrow> string list \<Rightarrow> token list" where
  "tokens names [] = []"
| "tokens names (s # ss) =
     (if s = ''--'' then Stray # map (\<lambda>_. Word) ss else classify names s # tokens names ss)"

section \<open>Parsing\<close>

text \<open>The letters after \<open>-h\<close>: each \<open>h\<close> asks for the help again, a \<open>=\<close> or a \<open>-\<close> is refused.\<close>

fun help_cluster :: "string \<Rightarrow> nat" where
  "help_cluster [] = 2"
| "help_cluster [c] = (if c = CHR ''-'' then 2 else 0)"
| "help_cluster (c # d # cs) =
     (if c = CHR ''-'' then 2
      else if c \<noteq> CHR ''h'' then 0
      else if d = CHR ''='' then 2 else help_cluster (d # cs))"

definition help_exit :: "string \<Rightarrow> string \<Rightarrow> string option \<Rightarrow> nat" where
  "help_exit s n v =
     (case v of
        None \<Rightarrow> 0
      | Some r \<Rightarrow> if n = ''--help'' \<or> starts_with ''-h='' s then 2 else help_cluster r)"

fun convert :: "arg_kind \<Rightarrow> string \<Rightarrow> arg_value option" where
  "convert Switch s = None"
| "convert TextArg s = Some (AStr s)"
| "convert IntArg s = (case parse_int s of Inr n \<Rightarrow> Some (AInt n) | Inl e \<Rightarrow> None)"
| "convert FloatArg s = (case parse_float s of Inr x \<Rightarrow> Some (AFloat x) | Inl e \<Rightarrow> None)"

text \<open>The namespace lists the options in the reverse order of their appearance; the last one counts.\<close>

fun consume :: "options \<Rightarrow> (token \<times> string) list \<Rightarrow> namespace \<Rightarrow> bool \<Rightarrow> (namespace \<times> bool) parsed" where
  "consume spec [] ns extras = Args (ns, extras)"
| "consume spec ((t, s) # ts) ns extras =
     (case t of
        Opt n v \<Rightarrow>
          if n = ''-h'' \<or> n = ''--help'' then Exit (help_exit s n v)
          else (case map_of spec n of
                  None \<Rightarrow> Exit 2
                | Some Switch \<Rightarrow> if v = None then consume spec ts ((n, ATrue) # ns) extras else Exit 2
                | Some k \<Rightarrow>
                    (case v of
                       Some u \<Rightarrow>
                         (case convert k u of
                            None \<Rightarrow> Exit 2 | Some x \<Rightarrow> consume spec ts ((n, x) # ns) extras)
                     | None \<Rightarrow>
                         (case ts of
                            (Word, u) # us \<Rightarrow>
                              (case convert k u of
                                 None \<Rightarrow> Exit 2 | Some x \<Rightarrow> consume spec us ((n, x) # ns) extras)
                          | _ \<Rightarrow> Exit 2)))
      | _ \<Rightarrow> consume spec ts ns True)"

definition parse_args :: "options \<Rightarrow> string list \<Rightarrow> string list \<Rightarrow> namespace parsed" where
  "parse_args spec required args =
     (let ts = tokens (names_of spec) args
      in if Ambiguous \<in> set ts then Exit 2
         else case consume spec (zip ts args) [] False of
                Exit c \<Rightarrow> Exit c
              | Args (ns, extras) \<Rightarrow>
                  if extras \<or> \<not> set required \<subseteq> set (map fst ns) then Exit 2 else Args ns)"

definition text_arg :: "namespace \<Rightarrow> string \<Rightarrow> string \<Rightarrow> string" where
  "text_arg ns n d = (case map_of ns n of Some (AStr s) \<Rightarrow> s | _ \<Rightarrow> d)"

definition int_arg :: "namespace \<Rightarrow> string \<Rightarrow> int \<Rightarrow> int" where
  "int_arg ns n d = (case map_of ns n of Some (AInt i) \<Rightarrow> i | _ \<Rightarrow> d)"

definition float_arg :: "namespace \<Rightarrow> string \<Rightarrow> pyfloat \<Rightarrow> pyfloat" where
  "float_arg ns n d = (case map_of ns n of Some (AFloat x) \<Rightarrow> x | _ \<Rightarrow> d)"

definition switched :: "namespace \<Rightarrow> string \<Rightarrow> bool" where
  "switched ns n \<longleftrightarrow> map_of ns n = Some ATrue"

fun on_parsed :: "('a \<Rightarrow> 'b) \<Rightarrow> 'a parsed \<Rightarrow> 'b parsed" where
  "on_parsed f (Exit c) = Exit c"
| "on_parsed f (Args a) = Args (f a)"

section \<open>Command lines of options with values\<close>

text \<open>An argument the parser accepts as the value of the option before it.\<close>

definition takes_value :: "options \<Rightarrow> string \<Rightarrow> bool" where
  "takes_value spec v \<longleftrightarrow> v \<noteq> ''--'' \<and> classify (names_of spec) v = Word"

lemma takes_plain: "v = [] \<or> hd v \<noteq> CHR ''-'' \<Longrightarrow> takes_value spec v"
  by (auto simp: takes_value_def classify_def)

lemma takes_Cons [simp]: "c \<noteq> CHR ''-'' \<Longrightarrow> takes_value spec (c # cs)"
  by (rule takes_plain) simp

definition long_options :: "options \<Rightarrow> bool" where
  "long_options spec \<longleftrightarrow>
     distinct (map fst spec) \<and>
     list_all (\<lambda>(n, k). starts_with ''--'' n \<and> length n > 2 \<and> n \<noteq> ''--help'') spec"

lemma long_optionsD:
  assumes "long_options spec" "(n, k) \<in> set spec"
  shows "starts_with ''--'' n" "n \<noteq> ''--''" "n \<noteq> ''--help''" "n \<noteq> ''-h''" "map_of spec n = Some k"
    "classify (names_of spec) n = Opt n None"
proof -
  show s: "starts_with ''--'' n" and l: "n \<noteq> ''--''" "n \<noteq> ''--help''"
    using assms by (auto simp: long_options_def list_all_iff)
  then show "n \<noteq> ''-h''" by (auto simp: starts_with_def)
  show "map_of spec n = Some k" using assms by (simp add: long_options_def)
  have "n \<in> set (names_of spec)" using assms(2) by (force simp: names_of_def)
  moreover have "n \<noteq> []" "hd n = CHR ''-''" using s by (cases n; simp add: starts_with_def)+
  ultimately show "classify (names_of spec) n = Opt n None" by (simp add: classify_def)
qed

lemma takes_negative:
  assumes "long_options spec" "is_digit c" "list_all is_digit cs"
  shows "takes_value spec (CHR ''-'' # c # cs)"
proof -
  let ?s = "CHR ''-'' # c # cs"
  have c: "c \<noteq> CHR ''-''" "c \<noteq> CHR ''h''" using assms(2) by (auto simp: is_digit_def)
  have long: "starts_with ''--'' n \<or> n = ''-h''" if "n \<in> set (names_of spec)" for n
    using that assms(1) by (auto simp: names_of_def long_options_def list_all_iff starts_with_def)
  have other: "n \<noteq> ?s \<and> n \<noteq> take 2 ?s \<and> \<not> starts_with ?s n" if "n \<in> set (names_of spec)" for n
    using long [OF that] c by (cases n; cases "tl n") (auto simp: starts_with_def)
  have "find_sub ''='' ?s = None"
  proof -
    have "CHR ''='' \<notin> set ?s" using assms(2,3) by (auto simp: list_all_iff is_digit_def)
    then have "find_sub ''='' (?s @ []) = map_option ((+) (length ?s)) (find_sub ''='' [])"
      by (subst find_sub_skip) auto
    then show ?thesis by simp
  qed
  then have e: "exact_with_value (names_of spec) ?s = None" by (simp add: exact_with_value_def)
  have "\<not> starts_with ''--'' ?s" using c by (simp add: starts_with_def)
  then have a: "abbreviated (names_of spec) ?s = []" using other by (auto simp: abbreviated_def)
  have "dropWhile is_digit (c # cs) = []" using assms(2,3) by (simp add: list_all_iff)
  moreover have "last (c # cs) \<noteq> CHR 0x0A"
  proof -
    have "is_digit (last (c # cs))" using assms(2,3) by (auto simp: list_all_iff)
    then show ?thesis by (auto simp: is_digit_def)
  qed
  ultimately have "negative_number ?s" by (simp add: negative_number_def negative_digits_def)
  moreover have "?s \<notin> set (names_of spec)" using other by blast
  ultimately have "classify (names_of spec) ?s = Word" using e a by (simp add: classify_def)
  moreover have "?s \<noteq> ''--''" using c by simp
  ultimately show ?thesis by (simp add: takes_value_def)
qed

lemma takes_show_int:
  assumes "long_options spec"
  shows "takes_value spec (show_int n)"
proof (cases "n < 0")
  case True
  then show ?thesis
    using takes_negative [OF assms] show_nat_digits [of "nat (- n)"] show_nat_nonempty [of "nat (- n)"]
    by (cases "show_nat (nat (- n))") (auto simp: show_int_def)
next
  case False
  have "hd (show_nat (nat n)) \<noteq> CHR ''-''" using show_nat_edges(1) [of "nat n"] by (auto simp: is_digit_def)
  with False show ?thesis by (intro takes_plain) (simp add: show_int_def)
qed

text \<open>
  A command line of options each followed by its value is accepted when every value can be taken and
  converted, and otherwise ends with a usage error.
\<close>

definition flat_pairs :: "(string \<times> string) list \<Rightarrow> string list" where
  "flat_pairs ps = concat (map (\<lambda>(n, v). [n, v]) ps)"

lemma flat_pairs_simps [simp]: "flat_pairs [] = []" "flat_pairs ((n, v) # ps) = n # v # flat_pairs ps"
  by (simp_all add: flat_pairs_def)

definition kind_of :: "options \<Rightarrow> string \<Rightarrow> arg_kind" where
  "kind_of spec n = the (map_of spec n)"

definition usable :: "options \<Rightarrow> string \<times> string \<Rightarrow> bool" where
  "usable spec p \<longleftrightarrow> takes_value spec (snd p) \<and> convert (kind_of spec (fst p)) (snd p) \<noteq> None"

definition stored :: "options \<Rightarrow> string \<times> string \<Rightarrow> string \<times> arg_value" where
  "stored spec p = (fst p, the (convert (kind_of spec (fst p)) (snd p)))"

definition valued :: "options \<Rightarrow> string \<times> string \<Rightarrow> bool" where
  "valued spec p \<longleftrightarrow> (\<exists>k. (fst p, k) \<in> set spec \<and> k \<noteq> Switch)"

lemma consume_pair:
  assumes "long_options spec" "(n, k) \<in> set spec" "k \<noteq> Switch"
  shows "consume spec ((Opt n None, n) # (t, v) # ts) ns x =
           (if t = Word then case convert k v of None \<Rightarrow> Exit 2 | Some a \<Rightarrow> consume spec ts ((n, a) # ns) x
            else Exit 2)"
  using long_optionsD(3-5) [OF assms(1,2)] assms(3) by (cases t; cases k) (auto split: option.splits)

lemma tokens_pair:
  assumes "long_options spec" "(n, k) \<in> set spec" "v \<noteq> ''--''"
  shows "tokens (names_of spec) (n # v # ss) = Opt n None # classify (names_of spec) v # tokens (names_of spec) ss"
  using long_optionsD(2,6) [OF assms(1,2)] assms(3) by simp

lemma length_tokens [simp]: "length (tokens names ss) = length ss"
  by (induction ss) auto

lemma consume_pairs:
  assumes "long_options spec" "list_all (valued spec) ps"
  shows "consume spec (zip (tokens (names_of spec) (flat_pairs ps)) (flat_pairs ps)) ns False =
           (if list_all (usable spec) ps then Args (rev (map (stored spec) ps) @ ns, False) else Exit 2)"
  using assms(2)
proof (induction ps arbitrary: ns)
  case Nil
  then show ?case by simp
next
  case (Cons p ps)
  obtain n v where p: "p = (n, v)" by (cases p)
  with Cons.prems obtain k where k: "(n, k) \<in> set spec" "k \<noteq> Switch" by (auto simp: valued_def)
  note o = long_optionsD [OF assms(1) k(1)]
  have kind: "kind_of spec n = k" using o(5) by (simp add: kind_of_def)
  show ?case
  proof (cases "v = ''--''")
    case True
    then show ?thesis
      using o(2,6) consume_pair [OF assms(1) k] by (simp add: p usable_def takes_value_def)
  next
    case False
    then show ?thesis
      using Cons tokens_pair [OF assms(1) k(1) False] consume_pair [OF assms(1) k] kind
      by (auto simp: p usable_def stored_def takes_value_def split: option.splits)
  qed
qed

lemma unambiguous_pairs:
  assumes "long_options spec" "list_all (valued spec) ps" "list_all (usable spec) ps"
  shows "Ambiguous \<notin> set (tokens (names_of spec) (flat_pairs ps))"
  using assms(2,3)
proof (induction ps)
  case Nil
  then show ?case by simp
next
  case (Cons p ps)
  obtain n v where p: "p = (n, v)" by (cases p)
  with Cons.prems obtain k where k: "(n, k) \<in> set spec" by (auto simp: valued_def)
  have "v \<noteq> ''--''" "classify (names_of spec) v = Word"
    using Cons.prems p by (auto simp: usable_def takes_value_def)
  with Cons tokens_pair [OF assms(1) k this(1)] p show ?case by simp
qed

lemma parse_pairs:
  assumes "long_options spec" "list_all (valued spec) ps"
  shows "parse_args spec required (flat_pairs ps) =
           (if list_all (usable spec) ps \<and> set required \<subseteq> fst ` set ps
            then Args (rev (map (stored spec) ps)) else Exit 2)"
proof -
  have "fst ` set (map (stored spec) ps) = fst ` set ps" by (force simp: stored_def)
  then show ?thesis
    using consume_pairs [OF assms, of "[]"] unambiguous_pairs [OF assms]
    by (auto simp: parse_args_def Let_def)
qed

end
