(* ===== verification/FleetMain.thy ===== *)
theory FleetMain
  imports BotFleet ArgParse
begin

text \<open>
  The entry point of the bot fleet, \<open>main\<close> of \<^verbatim>\<open>bot-fleet/main.py\<close>: its command line, the fleet it
  creates, the reporter's rounds, the wait and the shutdown. The event loop is an input: which state
  the fleet's bots have reached whenever the reporter wakes and when the wait is over, and how the
  wait ends.
\<close>

definition fleet_options :: options where
  "fleet_options =
     [(''--host'', TextArg), (''--port'', IntArg), (''--mm'', IntArg), (''--noise'', IntArg),
      (''--momentum'', IntArg), (''--duration'', IntArg)]"

definition fleet_parse :: "string list \<Rightarrow> fleet_args parsed" where
  "fleet_parse argv =
     on_parsed (\<lambda>ns. let d = fleet_defaults in
       \<lparr>f_host = text_arg ns ''--host'' (f_host d), f_port = int_arg ns ''--port'' (f_port d),
        f_mm = int_arg ns ''--mm'' (f_mm d), f_noise = int_arg ns ''--noise'' (f_noise d),
        f_momentum = int_arg ns ''--momentum'' (f_momentum d),
        f_duration = int_arg ns ''--duration'' (f_duration d)\<rparr>)
       (parse_args fleet_options [] argv)"

text \<open>The loop of \<open>metrics_reporter\<close>; an exception ends the reporter's task and is not seen by \<open>main\<close>.\<close>

fun reporter :: "pyfloat \<Rightarrow> int \<Rightarrow> bot list list \<Rightarrow> string list" where
  "reporter interval last_sent [] = []"
| "reporter interval last_sent (bots # later) =
     (case metrics_tick interval last_sent bots of
        Inl e \<Rightarrow> []
      | Inr (line, total_sent) \<Rightarrow> line # reporter interval total_sent later)"

text \<open>
  The wait: \<open>asyncio.sleep(duration)\<close> for a positive duration, else an event nobody sets, so that only
  the first ends by itself. An interrupt raised in the wait is caught, a cancellation is not.
\<close>

datatype wait_end = Elapsed | Interrupted | Cancelled

type_synonym fleet = "(bot_kind \<times> bot) list"

record fleet_world =
  rounds :: nat
  at_round :: "nat \<Rightarrow> fleet \<Rightarrow> fleet"
  at_end :: "fleet \<Rightarrow> fleet"
  sleep_ends :: "int \<Rightarrow> wait_end"
  event_interrupted :: bool

definition wait_ends :: "fleet_world \<Rightarrow> int \<Rightarrow> wait_end" where
  "wait_ends w duration =
     (if 0 < duration then sleep_ends w duration else if event_interrupted w then Interrupted else Cancelled)"

datatype fleet_result = UsageExit nat | ShutDown fleet | CancelledOut fleet

definition opening_lines :: "fleet_args \<Rightarrow> fleet \<Rightarrow> string list" where
  "opening_lines a bots =
     [''Starting Bot Fleet -> Connecting to '' @ f_host a @ '':'' @ show_int (f_port a),
      ''Spawning '' @ show_nat (length bots) @ '' bots...'']"

definition fleet_main :: "fleet_world \<Rightarrow> string list \<Rightarrow> string list \<times> fleet_result" where
  "fleet_main w argv =
     (case fleet_parse argv of
        Exit c \<Rightarrow> ([], UsageExit c)
      | Args a \<Rightarrow>
          let bots = create_fleet a;
              printed = opening_lines a bots @
                reporter (Fin 2) 0 (map (\<lambda>k. map snd (at_round w k bots)) [0..<rounds w]);
              bots = stop_fleet (at_end w bots)
          in case wait_ends w (f_duration a) of
               Elapsed \<Rightarrow> (printed @ [''Bot Fleet shut down.''], ShutDown bots)
             | Interrupted \<Rightarrow> (printed @ [[], ''Stopping Bot Fleet...'', ''Bot Fleet shut down.''], ShutDown bots)
             | Cancelled \<Rightarrow> (printed, CancelledOut bots))"

lemma long_fleet_options [simp]: "long_options fleet_options"
  by (simp add: long_options_def fleet_options_def starts_with_def)

lemma fleet_kinds [simp]:
  "kind_of fleet_options ''--host'' = TextArg" "kind_of fleet_options ''--port'' = IntArg"
  "kind_of fleet_options ''--mm'' = IntArg" "kind_of fleet_options ''--noise'' = IntArg"
  "kind_of fleet_options ''--momentum'' = IntArg" "kind_of fleet_options ''--duration'' = IntArg"
  by (simp_all add: kind_of_def fleet_options_def)

end
