(* ===== verification/BenchLaunch.thy ===== *)
theory BenchLaunch
  imports BenchRun FleetMain
begin

text \<open>
  The benchmark's own command line, and the bot fleet it starts: the arguments it passes are parsed
  back by the fleet, and the fleet's output is what the benchmark reads its counters from.
\<close>

section \<open>The command line of the benchmark\<close>

definition bench_options :: options where
  "bench_options =
     [(''--host'', TextArg), (''--port'', IntArg), (''--duration'', IntArg), (''--runs'', IntArg),
      (''--mm'', IntArg), (''--noise'', IntArg), (''--momentum'', IntArg), (''--label'', TextArg),
      (''--redis-host-port'', TextArg), (''--no-restart'', Switch)]"

definition bench_parse :: "(string \<Rightarrow> string option) \<Rightarrow> string list \<Rightarrow> bench_args parsed" where
  "bench_parse env argv =
     on_parsed (\<lambda>ns.
       let d = bench_defaults (case env ''REDIS_HOST_PORT'' of None \<Rightarrow> ''6379'' | Some p \<Rightarrow> p) in
       \<lparr>b_host = text_arg ns ''--host'' (b_host d), b_port = int_arg ns ''--port'' (b_port d),
        b_duration = int_arg ns ''--duration'' (b_duration d), b_runs = int_arg ns ''--runs'' (b_runs d),
        b_mm = int_arg ns ''--mm'' (b_mm d), b_noise = int_arg ns ''--noise'' (b_noise d),
        b_momentum = int_arg ns ''--momentum'' (b_momentum d), b_label = text_arg ns ''--label'' (b_label d),
        b_redis_host_port = text_arg ns ''--redis-host-port'' (b_redis_host_port d),
        b_no_restart = switched ns ''--no-restart''\<rparr>)
       (parse_args bench_options [] argv)"

section \<open>The fleet is asked for what the benchmark was\<close>

definition requested :: "bench_args \<Rightarrow> fleet_args" where
  "requested a =
     \<lparr>f_host = b_host a, f_port = b_port a, f_mm = b_mm a, f_noise = b_noise a,
      f_momentum = b_momentum a, f_duration = b_duration a\<rparr>"

lemma fleet_command_pairs:
  "drop 2 (fleet_command python script a) =
     flat_pairs [(''--host'', b_host a), (''--port'', show_int (b_port a)), (''--mm'', show_int (b_mm a)),
       (''--noise'', show_int (b_noise a)), (''--momentum'', show_int (b_momentum a)),
       (''--duration'', show_int (b_duration a))]"
  by (simp add: fleet_command_def)

lemma fleet_command_parsed:
  "fleet_parse (drop 2 (fleet_command python script a)) =
     (if takes_value fleet_options (b_host a) then Args (requested a) else Exit 2)"
proof -
  let ?p = "\<lambda>n v. usable fleet_options (n, v)"
  have n: "usable fleet_options (n, show_int i)" if "kind_of fleet_options n = IntArg" for n i
    using that by (simp add: usable_def takes_show_int parse_int_show_int)
  have h: "usable fleet_options (''--host'', b_host a) \<longleftrightarrow> takes_value fleet_options (b_host a)"
    by (simp add: usable_def)
  show ?thesis
    unfolding fleet_parse_def fleet_command_pairs
    by (subst parse_pairs)
      (simp_all add: n h stored_def parse_int_show_int valued_def text_arg_def int_arg_def requested_def,
       simp_all add: fleet_options_def)
qed

section \<open>The fleet's output\<close>

definition total_sent :: "bot list \<Rightarrow> int" where
  "total_sent bots = sum_list (map orders_sent bots)"

definition round_report :: "int \<Rightarrow> bot list \<Rightarrow> report" where
  "round_report prev bots =
     \<lparr>r_sent = total_sent bots, r_ops = of_int (total_sent bots - prev) / 2,
      r_drops = sum_list (map connection_drops bots), r_fails = sum_list (map failed_messages bots)\<rparr>"

text \<open>The rate of a round of two seconds is a multiple of a half, and exact in binary64.\<close>

lemma half_exact:
  assumes "\<bar>n\<bar> \<le> 2 ^ 52"
  shows "to_f64 (of_int n / 2) = Fin (of_int n / 2)"
proof -
  have mag: "rnd_mag (of_int m / 2) = of_int m / 2" if "0 \<le> m" "m \<le> 2 ^ 52" for m
    using that by (intro rnd_mag_exact [of m "- 1"]) (auto simp: power_int_minus)
  have "rnd (of_int n / 2) = of_int n / 2"
    using mag [of n] mag [of "- n"] assms by (auto simp: rnd_def abs_le_iff)
  moreover have "\<bar>of_int n / 2\<bar> < f64_limit"
  proof -
    have "(of_int \<bar>n\<bar> :: rat) \<le> of_int (2 ^ 52)" using assms by (simp only: of_int_le_iff)
    then have "\<bar>of_int n / 2 :: rat\<bar> \<le> 2 ^ 51" by simp
    also have "\<dots> < f64_limit" by (simp add: f64_limit_def)
    finally show ?thesis .
  qed
  ultimately show ?thesis by (intro to_f64_id) simp
qed

lemma halved: "\<bar>n\<bar> \<le> 2 ^ 52 \<Longrightarrow> num_truediv (PyI n) (PyF (Fin 2)) = Inr (PyF (Fin (of_int n / 2)))"
  by (simp add: to_f64_of_int half_exact)

lemma metrics_tick_report:
  assumes "\<bar>total_sent bots - prev\<bar> \<le> 2 ^ 52"
  shows "metrics_tick (Fin 2) prev bots = Inr (report_line (round_report prev bots), total_sent bots)"
  using halved [OF assms]
  by (simp add: metrics_tick_def report_line_def round_report_def total_sent_def [symmetric] Let_def
      del: num_truediv.simps format_comma_0f.simps)

fun round_reports :: "int \<Rightarrow> bot list list \<Rightarrow> report list" where
  "round_reports prev [] = []"
| "round_reports prev (bots # later) = round_report prev bots # round_reports (total_sent bots) later"

text \<open>The orders counted grow from round to round, and stay in the range where counting is exact.\<close>

fun counts_up :: "int \<Rightarrow> bot list list \<Rightarrow> bool" where
  "counts_up prev [] \<longleftrightarrow> True"
| "counts_up prev (bots # later) \<longleftrightarrow>
     prev \<le> total_sent bots \<and> total_sent bots \<le> 2 ^ 52 \<and> counts_up (total_sent bots) later"

lemma reporter_reports:
  "counts_up prev snaps \<Longrightarrow> 0 \<le> prev \<Longrightarrow>
     reporter (Fin 2) prev snaps = map report_line (round_reports prev snaps) \<and>
     list_all (\<lambda>r. 0 \<le> r_ops r) (round_reports prev snaps)"
proof (induction snaps arbitrary: prev)
  case (Cons bots later)
  then have "\<bar>total_sent bots - prev\<bar> \<le> 2 ^ 52" by auto
  with Cons show ?case
    by (simp add: metrics_tick_report) (simp add: round_report_def flip: of_int_diff)
qed simp

definition printed_lines :: "string list \<Rightarrow> string" where
  "printed_lines ls = concat (map (\<lambda>l. l @ [CHR 0x0A]) ls)"

text \<open>A host name: not an option, on one line, without a bracket.\<close>

definition host_name :: "string \<Rightarrow> bool" where
  "host_name h \<longleftrightarrow> (h = [] \<or> hd h \<noteq> CHR ''-'') \<and> one_line h \<and> CHR ''['' \<notin> set h"

lemma contains_hd: "contains p s \<Longrightarrow> p \<noteq> [] \<Longrightarrow> hd p \<in> set s"
  by (induction s) (auto simp: starts_with_def neq_Nil_conv)

lemma number_line: "list_all number_char s \<Longrightarrow> CHR ''['' \<notin> set s"
  by (auto simp: list_all_iff)

lemma show_number: "list_all number_char (show_nat n)" "list_all number_char (show_int i)"
  using show_nat_digits by (auto simp: show_int_def number_char_def list_all_iff)

lemma opening_lines_plain:
  assumes "host_name (f_host a)"
  shows "list_all (\<lambda>l. one_line l \<and> \<not> contains ''[Metrics]'' l) (opening_lines a bots)"
proof -
  have "\<not> contains ''[Metrics]'' l" if "CHR ''['' \<notin> set l" for l
    using that contains_hd [of "''[Metrics]''" l] by auto
  then show ?thesis
    using assms show_number number_line [OF show_number(1)] number_line [OF show_number(2)]
      number_char_plain [OF show_number(1)] number_char_plain [OF show_number(2)]
    by (auto simp: opening_lines_def host_name_def one_line_def is_boundary_def)
qed

lemma last_round:
  "snaps \<noteq> [] \<Longrightarrow> round_reports prev snaps \<noteq> [] \<and>
     totals_of (last (round_reports prev snaps)) =
       \<lparr>t_sent = Some (total_sent (last snaps)),
        t_drops = Some (sum_list (map connection_drops (last snaps))),
        t_fails = Some (sum_list (map failed_messages (last snaps)))\<rparr>"
  by (induction snaps arbitrary: prev) (auto simp: round_report_def totals_of_def)

lemma length_round_reports [simp]: "length (round_reports prev snaps) = length snaps"
  by (induction snaps arbitrary: prev) auto

text \<open>
  C12. The benchmark measures the fleet it asked for. Started with the benchmark's command line, the bot
  fleet builds exactly the bots asked for, towards the host and port asked for; when it has run its
  time every bot of it is disconnected. From its output the benchmark reads each reporting round's rate,
  rounded as it was printed, and, as totals, the counters the fleet had at the last round.
\<close>

theorem fleet_measured:
  assumes "host_name (b_host a)" "0 < b_duration a" "sleep_ends w (b_duration a) = Elapsed"
    and "snaps = map (\<lambda>k. map snd (at_round w k (create_fleet (requested a)))) [0..<rounds w]"
    and "0 < rounds w" "counts_up 0 snaps"
    and "fleet_main w (drop 2 (fleet_command python script a)) = (lines, result)"
  shows "result = ShutDown (stop_fleet (at_end w (create_fleet (requested a)))) \<and>
         parse_fleet_ops (printed_lines lines) =
           map (\<lambda>r. to_f64 (of_int (round_half_even (r_ops r)))) (round_reports 0 snaps) \<and>
         parse_fleet_totals (printed_lines lines) =
           \<lparr>t_sent = Some (total_sent (last snaps)),
            t_drops = Some (sum_list (map connection_drops (last snaps))),
            t_fails = Some (sum_list (map failed_messages (last snaps)))\<rparr>"
proof -
  let ?a = "requested a" and ?rs = "round_reports 0 snaps"
  have "takes_value fleet_options (b_host a)"
    using assms(1) by (auto simp: host_name_def intro: takes_plain)
  then have run: "lines = opening_lines ?a (create_fleet ?a) @ map report_line ?rs @ [''Bot Fleet shut down.'']"
    "result = ShutDown (stop_fleet (at_end w (create_fleet ?a)))"
    using assms(2,3,7) reporter_reports [OF assms(6)]
    by (simp_all add: fleet_main_def wait_ends_def fleet_command_parsed assms(4) Let_def requested_def [of a])
  have "snaps \<noteq> []" using assms(4,5) by simp
  note last = last_round [OF this, of 0]
  have "list_all (\<lambda>l. one_line l \<and> \<not> contains ''[Metrics]'' l)
      (opening_lines ?a (create_fleet ?a) @ [''Bot Fleet shut down.''])"
    using opening_lines_plain [of ?a] assms(1)
    by (simp add: requested_def) (simp add: one_line_def is_boundary_def starts_with_def)
  from fleet_output_read [OF this _ _ refl, of ?rs] reporter_reports [OF assms(6)] last run(1)
  have "parse_fleet_ops (printed_lines lines) = map (\<lambda>r. to_f64 (of_int (round_half_even (r_ops r)))) ?rs"
    "parse_fleet_totals (printed_lines lines) = totals_of (last ?rs)"
    by (simp_all add: printed_lines_def)
  with run(2) last show ?thesis by (simp add: assms(4))
qed

definition sample_bench :: bench_args where
  "sample_bench = (bench_defaults ''6379'')\<lparr>b_mm := 1, b_noise := 1, b_momentum := 0\<rparr>"

definition sample_fleet :: fleet_world where
  "sample_fleet =
     \<lparr>rounds = 2, at_round = (\<lambda>k. map (\<lambda>(kind, b). (kind, b\<lparr>orders_sent := 10 * int (Suc k)\<rparr>))),
      at_end = (\<lambda>bots. bots), sleep_ends = (\<lambda>d. Elapsed), event_interrupted = True\<rparr>"

theorem fleet_measured_witness:
  "parse_fleet_totals (printed_lines (fst (fleet_main sample_fleet
     (drop 2 (fleet_command ''python3'' ''main.py'' sample_bench))))) =
   \<lparr>t_sent = Some 40, t_drops = Some 0, t_fails = Some 0\<rparr>"
  using fleet_measured [of sample_bench sample_fleet _ "''python3''" "''main.py''", OF _ _ _ refl _ _ prod.collapse [symmetric]]
  by (simp add: sample_bench_def sample_fleet_def bench_defaults_def host_name_def one_line_def
      is_boundary_def requested_def create_fleet_def new_bot_def total_sent_def upt_rec)

end
