(* ===== verification/OrchModel.thy ===== *)
theory OrchModel
  imports Effects PyPath
begin

text \<open>
  The data \<^verbatim>\<open>infra/orchestrator.py\<close> hands to the cluster and to the shell. The Kubernetes client's
  model classes are records with the fields the code sets; a field the code leaves out is None. Every
  call that leaves the process is a \<open>call\<close>; a \<open>world\<close> answers it from the trace of the calls before.
  \<open>asks\<close>, \<open>observes\<close> and \<open>does\<close> are the three ways to make one.
\<close>

section \<open>Cluster objects\<close>

type_synonym labels = "(string \<times> string) list"

record object_meta =
  om_name :: "string option"
  om_namespace :: "string option"
  om_labels :: labels

record security_context =
  allow_escalation :: bool
  read_only_root :: bool
  dropped :: "string list"

record container =
  c_name :: string
  c_image :: string
  c_pull :: string
  c_ports :: "(string \<times> int) list"
  c_env :: "(string \<times> string) list"
  c_requests :: labels
  c_limits :: labels
  c_security :: security_context

record pod_security =
  non_root :: bool
  as_user :: int
  as_group :: "int option"
  seccomp :: "string option"

record pod_spec =
  restart_policy :: "string option"
  automount_token :: "bool option"
  service_links :: "bool option"
  ps_security :: pod_security
  ps_containers :: "container list"

record pod =
  p_meta :: object_meta
  p_spec :: pod_spec

record egress_rule =
  er_to :: "labels list option"
  er_ports :: "(string \<times> int) list"

record network_policy =
  np_meta :: object_meta
  np_selector :: labels
  np_types :: "string list"
  np_egress :: "egress_rule list"

record service_port =
  sp_name :: string
  sp_protocol :: string
  sp_port :: int
  sp_target :: int

record service =
  s_meta :: object_meta
  s_type :: string
  s_selector :: labels
  s_ports :: "service_port list"

record deployment =
  d_meta :: object_meta
  d_replicas :: int
  d_selector :: labels
  d_template_labels :: labels
  d_template :: pod_spec

section \<open>Calls\<close>

datatype call =
    ImportKubernetes
  | LoadIncluster
  | LoadKubeConfig
  | PathExists string
  | Walk string
  | WriteFile string string
  | Run "string list"
  | Popen "string list"
  | Terminate
  | WaitProc int
  | Kill
  | CreateNamespace object_meta
  | CreateService string service
  | CreateNetworkPolicy string network_policy
  | CreateDeployment string deployment
  | CreatePod string pod
  | DeletePod string string
  | ReadPod string string
  | ReadPodStatus string string
  | ReadPodLog string string
  | Now
  | Sleep int

text \<open>
  \<open>fails\<close> is the exception a call raises. The environment, the interpreter and the working directory
  do not change during a run.
\<close>

record world =
  fails :: "call trace \<Rightarrow> call \<Rightarrow> py_error option"
  clock_at :: "call trace \<Rightarrow> pyfloat"
  path_at :: "call trace \<Rightarrow> string \<Rightarrow> bool"
  walk_at :: "call trace \<Rightarrow> string \<Rightarrow> (string \<times> string list) list"
  phase_at :: "call trace \<Rightarrow> string"
  environ :: "string \<Rightarrow> string option"
  executable :: string
  workdir :: string

text \<open>The trace, and the one local variable \<open>run\<close> shares with its \<open>finally\<close> block.\<close>

record orch =
  calls :: "call trace"
  scoring_proc :: bool

type_synonym 'a step = "(orch, 'a) act"

definition record_call :: "call \<Rightarrow> py_error option \<Rightarrow> orch \<Rightarrow> orch" where
  "record_call c r s = s\<lparr>calls := calls s @ [(c, r)]\<rparr>"

definition does :: "world \<Rightarrow> call \<Rightarrow> unit step" where
  "does w c s =
     (case fails w (calls s) c of
        None \<Rightarrow> (Ended (Inr ()), record_call c None s)
      | Some e \<Rightarrow> (Ended (Inl e), record_call c (Some e) s))"

text \<open>A call with an answer that may raise, and one that may not.\<close>

definition asks :: "world \<Rightarrow> (call trace \<Rightarrow> 'a) \<Rightarrow> call \<Rightarrow> 'a step" where
  "asks w f c s =
     (case fails w (calls s) c of
        None \<Rightarrow> (Ended (Inr (f (calls s))), record_call c None s)
      | Some e \<Rightarrow> (Ended (Inl e), record_call c (Some e) s))"

definition observes :: "(call trace \<Rightarrow> 'a) \<Rightarrow> call \<Rightarrow> 'a step" where
  "observes f c s = (Ended (Inr (f (calls s))), record_call c None s)"

definition hold_proc :: "bool \<Rightarrow> unit step" where
  "hold_proc b s = (Ended (Inr ()), s\<lparr>scoring_proc := b\<rparr>)"

definition holds_proc :: "bool step" where
  "holds_proc s = (Ended (Inr (scoring_proc s)), s)"

lemma seq_observes: "seq (observes g c) f s = f (g (calls s)) (record_call c None s)"
  by (simp add: seq_def observes_def)

interpretation doing: outside_world "does w" calls for w
  by unfold_locales (auto simp: does_def record_call_def split: option.splits)

interpretation asking: outside_world "asks w f" calls for w f
  by unfold_locales (auto simp: asks_def record_call_def split: option.splits)

interpretation observing: outside_world "observes f" calls for f
  by unfold_locales (auto simp: observes_def record_call_def)

lemma adds_proc: "adds calls C (hold_proc b)" "adds calls C holds_proc"
  by (simp_all add: adds_def hold_proc_def holds_proc_def)

text \<open>\<open>except ApiException as exc: if exc.status != n: raise\<close>\<close>

definition tolerating :: "int \<Rightarrow> unit step \<Rightarrow> unit step" where
  "tolerating n m =
     catching m (\<lambda>e. case e of
       ApiException st \<Rightarrow> if st \<noteq> Some n then throw e else ret ()
     | _ \<Rightarrow> throw e)"

definition getenv :: "world \<Rightarrow> string \<Rightarrow> string \<Rightarrow> string" where
  "getenv w k dflt = (case environ w k of None \<Rightarrow> dflt | Some v \<Rightarrow> v)"

lemma adds_tolerating: "adds calls C m \<Longrightarrow> adds calls C (tolerating n m)"
  unfolding tolerating_def by (rule adds_catching) (auto split: py_error.split)

lemma does_tolerating_cases:
  assumes "fst (tolerating n (does w c) s) = Ended (Inr ())"
  shows "calls (snd (tolerating n (does w c) s)) = calls s @ [(c, None)] \<or>
    calls (snd (tolerating n (does w c) s)) = calls s @ [(c, Some (ApiException (Some n)))]"
  using assms
  by (auto simp: tolerating_def catching_def does_def record_call_def throw_def ret_def
      split: option.splits py_error.splits if_splits)

lemma keeps_calls:
  assumes "\<And>s r. I s \<Longrightarrow> I (record_call c r s)"
  shows "keeps I (does w c)" "keeps I (asks w f c)" "keeps I (observes g c)"
  using assms by (auto simp: keeps_def does_def asks_def observes_def split: option.splits)

lemma keeps_proc: "keeps I holds_proc"
  by (simp add: keeps_def holds_proc_def)

lemma keeps_tolerating: "keeps I m \<Longrightarrow> keeps I (tolerating n m)"
  unfolding tolerating_def by (auto intro!: keeps_rules split: py_error.split)

lemma ends_proc [simp]: "ends I holds_proc" "ends I (hold_proc b)"
  by (simp_all add: ends_def holds_proc_def hold_proc_def)

lemma ends_tolerating: "ends I m \<Longrightarrow> keeps I m \<Longrightarrow> ends I (tolerating n m)"
  unfolding tolerating_def by (auto intro!: ends_catching split: py_error.split)

lemma record_call_simps [simp]:
  "calls (record_call c r s) = calls s @ [(c, r)]" "scoring_proc (record_call c r s) = scoring_proc s"
  by (simp_all add: record_call_def)

text \<open>\<open>c\<close> was made and done, or refused with a status the code takes as done.\<close>

definition acked :: "int \<Rightarrow> call \<Rightarrow> call trace \<Rightarrow> bool" where
  "acked n c t \<longleftrightarrow> (c, None) \<in> set t \<or> (c, Some (ApiException (Some n))) \<in> set t"

lemma stable_acked [intro]: "stable (acked n c)"
  by (auto simp: stable_def acked_def)

lemma triple_tolerating:
  assumes "stable J" "\<And>t. P t c"
  shows "triple (\<lambda>s. every_call P (calls s) \<and> J (calls s)) (tolerating n (does w c))
    (\<lambda>s. every_call P (calls s)) (\<lambda>s. J (calls s) \<and> acked n c (calls s))"
proof -
  have "adds calls (\<lambda>d. d = c) (tolerating n (does w c))"
    by (intro adds_tolerating doing.adds_does) simp
  from adds_triple [OF this assms(1), of P] assms(2)
  have "triple (\<lambda>s. every_call P (calls s) \<and> J (calls s)) (tolerating n (does w c))
    (\<lambda>s. every_call P (calls s)) (\<lambda>s. J (calls s))" by blast
  moreover have "acked n c (calls (snd (tolerating n (does w c) s)))"
    if "fst (tolerating n (does w c) s) = Ended (Inr a)" for s a
    using does_tolerating_cases [of n w c s] that by (auto simp: acked_def)
  ultimately show ?thesis unfolding triple_def by blast
qed

end
