(* ===== verification/OrchBuild.thy ===== *)
theory OrchBuild
  imports OrchModel
begin

text \<open>
  \<open>auto_detect_and_build\<close> of \<^verbatim>\<open>infra/orchestrator.py\<close>: the language of a submission, the Dockerfile
  written for it and the build. \<open>os.walk\<close> is a list of directories with the names of their files.
\<close>

section \<open>Language detection\<close>

datatype language = Rust | Go | Python | Cpp

definition all_files :: "(string \<times> string list) list \<Rightarrow> string list" where
  "all_files tree = concat (map snd tree)"

definition detect :: "string list \<Rightarrow> language" where
  "detect files =
     (if ''Cargo.toml'' \<in> set files \<or> list_ex (ends_with ''.rs'') files then Rust
      else if ''go.mod'' \<in> set files \<or> list_ex (ends_with ''.go'') files then Go
      else if ''requirements.txt'' \<in> set files \<or> ''sandbox_sdk.py'' \<in> set files \<or>
              list_ex (ends_with ''.py'') files then Python
      else Cpp)"

section \<open>Dockerfiles\<close>

text \<open>
  The templates as they stand in the source: every line but the blank ones is indented by twelve
  spaces, and a backslash at the end of a line of the C++ template joins it with the next.
\<close>

definition indented :: "string \<Rightarrow> string" where
  "indented l = (if l = [] then [] else replicate 12 CHR '' '' @ l)"

definition newline :: char where
  "newline = CHR 0x0A"

definition quote :: "string \<Rightarrow> string" where
  "quote s = [CHR 0x22] @ s @ [CHR 0x22]"

definition template :: "string list \<Rightarrow> string" where
  "template ls = newline # concat (map (\<lambda>l. indented l @ [newline]) ls) @ replicate 12 CHR '' ''"

definition entrypoint :: "string list \<Rightarrow> string" where
  "entrypoint ws = ''['' @ join_on CHR '','' (map quote (take 1 ws) @ map (\<lambda>w. CHR '' '' # quote w) (drop 1 ws)) @ '']''"

definition rust_lines :: "string list" where
  "rust_lines =
     [''FROM rust:1.78-alpine AS builder'',
      ''RUN apk add --no-cache musl-dev'',
      ''WORKDIR /build'',
      ''COPY . .'',
      ''RUN cargo build --release'',
      [],
      ''FROM alpine:3.19'',
      ''WORKDIR /app'',
      ''COPY --from=builder /build/target/release/trading_bot /app/bot'',
      ''USER 10001:10001'',
      ''ENTRYPOINT '' @ entrypoint [''/app/bot'']]"

definition go_lines :: "string list" where
  "go_lines =
     [''FROM golang:1.22-alpine AS builder'',
      ''WORKDIR /build'',
      ''COPY . .'',
      ''RUN CGO_ENABLED=0 GOOS=linux go build -o bot .'',
      [],
      ''FROM alpine:3.19'',
      ''WORKDIR /app'',
      ''COPY --from=builder /build/bot /app/bot'',
      ''USER 10001:10001'',
      ''ENTRYPOINT '' @ entrypoint [''/app/bot'']]"

definition python_lines :: "string \<Rightarrow> string list" where
  "python_lines script =
     [''FROM python:3.11-alpine'',
      ''WORKDIR /app'',
      ''COPY . .'',
      ''RUN find . -name '' @ quote ''requirements.txt'' @ '' -exec pip install --no-cache-dir -r {} '' @ [CHR 0x5C] @ '';'',
      ''USER 10001:10001'',
      ''ENTRYPOINT '' @ entrypoint [''python'', script]]"

definition cpp_lines :: "string list" where
  "cpp_lines =
     [''FROM alpine:3.19 AS builder'',
      ''RUN apk add --no-cache g++ make cmake linux-headers'',
      ''WORKDIR /build'',
      ''COPY . .'',
      ''RUN if [ -f CMakeLists.txt ]; then '' @
      ''                    mkdir build && cd build && cmake -DCMAKE_BUILD_TYPE=Release .. && make; '' @
      ''                 elif ls *.cpp 1> /dev/null 2>&1; then '' @
      ''                    g++ -std=c++20 -O3 -DNDEBUG -pthread *.cpp -o bot; '' @
      ''                 else '' @
      ''                    echo '' @ quote ''No valid build targets found'' @ '' && exit 1; '' @
      ''                 fi'',
      [],
      ''FROM alpine:3.19'',
      ''RUN apk add --no-cache libstdc++'',
      ''WORKDIR /app'',
      ''COPY --from=builder /build/build/bot* /app/bot'',
      ''COPY --from=builder /build/bot* /app/bot'',
      ''USER 10001:10001'',
      ''ENTRYPOINT '' @ entrypoint [''/app/bot'']]"

fun dockerfile_lines :: "language \<Rightarrow> string \<Rightarrow> string list" where
  "dockerfile_lines Rust script = rust_lines"
| "dockerfile_lines Go script = go_lines"
| "dockerfile_lines Python script = python_lines script"
| "dockerfile_lines Cpp script = cpp_lines"

definition dockerfile :: "language \<Rightarrow> string \<Rightarrow> string" where
  "dockerfile lang script = strip (template (dockerfile_lines lang script))"

section \<open>The build\<close>

fun first_root :: "string \<Rightarrow> (string \<times> string list) list \<Rightarrow> string option" where
  "first_root f [] = None"
| "first_root f ((place, files) # tree) = (if f \<in> set files then Some place else first_root f tree)"

definition entry_script :: "string \<Rightarrow> string \<Rightarrow> (string \<times> string list) list \<Rightarrow> string result" where
  "entry_script cwd dir tree =
     (case first_root ''sandbox_sdk.py'' tree of
        None \<Rightarrow> Inr ''sandbox_sdk.py''
      | Some place \<Rightarrow> relpath cwd (path_join place ''sandbox_sdk.py'') dir)"

definition find_script :: "world \<Rightarrow> string \<Rightarrow> language \<Rightarrow> string step" where
  "find_script w dir lang =
     (if lang = Python
      then seq (observes (\<lambda>t. walk_at w t dir) (Walk dir)) (\<lambda>tree. lift (entry_script (workdir w) dir tree))
      else ret [])"

definition image_for :: "string \<Rightarrow> string" where
  "image_for sid = ''contestant-agent:'' @ sid"

definition docker_build :: "string \<Rightarrow> string \<Rightarrow> string \<Rightarrow> string list" where
  "docker_build df tag dir = [''docker'', ''build'', ''-f'', df, ''-t'', tag, dir]"

definition auto_detect_and_build :: "world \<Rightarrow> string \<Rightarrow> string \<Rightarrow> string step" where
  "auto_detect_and_build w dir sid =
     seq (observes (\<lambda>t. walk_at w t dir) (Walk dir)) (\<lambda>tree.
     let lang = detect (all_files tree) in
     seq (find_script w dir lang) (\<lambda>script.
     let df = path_join dir ''Dockerfile.generated'' in
     andthen (does w (WriteFile df (dockerfile lang script)))
    (andthen (does w (Run (docker_build df (image_for sid) dir)))
    (ret (image_for sid)))))"

section \<open>What the image runs, and as whom\<close>

lemma splitlines_join:
  "ls \<noteq> [] \<Longrightarrow> list_all one_line ls \<Longrightarrow> last ls \<noteq> [] \<Longrightarrow> splitlines (join_on newline ls) = ls"
proof (induction newline ls rule: join_on.induct)
  case (2 l)
  then show ?case by (simp add: splitlines_def lines_from_last)
next
  case (3 l v ls)
  then show ?case by (simp add: splitlines_def newline_def lines_from_line)
qed simp

lemma template_join:
  "ls \<noteq> [] \<Longrightarrow> concat (map (\<lambda>l. indented l @ [newline]) ls) = join_on newline (map indented ls) @ [newline]"
  by (induction newline ls rule: join_on.induct) auto

lemma join_on_hd: "join_on c ((p @ l) # ls) = p @ join_on c (l # ls)"
  by (cases ls) auto

lemma strip_template:
  assumes "l \<noteq> []" "\<not> is_white (hd l)" "\<not> is_white (last (join_on newline (l # map indented ls)))"
  shows "strip (template (l # ls)) = join_on newline (l # map indented ls)"
proof -
  have h: "hd (join_on newline (l # ms)) = hd l" "join_on newline (l # ms) \<noteq> []" for ms
    using assms(1) by (cases ms; simp)+
  have "template (l # ls) = (newline # replicate 12 CHR '' '') @ join_on newline (l # map indented ls) @
      (newline # replicate 12 CHR '' '')"
    using template_join [of "l # ls"] assms(1) join_on_hd [of newline "replicate 12 CHR '' ''" l "map indented ls"]
    by (simp add: template_def indented_def del: join_on.simps)
  moreover have "list_all is_white (newline # replicate 12 CHR '' '')"
    by (simp add: newline_def is_white_def list_all_length nth_Cons')
  ultimately show ?thesis using strip_padded assms(2,3) h by (metis (no_types))
qed

lemma join_on_snoc: "l \<noteq> [] \<Longrightarrow> join_on c (ls @ [l]) \<noteq> [] \<and> last (join_on c (ls @ [l])) = last l"
  by (induction c ls rule: join_on.induct) auto

lemma one_line_indented [simp]: "one_line (indented l) \<longleftrightarrow> one_line l"
  by (auto simp: one_line_def indented_def list_all_iff) (simp_all add: is_boundary_def)

lemma template_lines:
  assumes "l \<noteq> []" "\<not> is_white (hd l)" "e \<noteq> []" "\<not> is_white (last e)" "list_all one_line (l # ms @ [e])"
  shows "splitlines (strip (template (l # ms @ [e]))) = l # map indented (ms @ [e])"
proof -
  have e: "indented e \<noteq> []" "last (indented e) = last e" using assms(3) by (simp_all add: indented_def)
  then have "last (join_on newline (l # map indented (ms @ [e]))) = last e"
    using join_on_snoc [of "indented e" newline "l # map indented ms"] by simp
  with assms(4) have "strip (template (l # ms @ [e])) = join_on newline (l # map indented (ms @ [e]))"
    using strip_template [OF assms(1,2), of "ms @ [e]"] by simp
  moreover have "list_all one_line (l # map indented (ms @ [e]))" using assms(5) by (simp add: list_all_iff)
  ultimately show ?thesis using splitlines_join [of "l # map indented (ms @ [e])"] e by simp
qed

lemma last_entrypoint: "last (entrypoint ws) = CHR '']''" "entrypoint ws \<noteq> []"
  by (simp_all add: entrypoint_def)

lemma one_line_script:
  "one_line script \<Longrightarrow> one_line (entrypoint [''python'', script]) \<and> one_line (entrypoint [''/app/bot''])"
  by (simp add: entrypoint_def quote_def one_line_def is_boundary_def)

definition image_entry :: "language \<Rightarrow> string \<Rightarrow> string" where
  "image_entry lang script =
     entrypoint (if lang = Python then [''python'', script] else [''/app/bot''])"

lemma dockerfile_shape:
  "\<exists>l ms. dockerfile_lines lang script = l # ms @ [''USER 10001:10001'', ''ENTRYPOINT '' @ image_entry lang script] \<and>
     l \<noteq> [] \<and> \<not> is_white (hd l) \<and> list_all one_line (l # ms)"
proof (cases lang)
  case Rust
  have "dockerfile_lines lang script = hd rust_lines # take 8 (tl rust_lines) @
      [''USER 10001:10001'', ''ENTRYPOINT '' @ image_entry lang script] \<and> hd rust_lines \<noteq> [] \<and>
      \<not> is_white (hd (hd rust_lines)) \<and> list_all one_line (hd rust_lines # take 8 (tl rust_lines))"
    unfolding Rust by (simp add: rust_lines_def image_entry_def one_line_def is_white_def is_boundary_def)
  then show ?thesis by metis
next
  case Go
  have "dockerfile_lines lang script = hd go_lines # take 7 (tl go_lines) @
      [''USER 10001:10001'', ''ENTRYPOINT '' @ image_entry lang script] \<and> hd go_lines \<noteq> [] \<and>
      \<not> is_white (hd (hd go_lines)) \<and> list_all one_line (hd go_lines # take 7 (tl go_lines))"
    unfolding Go by (simp add: go_lines_def image_entry_def one_line_def is_white_def is_boundary_def)
  then show ?thesis by metis
next
  case Python
  have "dockerfile_lines lang script = hd (python_lines script) # take 3 (tl (python_lines script)) @
      [''USER 10001:10001'', ''ENTRYPOINT '' @ image_entry lang script] \<and> hd (python_lines script) \<noteq> [] \<and>
      \<not> is_white (hd (hd (python_lines script))) \<and>
      list_all one_line (hd (python_lines script) # take 3 (tl (python_lines script)))"
    unfolding Python
    by (simp add: python_lines_def image_entry_def one_line_def is_white_def is_boundary_def quote_def)
  then show ?thesis by metis
next
  case Cpp
  have "dockerfile_lines lang script = hd cpp_lines # take 10 (tl cpp_lines) @
      [''USER 10001:10001'', ''ENTRYPOINT '' @ image_entry lang script] \<and> hd cpp_lines \<noteq> [] \<and>
      \<not> is_white (hd (hd cpp_lines)) \<and> list_all one_line (hd cpp_lines # take 10 (tl cpp_lines))"
    unfolding Cpp by (simp add: cpp_lines_def image_entry_def one_line_def is_white_def is_boundary_def quote_def)
  then show ?thesis by metis
qed

lemma dockerfile_ending:
  assumes "one_line script"
  shows "\<exists>pre. splitlines (dockerfile lang script) =
    pre @ [indented ''USER 10001:10001'', indented (''ENTRYPOINT '' @ image_entry lang script)]"
proof -
  obtain l ms where d: "dockerfile_lines lang script =
      l # ms @ [''USER 10001:10001'', ''ENTRYPOINT '' @ image_entry lang script]"
    "l \<noteq> []" "\<not> is_white (hd l)" "list_all one_line (l # ms)"
    using dockerfile_shape by blast
  let ?e = "''ENTRYPOINT '' @ image_entry lang script"
  have e: "\<not> is_white (last ?e)" "one_line ?e"
    using last_entrypoint one_line_script [OF assms]
    by (simp_all add: image_entry_def is_white_def one_line_def is_boundary_def)
  have "one_line ''USER 10001:10001''" by (simp add: one_line_def is_boundary_def)
  with d(4) e(2) have "list_all one_line (l # (ms @ [''USER 10001:10001'']) @ [?e])" by simp
  from template_lines [OF d(2,3) _ e(1) this] d(1)
  have "splitlines (dockerfile lang script) = (l # map indented ms) @ [indented ''USER 10001:10001'', indented ?e]"
    by (simp add: dockerfile_def)
  then show ?thesis by blast
qed



end
