(* ===== verification/Orchestrator.thy ===== *)
theory Orchestrator
  imports OrchBuild
begin

text \<open>
  \<^verbatim>\<open>infra/orchestrator.py\<close>: \<open>BenchmarkOrchestrator\<close> with all its methods, the arguments and \<open>main\<close>.
  The two loops that may run for ever take fuel; a run that uses it up is Unfinished.
\<close>

section \<open>Connection\<close>

record orchestrator =
  o_namespace :: string
  o_repo_root :: string

definition new_orchestrator :: orchestrator where
  "new_orchestrator = \<lparr>o_namespace = ''evaluation-sandbox'', o_repo_root = ''.''\<rparr>"

definition connect :: "world \<Rightarrow> unit step" where
  "connect w =
     andthen
       (catching (does w ImportKubernetes) (\<lambda>e. case e of ImportError \<Rightarrow> throw RuntimeError | _ \<Rightarrow> throw e))
       (catching (does w LoadIncluster) (\<lambda>e. case e of ConfigException \<Rightarrow> does w LoadKubeConfig | _ \<Rightarrow> throw e))"

section \<open>Objects the run relies on\<close>

definition namespace_meta :: "orchestrator \<Rightarrow> object_meta" where
  "namespace_meta orc =
     \<lparr>om_name = Some (o_namespace orc), om_namespace = None,
      om_labels = [(''name'', o_namespace orc),
        (''pod-security.kubernetes.io/enforce'', ''restricted''),
        (''pod-security.kubernetes.io/audit'', ''restricted''),
        (''pod-security.kubernetes.io/warn'', ''restricted'')]\<rparr>"

definition ensure_namespace :: "world \<Rightarrow> orchestrator \<Rightarrow> unit step" where
  "ensure_namespace w orc = tolerating 409 (does w (CreateNamespace (namespace_meta orc)))"

definition exchange_service :: "orchestrator \<Rightarrow> service" where
  "exchange_service orc =
     \<lparr>s_meta = \<lparr>om_name = Some ''central-exchange-gateway'', om_namespace = Some (o_namespace orc),
        om_labels = [(''app'', ''central-exchange-core'')]\<rparr>,
      s_type = ''ClusterIP'', s_selector = [(''app'', ''central-exchange-core'')],
      s_ports = [\<lparr>sp_name = ''websocket'', sp_protocol = ''TCP'', sp_port = 8080, sp_target = 8080\<rparr>]\<rparr>"

definition ensure_exchange_service :: "world \<Rightarrow> orchestrator \<Rightarrow> unit step" where
  "ensure_exchange_service w orc = tolerating 409 (does w (CreateService (o_namespace orc) (exchange_service orc)))"

definition jail_policy :: "orchestrator \<Rightarrow> network_policy" where
  "jail_policy orc =
     \<lparr>np_meta = \<lparr>om_name = Some ''sandbox-isolation-jail'', om_namespace = Some (o_namespace orc), om_labels = []\<rparr>,
      np_selector = [(''tier'', ''contestant-agent'')], np_types = [''Egress''],
      np_egress = [\<lparr>er_to = None, er_ports = [(''TCP'', 8080)]\<rparr>]\<rparr>"

definition ensure_network_policy :: "world \<Rightarrow> orchestrator \<Rightarrow> unit step" where
  "ensure_network_policy w orc =
     tolerating 409 (does w (CreateNetworkPolicy (o_namespace orc) (jail_policy orc)))"

definition engine_container :: "string \<Rightarrow> string \<Rightarrow> string \<Rightarrow> container" where
  "engine_container image_tag cpu memory =
     \<lparr>c_name = ''exchange-core-engine'', c_image = image_tag, c_pull = ''IfNotPresent'',
      c_ports = [(''websocket'', 8080)], c_env = [],
      c_requests = [(''cpu'', cpu), (''memory'', memory)], c_limits = [(''cpu'', cpu), (''memory'', memory)],
      c_security = \<lparr>allow_escalation = False, read_only_root = True, dropped = [''ALL'']\<rparr>\<rparr>"

definition engine_deployment :: "orchestrator \<Rightarrow> container \<Rightarrow> deployment" where
  "engine_deployment orc c =
     \<lparr>d_meta = \<lparr>om_name = Some ''central-exchange-core'', om_namespace = Some (o_namespace orc),
        om_labels = [(''app'', ''central-exchange-core'')]\<rparr>,
      d_replicas = 1, d_selector = [(''app'', ''central-exchange-core'')],
      d_template_labels = [(''app'', ''central-exchange-core'')],
      d_template = \<lparr>restart_policy = None, automount_token = None, service_links = None,
        ps_security = \<lparr>non_root = True, as_user = 10001, as_group = None, seccomp = None\<rparr>,
        ps_containers = [c]\<rparr>\<rparr>"

definition deploy_exchange_core :: "world \<Rightarrow> orchestrator \<Rightarrow> string \<Rightarrow> string \<Rightarrow> unit step" where
  "deploy_exchange_core w orc cpu memory =
     (let image_tag = ''iicpc-matching-engine:latest''
      in andthen (does w (Run (docker_build ''matching-engine/Dockerfile'' image_tag (o_repo_root orc))))
        (tolerating 409 (does w (CreateDeployment (o_namespace orc)
          (engine_deployment orc (engine_container image_tag cpu memory))))))"

section \<open>The contestant's pod\<close>

definition POD :: string where
  "POD = ''active-contestant-sandbox''"

definition contestant_pod :: "orchestrator \<Rightarrow> string \<Rightarrow> string \<Rightarrow> pod" where
  "contestant_pod orc image_tag target_host =
     \<lparr>p_meta = \<lparr>om_name = Some POD, om_namespace = Some (o_namespace orc),
        om_labels = [(''tier'', ''contestant-agent''), (''app'', ''trading-bot'')]\<rparr>,
      p_spec = \<lparr>restart_policy = Some ''Never'', automount_token = Some False, service_links = Some False,
        ps_security = \<lparr>non_root = True, as_user = 10002, as_group = Some 10002, seccomp = Some ''RuntimeDefault''\<rparr>,
        ps_containers = [\<lparr>c_name = ''agent-runner'', c_image = image_tag, c_pull = ''IfNotPresent'', c_ports = [],
          c_env = [(''EXCHANGE_GATEWAY_URL'', ''ws://'' @ target_host @ '':8080''),
                   (''CONTESTANT_ID'', last (split_on CHR '':'' image_tag))],
          c_requests = [(''cpu'', ''2''), (''memory'', ''1Gi'')], c_limits = [(''cpu'', ''2''), (''memory'', ''1Gi'')],
          c_security = \<lparr>allow_escalation = False, read_only_root = False, dropped = [''ALL'']\<rparr>\<rparr>]\<rparr>\<rparr>"

text \<open>
  The \<open>while True\<close> of \<open>delete_old_sandbox_pod\<close>; an ApiException that is not a 404 goes round again,
  without the sleep.
\<close>

definition still_there :: "world \<Rightarrow> orchestrator \<Rightarrow> bool step" where
  "still_there w orc =
     catching
       (andthen (does w (ReadPod (o_namespace orc) POD)) (andthen (observes (\<lambda>t. ()) (Sleep 1)) (ret True)))
       (\<lambda>e. case e of ApiException st \<Rightarrow> ret (st \<noteq> Some 404) | _ \<Rightarrow> throw e)"

fun gone_loop :: "world \<Rightarrow> orchestrator \<Rightarrow> nat \<Rightarrow> unit step" where
  "gone_loop w orc 0 = unfinished"
| "gone_loop w orc (Suc n) =
     seq (still_there w orc) (\<lambda>again. if again then gone_loop w orc n else ret ())"

definition delete_old_sandbox_pod :: "world \<Rightarrow> orchestrator \<Rightarrow> nat \<Rightarrow> bool \<Rightarrow> unit step" where
  "delete_old_sandbox_pod w orc fuel wait =
     andthen (tolerating 404 (does w (DeletePod (o_namespace orc) POD)))
       (if wait then gone_loop w orc fuel else ret ())"

definition cleanup :: "world \<Rightarrow> orchestrator \<Rightarrow> unit step" where
  "cleanup w orc = delete_old_sandbox_pod w orc 0 False"

definition spawn_contestant_sandbox_pod :: "world \<Rightarrow> orchestrator \<Rightarrow> nat \<Rightarrow> string \<Rightarrow> unit step" where
  "spawn_contestant_sandbox_pod w orc fuel image_tag =
     (let tag = if image_tag = [] then ''contestant-agent:anonymous_quant_bot'' else image_tag;
          target_host = getenv w ''EXCHANGE_HOST'' ''10.0.2.2''
      in andthen (delete_old_sandbox_pod w orc fuel True)
           (does w (CreatePod (o_namespace orc) (contestant_pod orc tag target_host))))"

section \<open>Waiting for the agent\<close>

text \<open>True when the loop returned out of the method, False when the deadline passed.\<close>

fun agent_loop :: "world \<Rightarrow> orchestrator \<Rightarrow> pyfloat \<Rightarrow> nat \<Rightarrow> bool step" where
  "agent_loop w orc deadline 0 = unfinished"
| "agent_loop w orc deadline (Suc n) =
     seq (observes (clock_at w) Now) (\<lambda>t.
       if \<not> flt t deadline then ret False
       else seq (asks w (phase_at w) (ReadPodStatus (o_namespace orc) POD)) (\<lambda>phase.
         if phase \<in> {''Succeeded'', ''Failed''}
         then andthen (catching (does w (ReadPodLog (o_namespace orc) POD))
                (\<lambda>e. case e of ApiException st \<Rightarrow> ret () | _ \<Rightarrow> throw e)) (ret True)
         else andthen (observes (\<lambda>t. ()) (Sleep 1)) (agent_loop w orc deadline n)))"

definition wait_for_agent_completion :: "world \<Rightarrow> orchestrator \<Rightarrow> nat \<Rightarrow> int \<Rightarrow> unit step" where
  "wait_for_agent_completion w orc fuel timeout =
     seq (observes (clock_at w) Now) (\<lambda>t.
     seq (lift (rbind (num_float (PyI timeout)) (\<lambda>d. Inr (fadd t d)))) (\<lambda>deadline.
     seq (agent_loop w orc deadline fuel) (\<lambda>returned.
       if returned then ret ()
       else andthen (catching (does w (ReadPodLog (o_namespace orc) POD)) (\<lambda>e. ret ()))
              (throw TimeoutError))))"

section \<open>The scoring engine\<close>

definition scoring_command :: "world \<Rightarrow> orchestrator \<Rightarrow> string \<Rightarrow> int \<Rightarrow> string list" where
  "scoring_command w orc contestant_id now =
     [executable w, ''-u'', path_join (path_join (o_repo_root orc) ''telemetry'') ''scoring_engine.py'',
      ''--kafka-brokers'', getenv w ''KAFKA_BROKERS'' ''localhost:9092'',
      ''--topic'', getenv w ''KAFKA_TOPIC'' ''trade-events'',
      ''--group-id'', ''scoring-'' @ contestant_id @ ''-'' @ show_int now,
      ''--offset-reset'', ''latest'',
      ''--contestant-id'', contestant_id,
      ''--redis-url'', getenv w ''REDIS_URL'' ''redis://localhost:6379/0'',
      ''--window-seconds'', ''10'',
      ''--metrics-interval-ms'', ''1000'']"

definition start_scoring_engine :: "world \<Rightarrow> orchestrator \<Rightarrow> string \<Rightarrow> unit step" where
  "start_scoring_engine w orc contestant_id =
     seq (observes (clock_at w) Now) (\<lambda>t.
     seq (lift (num_int (PyF t))) (\<lambda>now.
       does w (Popen (scoring_command w orc contestant_id now))))"

section \<open>The run\<close>

record run_args =
  sub_id :: string
  ra_namespace :: string
  ra_repo_root :: string
  keep_resources :: bool
  ra_cpu :: string
  ra_memory :: string
  ra_duration :: int

definition default_args :: "string \<Rightarrow> run_args" where
  "default_args sid =
     \<lparr>sub_id = sid, ra_namespace = ''evaluation-sandbox'', ra_repo_root = ''.'', keep_resources = False,
      ra_cpu = ''2'', ra_memory = ''1Gi'', ra_duration = 30\<rparr>"

text \<open>The body of the \<open>try\<close> and the \<open>finally\<close> block of \<open>run\<close>.\<close>

definition evaluate :: "world \<Rightarrow> orchestrator \<Rightarrow> nat \<Rightarrow> run_args \<Rightarrow> string \<Rightarrow> unit step" where
  "evaluate w orc fuel args target_workspace =
     andthen (ensure_namespace w orc)
    (andthen (ensure_network_policy w orc)
    (seq (auto_detect_and_build w target_workspace (sub_id args)) (\<lambda>contestant_image.
     andthen (start_scoring_engine w orc (sub_id args))
    (andthen (hold_proc True)
    (andthen (spawn_contestant_sandbox_pod w orc fuel contestant_image)
             (wait_for_agent_completion w orc fuel (ra_duration args + 30)))))))"

definition reap :: "world \<Rightarrow> orchestrator \<Rightarrow> run_args \<Rightarrow> unit step" where
  "reap w orc args =
     andthen
       (seq holds_proc (\<lambda>started.
          if started
          then andthen (does w Terminate)
                 (catching (does w (WaitProc 10)) (\<lambda>e. case e of TimeoutExpired \<Rightarrow> does w Kill | _ \<Rightarrow> throw e))
          else ret ()))
       (if keep_resources args then ret () else cleanup w orc)"

definition run :: "world \<Rightarrow> orchestrator \<Rightarrow> nat \<Rightarrow> run_args \<Rightarrow> unit step" where
  "run w orc fuel args =
     andthen (connect w)
    (let upload = path_join ''/tmp/sandbox_uploads'' (sub_id args)
     in seq (observes (\<lambda>t. path_at w t upload) (PathExists upload)) (\<lambda>found.
        let target_workspace = if found then upload else o_repo_root orc
        in andthen (hold_proc False) (ensuring (evaluate w orc fuel args target_workspace) (reap w orc args))))"

definition main :: "world \<Rightarrow> nat \<Rightarrow> run_args \<Rightarrow> unit step" where
  "main w fuel args = run w new_orchestrator fuel args"

definition initial :: orch where
  "initial = \<lparr>calls = [], scoring_proc = False\<rparr>"

end
