(* ===== verification/OrchRuns.thy ===== *)
theory OrchRuns
  imports Orchestrator
begin

text \<open>
  What a run of the orchestrator guarantees in every world: the conditions under which the
  contestant's pod is created, what is left when the run ends, and when it ends.
\<close>

section \<open>What each step may call\<close>

text \<open>Every call but the creation of a pod.\<close>

definition no_pod :: "call \<Rightarrow> bool" where
  "no_pod c \<longleftrightarrow> (case c of CreatePod ns p \<Rightarrow> False | _ \<Rightarrow> True)"

lemmas call_rules = adds_rules adds_tolerating adds_proc doing.adds_does asking.adds_does observing.adds_does

lemma adds_connect: "adds calls no_pod (connect w)"
  unfolding connect_def by (auto intro!: call_rules simp: no_pod_def split: py_error.split)

lemma adds_build: "adds calls no_pod (auto_detect_and_build w dir sid)"
  unfolding auto_detect_and_build_def find_script_def Let_def
  by (auto intro!: call_rules simp: no_pod_def)

lemma adds_gone_loop: "adds calls no_pod (gone_loop w orc n)"
  by (induction n) (auto intro!: call_rules simp: still_there_def no_pod_def split: py_error.split)

lemma adds_delete: "adds calls no_pod (delete_old_sandbox_pod w orc n b)"
  unfolding delete_old_sandbox_pod_def
  by (auto intro!: call_rules adds_gone_loop simp: no_pod_def)

lemma adds_agent_loop: "adds calls no_pod (agent_loop w orc d n)"
  by (induction n) (auto intro!: call_rules simp: no_pod_def split: py_error.split)

lemma adds_wait: "adds calls no_pod (wait_for_agent_completion w orc n d)"
  unfolding wait_for_agent_completion_def
  by (auto intro!: call_rules adds_agent_loop simp: no_pod_def)

lemma adds_start: "adds calls no_pod (start_scoring_engine w orc sid)"
  unfolding start_scoring_engine_def by (auto intro!: call_rules simp: no_pod_def)

lemma adds_reap: "adds calls no_pod (reap w orc args)"
  unfolding reap_def cleanup_def
  by (auto intro!: call_rules adds_delete simp: no_pod_def split: py_error.split)

section \<open>The guard of the pod\<close>

text \<open>
  The restricted profile of the Pod Security standards, as far as the fields the code sets reach, and
  the selection of pods by labels.
\<close>

definition restricted :: "pod_spec \<Rightarrow> bool" where
  "restricted p \<longleftrightarrow>
     non_root (ps_security p) \<and> as_user (ps_security p) \<noteq> 0 \<and>
     (seccomp (ps_security p) = Some ''RuntimeDefault'' \<or> seccomp (ps_security p) = Some ''Localhost'') \<and>
     list_all (\<lambda>c. \<not> allow_escalation (c_security c) \<and> ''ALL'' \<in> set (dropped (c_security c))) (ps_containers p)"

definition selects :: "labels \<Rightarrow> object_meta \<Rightarrow> bool" where
  "selects sel m \<longleftrightarrow> set sel \<subseteq> set (om_labels m)"

definition gone :: "orchestrator \<Rightarrow> call trace \<Rightarrow> bool" where
  "gone orc t \<longleftrightarrow> t \<noteq> [] \<and> last t = (ReadPod (o_namespace orc) POD, Some (ApiException (Some 404)))"

definition scored :: "world \<Rightarrow> orchestrator \<Rightarrow> string \<Rightarrow> call trace \<Rightarrow> bool" where
  "scored w orc sid t \<longleftrightarrow> (\<exists>now. (Popen (scoring_command w orc sid now), None) \<in> set t)"

definition built :: "string \<Rightarrow> string \<Rightarrow> call trace \<Rightarrow> bool" where
  "built sid dir t \<longleftrightarrow>
     (Run (docker_build (path_join dir ''Dockerfile.generated'') (image_for sid) dir), None) \<in> set t"

definition isolated :: "orchestrator \<Rightarrow> call trace \<Rightarrow> bool" where
  "isolated orc t \<longleftrightarrow>
     acked 409 (CreateNamespace (namespace_meta orc)) t \<and>
     acked 409 (CreateNetworkPolicy (o_namespace orc) (jail_policy orc)) t"

text \<open>What holds whenever a pod is created.\<close>

definition launch_ok :: "world \<Rightarrow> orchestrator \<Rightarrow> run_args \<Rightarrow> string \<Rightarrow> call trace \<Rightarrow> call \<Rightarrow> bool" where
  "launch_ok w orc args dir t c \<longleftrightarrow>
     (case c of
        CreatePod ns p \<Rightarrow>
          ns = o_namespace orc \<and>
          p = contestant_pod orc (image_for (sub_id args)) (getenv w ''EXCHANGE_HOST'' ''10.0.2.2'') \<and>
          isolated orc t \<and> built (sub_id args) dir t \<and> scored w orc (sub_id args) t \<and> gone orc t
      | _ \<Rightarrow> True)"

lemma launch_ok_quiet: "no_pod c \<Longrightarrow> launch_ok w orc args dir t c"
  by (auto simp: no_pod_def launch_ok_def split: call.splits)

lemma stable_facts [intro]:
  "stable (isolated orc)" "stable (built sid dir)" "stable (scored w orc sid)"
  by (auto simp: stable_def isolated_def built_def scored_def acked_def)

lemma still_there_simps:
  "still_there w orc s =
     (case fails w (calls s) (ReadPod (o_namespace orc) POD) of
        None \<Rightarrow> (Ended (Inr True), record_call (Sleep 1) None (record_call (ReadPod (o_namespace orc) POD) None s))
      | Some e \<Rightarrow>
          (case e of ApiException st \<Rightarrow> Ended (Inr (st \<noteq> Some 404)) | _ \<Rightarrow> Ended (Inl e),
           record_call (ReadPod (o_namespace orc) POD) (Some e) s))"
  by (auto simp: still_there_def catching_def andthen_def seq_def does_def observes_def ret_def throw_def
      split: option.split py_error.split)

lemma gone_loop_gone:
  "fst (gone_loop w orc n s) = Ended (Inr ()) \<Longrightarrow> gone orc (calls (snd (gone_loop w orc n s)))"
proof (induction n arbitrary: s)
  case 0
  then show ?case by (simp add: unfinished_def)
next
  case (Suc n)
  show ?case
  proof (cases "fst (still_there w orc s)")
    case (Ended r)
    then show ?thesis
    proof (cases r)
      case (Inr again)
      with Ended Suc show ?thesis
        by (cases again)
          (auto simp: seq_def ret_def gone_def still_there_simps split: prod.splits option.splits py_error.splits)
    qed (use Suc.prems in \<open>auto simp: seq_def split: prod.splits\<close>)
  qed (use Suc.prems in \<open>auto simp: seq_def split: prod.splits\<close>)
qed

lemma quiet_triple:
  "adds calls no_pod m \<Longrightarrow> stable J \<Longrightarrow>
     triple (\<lambda>s. every_call (launch_ok w orc args dir) (calls s) \<and> J (calls s)) m
       (\<lambda>s. every_call (launch_ok w orc args dir) (calls s)) (\<lambda>s. J (calls s))"
  by (rule adds_triple [where C = no_pod]) (auto intro: launch_ok_quiet)

lemma quiet_keeps:
  assumes "adds calls no_pod m"
  shows "triple (\<lambda>s. every_call (launch_ok w orc args dir) (calls s)) m
    (\<lambda>s. every_call (launch_ok w orc args dir) (calls s)) (\<lambda>_. True)"
  using quiet_triple [OF assms, of "\<lambda>_. True"] by (simp add: stable_def)

lemma spawn_guarded:
  assumes "stable J"
    and "\<And>t. J t \<Longrightarrow> isolated orc t \<and> built (sub_id args) dir t \<and> scored w orc (sub_id args) t"
  shows "triple (\<lambda>s. every_call (launch_ok w orc args dir) (calls s) \<and> J (calls s))
    (spawn_contestant_sandbox_pod w orc n (image_for (sub_id args)))
    (\<lambda>s. every_call (launch_ok w orc args dir) (calls s)) (\<lambda>_. True)"
proof -
  let ?E = "\<lambda>s. every_call (launch_ok w orc args dir) (calls s)"
  let ?d = "delete_old_sandbox_pod w orc n True"
  have "gone orc (calls (snd (?d s)))" if "fst (?d s) = Ended (Inr a)" for s a
    using that gone_loop_gone [of w orc n]
    by (auto simp: delete_old_sandbox_pod_def andthen_def seq_def
        split: sum.splits outcome.splits prod.splits)
  then have d: "triple (\<lambda>s. ?E s \<and> J (calls s)) ?d ?E (\<lambda>s. J (calls s) \<and> gone orc (calls s))"
    by (rule triple_post [OF quiet_triple [OF adds_delete assms(1)]])
  have "triple (\<lambda>s. ?E s \<and> (J (calls s) \<and> gone orc (calls s)))
      (does w (CreatePod (o_namespace orc) (contestant_pod orc (image_for (sub_id args))
        (getenv w ''EXCHANGE_HOST'' ''10.0.2.2'')))) ?E (\<lambda>_. True)"
    by (rule doing.triple_does) (auto simp: launch_ok_def dest: assms(2))
  from triple_andthen [OF d this] show ?thesis
    by (simp add: spawn_contestant_sandbox_pod_def image_for_def)
qed

lemma start_scored:
  assumes "stable J"
  shows "triple (\<lambda>s. every_call (launch_ok w orc args dir) (calls s) \<and> J (calls s))
    (start_scoring_engine w orc (sub_id args)) (\<lambda>s. every_call (launch_ok w orc args dir) (calls s))
    (\<lambda>s. J (calls s) \<and> scored w orc (sub_id args) (calls s))"
proof (rule triple_post [OF quiet_triple [OF adds_start assms]])
  fix s a
  assume "fst (start_scoring_engine w orc (sub_id args) s) = Ended (Inr a)"
  then show "scored w orc (sub_id args) (calls (snd (start_scoring_engine w orc (sub_id args) s)))"
    unfolding scored_def
    by (auto simp: start_scoring_engine_def seq_def lift_def observes_def does_def
        split: sum.splits option.splits)
qed

lemma build_ended:
  "fst (auto_detect_and_build w dir sid s) = Ended (Inr img) \<Longrightarrow>
     built sid dir (calls (snd (auto_detect_and_build w dir sid s))) \<and> img = image_for sid"
  by (auto simp: built_def auto_detect_and_build_def Let_def andthen_def seq_def observes_def does_def ret_def
      split: sum.splits option.splits outcome.splits prod.splits)

lemma build_built:
  "stable J \<Longrightarrow>
   triple (\<lambda>s. every_call (launch_ok w orc args dir) (calls s) \<and> J (calls s))
    (auto_detect_and_build w dir sid) (\<lambda>s. every_call (launch_ok w orc args dir) (calls s))
    (\<lambda>s. J (calls s) \<and> built sid dir (calls s))"
  by (rule triple_post [OF quiet_triple [OF adds_build]]) (auto dest: build_ended)

lemma evaluate_guarded:
  "triple (\<lambda>s. every_call (launch_ok w orc args dir) (calls s)) (evaluate w orc n args dir)
     (\<lambda>s. every_call (launch_ok w orc args dir) (calls s)) (\<lambda>_. True)"
proof -
  let ?P = "launch_ok w orc args dir" and ?sid = "sub_id args"
  let ?E = "\<lambda>s. every_call ?P (calls s)"
  let ?I = "\<lambda>t. isolated orc t \<and> built ?sid dir t"
  have hold: "triple (\<lambda>s. ?E s \<and> J (calls s)) (hold_proc True) ?E (\<lambda>s. J (calls s))" for J
    by (simp add: triple_def hold_proc_def)
  have wait: "triple (\<lambda>s. ?E s \<and> True) (wait_for_agent_completion w orc n d) ?E (\<lambda>s. True)" for d
    using quiet_keeps [OF adds_wait] by simp
  have st: "stable (\<lambda>t. ?I t \<and> scored w orc ?sid t)" "stable ?I" by (intro stable_rules stable_facts)+
  have tail: "triple (\<lambda>s. ?E s \<and> ?I (calls s))
      (andthen (start_scoring_engine w orc ?sid) (andthen (hold_proc True)
        (andthen (spawn_contestant_sandbox_pod w orc n (image_for ?sid))
          (wait_for_agent_completion w orc n (ra_duration args + 30))))) ?E (\<lambda>_. True)"
    by (rule triple_andthen [OF start_scored [OF st(2)]], rule triple_andthen [OF hold],
        rule triple_andthen [OF spawn_guarded [OF st(1)] wait]) auto
  have "triple ?E (ensure_namespace w orc) ?E (\<lambda>s. acked 409 (CreateNamespace (namespace_meta orc)) (calls s))"
    using triple_tolerating [of "\<lambda>_. True" ?P "CreateNamespace (namespace_meta orc)" 409 w]
    by (simp add: ensure_namespace_def stable_def launch_ok_def)
  moreover have "triple (\<lambda>s. ?E s \<and> acked 409 (CreateNamespace (namespace_meta orc)) (calls s))
      (ensure_network_policy w orc) ?E (\<lambda>s. isolated orc (calls s))"
    using triple_tolerating [of "acked 409 (CreateNamespace (namespace_meta orc))" ?P
        "CreateNetworkPolicy (o_namespace orc) (jail_policy orc)" 409 w]
    by (auto simp: ensure_network_policy_def isolated_def launch_ok_def)
  moreover have "triple (\<lambda>s. ?E s \<and> isolated orc (calls s)) (seq (auto_detect_and_build w dir ?sid) (\<lambda>img.
      andthen (start_scoring_engine w orc ?sid) (andthen (hold_proc True)
        (andthen (spawn_contestant_sandbox_pod w orc n img)
          (wait_for_agent_completion w orc n (ra_duration args + 30)))))) ?E (\<lambda>_. True)"
  proof (rule triple_seq_value)
    show "triple (\<lambda>s. ?E s \<and> isolated orc (calls s)) (auto_detect_and_build w dir ?sid) ?E (\<lambda>s. ?I (calls s))"
      by (rule build_built) (rule stable_facts)
  qed (use tail build_ended in auto)
  ultimately show ?thesis unfolding evaluate_def by (blast intro: triple_andthen)
qed

text \<open>The workspace a run works on.\<close>

definition workspace :: "orchestrator \<Rightarrow> run_args \<Rightarrow> string \<Rightarrow> bool" where
  "workspace orc args dir \<longleftrightarrow>
     dir = path_join ''/tmp/sandbox_uploads'' (sub_id args) \<or> dir = o_repo_root orc"

lemma every_call_weaken: "every_call P t \<Longrightarrow> (\<And>t c. P t c \<Longrightarrow> Q t c) \<Longrightarrow> every_call Q t"
  by (auto simp: every_call_def)

lemma run_guarded:
  assumes "run w orc n args initial = (r, s)"
  shows "\<exists>dir. workspace orc args dir \<and> every_call (launch_ok w orc args dir) (calls s)"
proof -
  let ?up = "path_join ''/tmp/sandbox_uploads'' (sub_id args)"
  obtain r1 s1 where c: "connect w initial = (r1, s1)" by (cases "connect w initial")
  have quiet: "every_call (launch_ok w orc args dir) (calls s1)" for dir
    using tripleD [OF quiet_keeps [OF adds_connect] _ c] by (simp add: initial_def)
  show ?thesis
  proof (cases "\<exists>u. r1 = Ended (Inr u)")
    case False
    with c assms have "s = s1" by (auto simp: run_def andthen_def seq_def split: outcome.splits sum.splits)
    with quiet [of "o_repo_root orc"] show ?thesis unfolding workspace_def by blast
  next
    case True
    let ?dir = "if path_at w (calls s1) ?up then ?up else o_repo_root orc"
    let ?E = "\<lambda>s. every_call (launch_ok w orc args ?dir) (calls s)"
    let ?s2 = "(record_call (PathExists ?up) None s1)\<lparr>scoring_proc := False\<rparr>"
    have m: "ensuring (evaluate w orc n args ?dir) (reap w orc args) ?s2 = (r, s)"
      using assms c True by (auto simp: run_def andthen_def seq_def Let_def observes_def hold_proc_def)
    have "?E ?s2" using quiet by (simp add: launch_ok_def)
    from tripleD [OF triple_ensuring [OF evaluate_guarded quiet_keeps [OF adds_reap]] this m] have "?E s" by simp
    moreover have "workspace orc args ?dir" by (simp add: workspace_def)
    ultimately show ?thesis by blast
  qed
qed

end
