(* ===== verification/OrchSafety.thy ===== *)
theory OrchSafety
  imports OrchRuns
begin

text \<open>
  The properties of a run: how the contestant's pod is launched, what a run leaves behind, when it
  ends and where it does not, and which arguments it heeds.
\<close>

section \<open>Launching the pod\<close>

definition guarded_launch :: "world \<Rightarrow> orchestrator \<Rightarrow> run_args \<Rightarrow> string \<Rightarrow> call trace \<Rightarrow> call \<Rightarrow> bool" where
  "guarded_launch w orc args dir t c \<longleftrightarrow>
     (case c of
        CreatePod ns p \<Rightarrow>
          restricted (p_spec p) \<and>
          selects (np_selector (jail_policy orc)) (p_meta p) \<and> ns = o_namespace orc \<and>
          isolated orc t \<and> gone orc t \<and> built (sub_id args) dir t \<and> scored w orc (sub_id args) t \<and>
          map c_image (ps_containers (p_spec p)) = [image_for (sub_id args)] \<and>
          (if CHR '':'' \<in> set (sub_id args) then True
           else map (\<lambda>k. map_of (c_env k) ''CONTESTANT_ID'') (ps_containers (p_spec p)) = [Some (sub_id args)])
      | _ \<Rightarrow> True)"

lemma contestant_id_env:
  "CHR '':'' \<notin> set sid \<Longrightarrow> last (split_on CHR '':'' (image_for sid)) = sid"
proof -
  assume sid: "CHR '':'' \<notin> set sid"
  have "image_for sid = ''contestant-agent'' @ CHR '':'' # sid" by (simp add: image_for_def)
  then have "split_on CHR '':'' (image_for sid) = split_on CHR '':'' ''contestant-agent'' @ [sid]"
    by (simp only: split_on_append split_on_plain [OF sid])
  then show ?thesis by (simp only: last_snoc)
qed

lemma contestant_pod_facts:
  "restricted (p_spec (contestant_pod orc img host))"
  "selects (np_selector (jail_policy orc)) (p_meta (contestant_pod orc img host))"
  "map c_image (ps_containers (p_spec (contestant_pod orc img host))) = [img]"
  "map (\<lambda>k. map_of (c_env k) ''CONTESTANT_ID'') (ps_containers (p_spec (contestant_pod orc img host))) =
     [Some (last (split_on CHR '':'' img))]"
  unfolding restricted_def selects_def jail_policy_def contestant_pod_def by simp_all

lemma launch_guarded: "launch_ok w orc args dir t c \<Longrightarrow> guarded_launch w orc args dir t c"
  by (cases c) (simp_all add: launch_ok_def guarded_launch_def contestant_pod_facts contestant_id_env)


section \<open>Reaping\<close>

text \<open>
  What the trace leaves behind: a scoring process that was started and neither waited for nor killed,
  a pod that may have been created and was not deleted since.
\<close>

fun scoring_step :: "bool \<Rightarrow> call \<times> py_error option \<Rightarrow> bool" where
  "scoring_step b (Popen cmd, r) = (r = None \<or> b)"
| "scoring_step b (WaitProc d, r) = (r \<noteq> None \<and> b)"
| "scoring_step b (Kill, r) = (r \<noteq> None \<and> b)"
| "scoring_step b _ = b"

fun pod_step :: "bool \<Rightarrow> call \<times> py_error option \<Rightarrow> bool" where
  "pod_step b (CreatePod ns p, r) = True"
| "pod_step b (DeletePod ns p, r) = (r \<noteq> None \<and> r \<noteq> Some (ApiException (Some 404)) \<and> b)"
| "pod_step b _ = b"

definition scoring_left :: "call trace \<Rightarrow> bool" where
  "scoring_left t = foldl scoring_step False t"

definition pod_left :: "call trace \<Rightarrow> bool" where
  "pod_left t = foldl pod_step False t"

lemma left_append [simp]:
  "scoring_left (t @ u) = foldl scoring_step (scoring_left t) u" "pod_left (t @ u) = foldl pod_step (pod_left t) u"
  by (simp_all add: scoring_left_def pod_left_def)

text \<open>The local variable says whether a scoring process is left.\<close>

abbreviation tracked :: "orch \<Rightarrow> bool" where
  "tracked s \<equiv> scoring_proc s = scoring_left (calls s)"

lemmas kept_rules = keeps_rules keeps_calls keeps_proc keeps_tolerating

lemma tracked_gone_loop: "keeps tracked (gone_loop w orc n)"
  by (induction n) (auto intro!: kept_rules simp: still_there_def split: py_error.split)

lemma tracked_delete: "keeps tracked (delete_old_sandbox_pod w orc n b)"
  unfolding delete_old_sandbox_pod_def by (auto intro!: kept_rules tracked_gone_loop)

lemma tracked_agent_loop: "keeps tracked (agent_loop w orc d n)"
  by (induction n) (auto intro!: kept_rules split: py_error.split)

lemma tracked_wait: "keeps tracked (wait_for_agent_completion w orc n d)"
  unfolding wait_for_agent_completion_def by (auto intro!: kept_rules tracked_agent_loop)

lemma tracked_start:
  "keeps tracked (andthen (start_scoring_engine w orc sid) (andthen (hold_proc True) m))"
  if m: "keeps tracked m"
proof -
  have "keeps tracked (andthen (does w (Popen cmd)) (hold_proc True))" for cmd
    by (auto simp: keeps_def andthen_def seq_def does_def hold_proc_def split: option.splits)
  then have p: "keeps tracked (andthen (does w (Popen cmd)) (andthen (hold_proc True) m))" for cmd
    using m keeps_andthen [of tracked "andthen (does w (Popen cmd)) (hold_proc True)" m]
    by (simp add: andthen_def seq_assoc)
  have "andthen (start_scoring_engine w orc sid) (andthen (hold_proc True) m) =
      seq (observes (clock_at w) Now) (\<lambda>t. seq (lift (num_int (PyF t))) (\<lambda>now.
        andthen (does w (Popen (scoring_command w orc sid now))) (andthen (hold_proc True) m)))"
    by (simp add: start_scoring_engine_def andthen_def seq_assoc)
  then show ?thesis by (auto intro!: keeps_seq kept_rules p)
qed

lemma tracked_evaluate: "keeps tracked (evaluate w orc n args dir)"
  unfolding evaluate_def ensure_namespace_def ensure_network_policy_def auto_detect_and_build_def
    find_script_def spawn_contestant_sandbox_pod_def Let_def
  by (auto intro!: kept_rules tracked_start tracked_delete tracked_wait)

lemma connect_quiet:
  "\<not> scoring_left (calls (snd (connect w initial))) \<and> \<not> pod_left (calls (snd (connect w initial)))"
proof -
  let ?I = "\<lambda>s. \<not> scoring_left (calls s) \<and> \<not> pod_left (calls s)"
  have "keeps ?I (connect w)"
    unfolding connect_def by (auto intro!: kept_rules split: py_error.split)
  then show ?thesis by (simp add: keeps_def initial_def scoring_left_def pod_left_def)
qed

text \<open>A world in which the reaping itself does not fail.\<close>

definition reapable :: "world \<Rightarrow> orchestrator \<Rightarrow> run_args \<Rightarrow> bool" where
  "reapable w orc args \<longleftrightarrow>
     (\<forall>t. fails w t Terminate = None \<and> fails w t Kill = None \<and>
        fails w t (WaitProc 10) \<in> {None, Some TimeoutExpired} \<and>
        (keep_resources args \<or>
         fails w t (DeletePod (o_namespace orc) POD) \<in> {None, Some (ApiException (Some 404))}))"

lemma reap_reaps:
  assumes "reapable w orc args" "tracked s" "reap w orc args s = (r, s')"
  shows "\<not> scoring_left (calls s') \<and> (keep_resources args \<or> \<not> pod_left (calls s'))"
proof -
  have f: "fails w t Terminate = None" "fails w t Kill = None" "fails w t (WaitProc 10) \<noteq> None \<Longrightarrow>
      fails w t (WaitProc 10) = Some TimeoutExpired" "\<not> keep_resources args \<Longrightarrow>
      fails w t (DeletePod (o_namespace orc) POD) \<noteq> None \<Longrightarrow>
      fails w t (DeletePod (o_namespace orc) POD) = Some (ApiException (Some 404))" for t
    using assms(1) unfolding reapable_def by (metis empty_iff insert_iff)+
  let ?p = "seq holds_proc (\<lambda>started. if started
      then andthen (does w Terminate)
        (catching (does w (WaitProc 10)) (\<lambda>e. case e of TimeoutExpired \<Rightarrow> does w Kill | _ \<Rightarrow> throw e))
      else ret ())"
  obtain q u where p: "?p s = (q, u)" by (cases "?p s")
  have u: "q = Ended (Inr ()) \<and> \<not> scoring_left (calls u)"
    using p assms(2) f(1,2) f(3) [of "calls s @ [(Terminate, None)]"]
    by (auto simp: seq_def holds_proc_def andthen_def catching_def does_def ret_def
        split: if_splits option.splits)
  then have r: "reap w orc args s = (if keep_resources args then ret () else cleanup w orc) u"
    using p by (simp add: reap_def andthen_def seq_def)
  show ?thesis
    using u r assms(3) f(4) [of "calls u"]
    by (auto simp: ret_def cleanup_def delete_old_sandbox_pod_def tolerating_def andthen_def seq_def
        catching_def does_def split: if_splits option.splits)
qed

lemma reaped:
  assumes "reapable w orc args" "run w orc n args initial = (Ended r, s)"
  shows "\<not> scoring_left (calls s) \<and> (if keep_resources args then True else \<not> pod_left (calls s))"
proof -
  let ?up = "path_join ''/tmp/sandbox_uploads'' (sub_id args)"
  obtain r1 s1 where c: "connect w initial = (r1, s1)" by (cases "connect w initial")
  have s1: "\<not> scoring_left (calls s1)" "\<not> pod_left (calls s1)"
    using connect_quiet [of w] c by auto
  show ?thesis
  proof (cases "\<exists>u. r1 = Ended (Inr u)")
    case False
    with c assms(2) have "s = s1"
      by (auto simp: run_def andthen_def seq_def split: outcome.splits sum.splits)
    with s1 show ?thesis by simp
  next
    case True
    let ?dir = "if path_at w (calls s1) ?up then ?up else o_repo_root orc"
    let ?s2 = "(record_call (PathExists ?up) None s1)\<lparr>scoring_proc := False\<rparr>"
    have m: "ensuring (evaluate w orc n args ?dir) (reap w orc args) ?s2 = (Ended r, s)"
      using assms(2) c True by (auto simp: run_def andthen_def seq_def Let_def observes_def hold_proc_def)
    obtain r3 s3 where e: "evaluate w orc n args ?dir ?s2 = (r3, s3)"
      by (cases "evaluate w orc n args ?dir ?s2")
    have "tracked ?s2" using s1 by simp
    with tracked_evaluate [of w orc n args ?dir] e have "tracked s3" unfolding keeps_def by (metis snd_conv)
    moreover obtain q where "reap w orc args s3 = (q, s)"
      using m e by (auto simp: ensuring_def split: outcome.splits prod.splits sum.splits)
    ultimately show ?thesis using reap_reaps [OF assms(1)] by auto
  qed
qed

section \<open>Ending\<close>

definition slept :: "call trace \<Rightarrow> nat" where
  "slept t = length (filter (\<lambda>x. fst x = Sleep 1) t)"

definition reads :: "orchestrator \<Rightarrow> call trace \<Rightarrow> nat" where
  "reads orc t = length (filter (\<lambda>x. fst x = ReadPod (o_namespace orc) POD) t)"

lemma counts_append [simp]: "slept (t @ u) = slept t + slept u" "reads orc (t @ u) = reads orc t + reads orc u"
  by (simp_all add: slept_def reads_def)

lemma counts_Cons [simp]:
  "slept (x # t) = (if fst x = Sleep 1 then Suc (slept t) else slept t)"
  "reads orc (x # t) = (if fst x = ReadPod (o_namespace orc) POD then Suc (reads orc t) else reads orc t)"
  "slept [] = 0" "reads orc [] = 0"
  by (simp_all add: slept_def reads_def)

text \<open>
  A clock that advances by at least the time slept and stays below 2 to the 40 for the first \<open>k\<close>
  seconds of sleep; a cluster that reports the old pod as gone at the latest after \<open>k\<close> reads.
\<close>

definition timely :: "nat \<Rightarrow> world \<Rightarrow> bool" where
  "timely k w \<longleftrightarrow>
     (\<forall>t u. \<exists>x y. clock_at w t = Fin x \<and> clock_at w (t @ u) = Fin y \<and> x + of_nat (slept u) \<le> y \<and>
        (slept t \<le> k \<longrightarrow> \<bar>x\<bar> \<le> 2 ^ 40))"

definition confirms :: "nat \<Rightarrow> world \<Rightarrow> orchestrator \<Rightarrow> bool" where
  "confirms k w orc \<longleftrightarrow>
     (\<forall>t. k \<le> reads orc t \<longrightarrow> fails w t (ReadPod (o_namespace orc) POD) = Some (ApiException (Some 404)))"

lemma timely_later:
  assumes "timely k w" "clock_at w t = Fin x"
  shows "\<exists>y. clock_at w (t @ u) = Fin y \<and> x + of_nat (slept u) \<le> y"
proof -
  have "\<exists>a b. clock_at w t = Fin a \<and> clock_at w (t @ u) = Fin b \<and> a + of_nat (slept u) \<le> b \<and>
      (slept t \<le> k \<longrightarrow> \<bar>a\<bar> \<le> 2 ^ 40)"
    using assms(1) unfolding timely_def by blast
  with assms(2) show ?thesis by auto
qed

lemma gone_loop_ends:
  assumes "confirms k w orc"
  shows "k < reads orc (calls s) + n \<Longrightarrow> 0 < n \<Longrightarrow> fst (gone_loop w orc n s) \<noteq> Unfinished"
proof (induction n arbitrary: s)
  case (Suc n)
  have st: "fst (still_there w orc s) \<noteq> Unfinished"
    by (auto simp: still_there_simps split: option.split py_error.split)
  show ?case
  proof (cases "k \<le> reads orc (calls s)")
    case True
    with assms have "fails w (calls s) (ReadPod (o_namespace orc) POD) = Some (ApiException (Some 404))"
      by (simp add: confirms_def)
    then show ?thesis by (simp add: seq_def still_there_simps ret_def)
  next
    case False
    obtain r u where u: "still_there w orc s = (r, u)" by (cases "still_there w orc s")
    then have "reads orc (calls u) = Suc (reads orc (calls s))"
      by (auto simp: still_there_simps split: option.splits)
    with False Suc have "fst (gone_loop w orc n u) \<noteq> Unfinished" by simp
    with st u show ?thesis by (auto simp: seq_def ret_def split: outcome.splits sum.splits)
  qed
qed simp

abbreviation few_sleeps :: "nat \<Rightarrow> orchestrator \<Rightarrow> orch \<Rightarrow> bool" where
  "few_sleeps k orc s \<equiv> slept (calls s) \<le> reads orc (calls s) \<and> slept (calls s) \<le> k"

lemma few_gone_loop:
  assumes "confirms k w orc"
  shows "keeps (few_sleeps k orc) (gone_loop w orc n)"
proof (induction n)
  case (Suc n)
  have "slept (calls s) < k" if "few_sleeps k orc s" "fails w (calls s) (ReadPod (o_namespace orc) POD) = None" for s
    using that assms unfolding confirms_def by (metis le_trans not_le_imp_less option.distinct(1))
  then have "keeps (few_sleeps k orc) (still_there w orc)"
    unfolding keeps_def by (fastforce simp: still_there_simps split: option.splits)
  with Suc show ?case by (auto intro!: keeps_rules)
qed (simp add: keeps_simps)

declare agent_loop.simps [simp del]

lemma agent_loop_ends:
  assumes "timely k w"
  shows "clock_at w (calls s) = Fin y \<Longrightarrow> d \<le> y + of_nat n \<Longrightarrow>
    fst (agent_loop w orc (Fin d) (Suc n) s) \<noteq> Unfinished"
proof (induction n arbitrary: s y)
  case 0
  then show ?case by (simp add: agent_loop.simps(2) seq_def observes_def ret_def)
next
  case (Suc n)
  let ?u = "[(Now, None), (ReadPodStatus (o_namespace orc) POD, None), (Sleep 1, None)]"
  have "\<exists>y'. clock_at w (calls s @ ?u) = Fin y' \<and> y + of_nat (slept ?u) \<le> y'"
    by (rule timely_later [OF assms Suc.prems(1)])
  then obtain y' where y': "clock_at w (calls s @ ?u) = Fin y'" "y + 1 \<le> y'" by auto
  let ?s = "record_call (Sleep 1) None (record_call (ReadPodStatus (o_namespace orc) POD) None (record_call Now None s))"
  have "d \<le> y' + of_nat n" using Suc.prems(2) y'(2) by simp
  with Suc.IH [of ?s y'] y'(1) have IH: "fst (agent_loop w orc (Fin d) (Suc n) ?s) \<noteq> Unfinished" by simp
  show ?case
  proof (cases "y < d")
    case False
    with Suc.prems(1) show ?thesis by (simp add: agent_loop.simps(2) seq_def observes_def ret_def)
  next
    case True
    let ?status = "asks w (phase_at w) (ReadPodStatus (o_namespace orc) POD)"
    let ?s1 = "record_call Now None s"
    have finish: "fst (andthen (catching (does w c) (\<lambda>e. case e of ApiException st \<Rightarrow> ret () | _ \<Rightarrow> throw e)) (ret b) u)
      \<noteq> Unfinished" for c u and b :: bool
      using doing.does_ends
      by (auto simp: andthen_def seq_finishes catching_finishes ret_def throw_def split: py_error.split)
    have sleep: "fst (andthen (observes (\<lambda>t. ()) (Sleep 1)) (agent_loop w orc (Fin d) (Suc n))
        (snd (?status ?s1))) \<noteq> Unfinished" if "fst (?status ?s1) = Ended (Inr p)" for p
    proof -
      have "snd (?status ?s1) = record_call (ReadPodStatus (o_namespace orc) POD) None ?s1"
        using that by (auto simp: asks_def split: option.splits)
      with IH show ?thesis by (simp add: andthen_def seq_def observes_def)
    qed
    have "fst (?status ?s1) \<noteq> Unfinished" by (rule asking.does_ends)
    with finish sleep have "fst (seq ?status (\<lambda>phase. if phase \<in> {''Succeeded'', ''Failed''}
        then andthen (catching (does w (ReadPodLog (o_namespace orc) POD))
          (\<lambda>e. case e of ApiException st \<Rightarrow> ret () | _ \<Rightarrow> throw e)) (ret True)
        else andthen (observes (\<lambda>t. ()) (Sleep 1)) (agent_loop w orc (Fin d) (Suc n))) ?s1) \<noteq> Unfinished"
      unfolding seq_finishes by auto
    with True Suc.prems(1) show ?thesis
      unfolding agent_loop.simps(2) [of w orc "Fin d" "Suc n"]
      by (simp add: seq_finishes [of "observes (clock_at w) Now"] observes_def)
  qed
qed

lemma deadline_below:
  assumes "\<bar>x\<bar> \<le> 2 ^ 40" "\<bar>d\<bar> \<le> 2 ^ 40"
  shows "\<exists>z. rbind (num_float (PyI d)) (\<lambda>d. Inr (fadd (Fin x) d)) = Inr (Fin z) \<and> z \<le> x + of_int d + 1"
proof -
  have c: "\<bar>\<lceil>x\<rceil>\<bar> \<le> 2 ^ 40 + 1" using assms(1) ceiling_correct [of x] by (simp add: abs_le_iff) linarith
  have n: "num_float (PyI d) = Inr (Fin (of_int d))"
    by (rule num_float_small) (use assms(2) in simp)
  have f: "of_int (- (2 ^ 53)) \<le> x + of_int d"
  proof -
    have "- (2 ^ 40) \<le> d" using assms(2) by linarith
    then have "- (2 ^ 40) \<le> (of_int d :: rat)" by (metis of_int_le_iff of_int_minus of_int_numeral of_int_power)
    with assms(1) show ?thesis by (simp add: abs_le_iff)
  qed
  have "x + of_int d \<le> of_int (\<lceil>x\<rceil> + d)" by simp
  moreover have "\<bar>\<lceil>x\<rceil> + d\<bar> \<le> 2 ^ 53"
  proof -
    have "\<bar>\<lceil>x\<rceil> + d\<bar> \<le> 2 ^ 40 + 1 + 2 ^ 40" using c assms(2) by linarith
    also have "\<dots> \<le> (2 ^ 53 :: int)" by simp
    finally show ?thesis .
  qed
  ultimately obtain z where z: "to_f64 (x + of_int d) = Fin z" "z \<le> of_int (\<lceil>x\<rceil> + d)"
    using f to_f64_between [of "- (2 ^ 53)" "x + of_int d" "\<lceil>x\<rceil> + d"] by auto
  have "of_int \<lceil>x\<rceil> \<le> x + 1" using ceiling_correct [of x] by simp
  with z(2) have "z \<le> x + of_int d + 1" unfolding of_int_add by linarith
  with z(1) n show ?thesis by simp
qed

lemma wait_ends:
  assumes "timely k w" "slept (calls s) \<le> k" "0 \<le> d" "d \<le> 2 ^ 40" "nat d + 1 < n"
  shows "fst (wait_for_agent_completion w orc n d s) \<noteq> Unfinished"
proof -
  obtain x where x: "clock_at w (calls s) = Fin x" "\<bar>x\<bar> \<le> 2 ^ 40"
    using assms(1,2) unfolding timely_def by blast
  obtain y where y: "clock_at w (calls s @ [(Now, None)]) = Fin y" "x \<le> y"
    using timely_later [OF assms(1) x(1), of "[(Now, None)]"] by auto
  obtain z where z: "rbind (num_float (PyI d)) (\<lambda>d. Inr (fadd (Fin x) d)) = Inr (Fin z)" "z \<le> x + of_int d + 1"
    using deadline_below [OF x(2), of d] assms(3,4) by auto
  obtain m where m: "n = Suc m" "nat d + 1 \<le> m" using assms(5) by (cases n) auto
  have "d + 1 \<le> int m" using m(2) assms(3) by linarith
  then have "of_int (d + 1) \<le> (of_int (int m) :: rat)" by (simp only: of_int_le_iff)
  then have "of_int d + 1 \<le> (of_nat m :: rat)" by simp
  with z(2) y(2) have "z \<le> y + of_nat m" by linarith
  with agent_loop_ends [OF assms(1), of "record_call Now None s" y z m orc] y(1) m(1)
  have "fst (agent_loop w orc (Fin z) n (record_call Now None s)) \<noteq> Unfinished" by simp
  moreover have "fst (andthen (catching (does w c) (\<lambda>e. ret ())) (throw e) u) \<noteq> Unfinished" for c e u
    using doing.does_ends by (simp add: andthen_def seq_finishes catching_finishes ret_def throw_def)
  ultimately have "fst (seq (agent_loop w orc (Fin z) n) (\<lambda>returned. if returned then ret ()
      else andthen (catching (does w (ReadPodLog (o_namespace orc) POD)) (\<lambda>e. ret ())) (throw TimeoutError))
        (record_call Now None s)) \<noteq> Unfinished"
    unfolding seq_finishes by (auto simp: ret_def)
  then show ?thesis
    by (simp only: wait_for_agent_completion_def seq_observes x(1) z(1) seq_lift) simp
qed

lemma few_connect: "keeps (few_sleeps k orc) (connect w)"
  unfolding connect_def by (auto intro!: kept_rules split: py_error.split)

lemma few_build: "keeps (few_sleeps k orc) (auto_detect_and_build w dir sid)"
  unfolding auto_detect_and_build_def find_script_def Let_def by (auto intro!: kept_rules)

lemma few_start: "keeps (few_sleeps k orc) (start_scoring_engine w orc sid)"
  unfolding start_scoring_engine_def by (auto intro!: kept_rules)

lemma few_hold: "keeps (few_sleeps k orc) (hold_proc b)"
  by (simp add: keeps_def hold_proc_def)

lemma few_spawn: "confirms k w orc \<Longrightarrow> keeps (few_sleeps k orc) (spawn_contestant_sandbox_pod w orc n img)"
  unfolding spawn_contestant_sandbox_pod_def delete_old_sandbox_pod_def Let_def
  by (auto intro!: kept_rules few_gone_loop)

lemmas end_rules = ends_seq ends_andthen ends_catching ends_tolerating doing.ends_does asking.ends_does
  observing.ends_does

lemma ends_connect: "ends (few_sleeps k orc) (connect w)"
  unfolding connect_def by (auto intro!: end_rules kept_rules split: py_error.split)

lemma ends_build: "ends (few_sleeps k orc) (auto_detect_and_build w dir sid)"
  unfolding auto_detect_and_build_def find_script_def Let_def by (auto intro!: end_rules kept_rules)

lemma ends_start: "ends (few_sleeps k orc) (start_scoring_engine w orc sid)"
  unfolding start_scoring_engine_def by (auto intro!: end_rules kept_rules)

lemma ends_spawn:
  assumes "confirms k w orc" "k < n"
  shows "ends (few_sleeps k orc) (spawn_contestant_sandbox_pod w orc n img)"
proof -
  have "ends (few_sleeps k orc) (gone_loop w orc n)"
    using gone_loop_ends [OF assms(1)] assms(2) by (auto simp: ends_def)
  then show ?thesis
    unfolding spawn_contestant_sandbox_pod_def delete_old_sandbox_pod_def Let_def
    by (auto intro!: end_rules kept_rules few_gone_loop [OF assms(1)])
qed

lemma ends_reap: "ends I (reap w orc args)" for I :: "orch \<Rightarrow> bool"
proof -
  have "ends (\<lambda>_. True) (reap w orc args)"
    unfolding reap_def cleanup_def delete_old_sandbox_pod_def
    by (auto intro!: end_rules simp: keeps_def split: py_error.split)
  then show ?thesis by (simp add: ends_def)
qed

lemma run_finishes:
  assumes "confirms k w orc" "timely k w" "k < n"
    and "0 \<le> ra_duration args + 30" "ra_duration args + 30 \<le> 2 ^ 40" "nat (ra_duration args + 30) + 1 < n"
  shows "fst (run w orc n args initial) \<noteq> Unfinished"
proof -
  let ?I = "few_sleeps k orc"
  have w: "ends ?I (wait_for_agent_completion w orc n (ra_duration args + 30))"
    using wait_ends [OF assms(2) _ assms(4,5,6)] by (simp add: ends_def)
  have e: "ends ?I (evaluate w orc n args dir)" for dir
    unfolding evaluate_def ensure_namespace_def ensure_network_policy_def
    by (auto intro!: end_rules kept_rules few_build few_start few_hold ends_build ends_start
        few_spawn [OF assms(1)] ends_spawn [OF assms(1,3)] w)
  then have "ends ?I (ensuring (evaluate w orc n args dir) (reap w orc args))" for dir
    using ends_ensuring ends_reap by blast
  then have "ends ?I (run w orc n args)"
    unfolding run_def Let_def
    by (auto intro!: end_rules kept_rules ends_connect few_connect few_hold)
  then show ?thesis by (simp add: ends_def initial_def)
qed

text \<open>The pod was seen in a final phase.\<close>

definition seen_final :: "world \<Rightarrow> orchestrator \<Rightarrow> call trace \<Rightarrow> bool" where
  "seen_final w orc t \<longleftrightarrow>
     (\<exists>u v. t = u @ (ReadPodStatus (o_namespace orc) POD, None) # v \<and> phase_at w u \<in> {''Succeeded'', ''Failed''})"

lemma seen_final_append:
  assumes "seen_final w orc t"
  shows "seen_final w orc (t @ u)"
proof -
  obtain a b where "t = a @ (ReadPodStatus (o_namespace orc) POD, None) # b"
    "phase_at w a \<in> {''Succeeded'', ''Failed''}"
    using assms unfolding seen_final_def by blast
  then have "t @ u = a @ (ReadPodStatus (o_namespace orc) POD, None) # (b @ u)" by simp
  with \<open>phase_at w a \<in> _\<close> show ?thesis unfolding seen_final_def by blast
qed

lemma adds_seen:
  "seen_final w orc (calls s) \<Longrightarrow> adds calls C m \<Longrightarrow> m s = (r, s') \<Longrightarrow> seen_final w orc (calls s')"
  unfolding adds_def by (metis seen_final_append snd_conv)

lemma agent_loop_seen:
  "agent_loop w orc d n s = (Ended (Inr True), s') \<Longrightarrow> seen_final w orc (calls s')"
proof (induction n arbitrary: s)
  case 0
  then show ?case by (simp add: agent_loop.simps(1) unfinished_def)
next
  case (Suc n)
  let ?s = "record_call Now None s"
  from Suc.prems have "flt (clock_at w (calls s)) d"
    by (auto simp: agent_loop.simps(2) seq_observes ret_def split: if_splits)
  with Suc.prems obtain p u where u: "asks w (phase_at w) (ReadPodStatus (o_namespace orc) POD) ?s = (Ended (Inr p), u)"
    "(if p \<in> {''Succeeded'', ''Failed''}
      then andthen (catching (does w (ReadPodLog (o_namespace orc) POD))
        (\<lambda>e. case e of ApiException st \<Rightarrow> ret () | _ \<Rightarrow> throw e)) (ret True)
      else andthen (observes (\<lambda>t. ()) (Sleep 1)) (agent_loop w orc d n)) u = (Ended (Inr True), s')"
    by (auto simp only: agent_loop.simps(2) seq_observes seq_value if_False not_True_eq_False)
  then have p: "p = phase_at w (calls ?s)" "calls u = calls ?s @ [(ReadPodStatus (o_namespace orc) POD, None)]"
    by (auto simp: asks_def split: option.splits)
  show ?case
  proof (cases "p \<in> {''Succeeded'', ''Failed''}")
    case True
    with p have "seen_final w orc (calls u)" unfolding seen_final_def by blast
    moreover have "adds calls no_pod (andthen (catching (does w (ReadPodLog (o_namespace orc) POD))
        (\<lambda>e. case e of ApiException st \<Rightarrow> ret () | _ \<Rightarrow> throw e)) (ret True))"
      by (auto intro!: call_rules simp: no_pod_def split: py_error.split)
    ultimately show ?thesis using u(2) True adds_seen by simp
  next
    case False
    with u(2) Suc.IH show ?thesis by (simp add: andthen_def seq_observes)
  qed
qed

lemma run_seen:
  assumes "run w orc n args initial = (Ended (Inr x), s)"
  shows "seen_final w orc (calls s)"
proof -
  obtain dir s1 s2 where e: "evaluate w orc n args dir s1 = (Ended (Inr ()), s2)"
    and r: "\<exists>q. reap w orc args s2 = (q, s)"
    using assms unfolding run_def Let_def andthen_value seq_value ensuring_value by force
  from e obtain s3 d where "wait_for_agent_completion w orc n d s3 = (Ended (Inr ()), s2)"
    unfolding evaluate_def andthen_value seq_value by blast
  then obtain d' s4 where "agent_loop w orc d' n s4 = (Ended (Inr True), s2)"
    unfolding wait_for_agent_completion_def seq_value
    by (auto simp: ret_def andthen_value throw_def split: if_splits)
  with agent_loop_seen have "seen_final w orc (calls s2)" by blast
  with r adds_seen adds_reap show ?thesis by blast
qed

section \<open>A quiet world\<close>

text \<open>Every call succeeds, the old pod is gone, the clock counts the seconds slept.\<close>

definition calm_world :: world where
  "calm_world =
     \<lparr>fails = (\<lambda>t c. if c = ReadPod ''evaluation-sandbox'' POD then Some (ApiException (Some 404)) else None),
      clock_at = (\<lambda>t. Fin (of_nat (slept t))), path_at = (\<lambda>t p. False),
      walk_at = (\<lambda>t d. [(''.'', [''engine.cpp''])]), phase_at = (\<lambda>t. ''Succeeded''),
      environ = (\<lambda>k. None), executable = ''python3'', workdir = ''/srv''\<rparr>"

lemma calm_timely: "timely 0 calm_world"
  by (simp add: timely_def calm_world_def)

lemma calm_confirms: "confirms 0 calm_world new_orchestrator"
  by (simp add: confirms_def calm_world_def new_orchestrator_def)

lemma calm_reapable: "reapable calm_world new_orchestrator args"
  by (simp add: reapable_def calm_world_def POD_def)

text \<open>In the quiet world a run succeeds, and it does launch the pod.\<close>

lemma calm_does:
  "c \<noteq> ReadPod ''evaluation-sandbox'' POD \<Longrightarrow> does calm_world c s = (Ended (Inr ()), record_call c None s)"
  "c \<noteq> ReadPod ''evaluation-sandbox'' POD \<Longrightarrow> asks calm_world f c s = (Ended (Inr (f (calls s))), record_call c None s)"
  by (simp_all add: does_def asks_def calm_world_def)

lemma calm_fails:
  "fails calm_world t c = (if c = ReadPod ''evaluation-sandbox'' POD then Some (ApiException (Some 404)) else None)"
  by (simp add: calm_world_def)

lemma calm_observed:
  "clock_at calm_world t = Fin (of_nat (slept t))" "path_at calm_world t p = False"
  "walk_at calm_world t d = [(''.'', [''engine.cpp''])]" "phase_at calm_world t = ''Succeeded''"
  by (simp_all add: calm_world_def)

lemmas calm = calm_does andthen_done seq_done catching_done seq_observes calm_observed

lemma orc_names: "o_namespace new_orchestrator = ''evaluation-sandbox''" "o_repo_root new_orchestrator = ''.''"
  by (simp_all add: new_orchestrator_def)

lemma calm_connect: "connect calm_world s = (Ended (Inr ()), record_call LoadIncluster None (record_call ImportKubernetes None s))"
  by (simp add: connect_def calm)

lemma calm_build: "auto_detect_and_build calm_world ''.'' sid s =
   (Ended (Inr (image_for sid)), record_call (Run (docker_build ''./Dockerfile.generated'' (image_for sid) ''.'')) None
      (record_call (WriteFile ''./Dockerfile.generated'' (dockerfile Cpp [])) None (record_call (Walk ''.'') None s)))"
proof -
  have "detect (all_files [(''.'', [''engine.cpp''])]) = Cpp"
    by (simp add: detect_def all_files_def ends_with_def starts_with_def)
  moreover have "path_join ''.'' ''Dockerfile.generated'' = ''./Dockerfile.generated''"
    by (simp add: path_join_def starts_with_def)
  ultimately show ?thesis
    by (simp add: auto_detect_and_build_def calm find_script_def ret_def Let_def)
qed

lemma calm_start: "start_scoring_engine calm_world orc sid s = (Ended (Inr ()),
   record_call (Popen (scoring_command calm_world orc sid (int (slept (calls s))))) None (record_call Now None s))"
  by (simp add: start_scoring_engine_def calm seq_lift rat_trunc_def)

lemma calm_spawn: "spawn_contestant_sandbox_pod calm_world new_orchestrator 100 (image_for sid) s = (Ended (Inr ()),
   record_call (CreatePod ''evaluation-sandbox'' (contestant_pod new_orchestrator (image_for sid) ''10.0.2.2'')) None
    (record_call (ReadPod ''evaluation-sandbox'' POD) (Some (ApiException (Some 404)))
      (record_call (DeletePod ''evaluation-sandbox'' POD) None s)))"
proof -
  have "gone_loop calm_world new_orchestrator (Suc n) u =
      (Ended (Inr ()), record_call (ReadPod ''evaluation-sandbox'' POD) (Some (ApiException (Some 404))) u)" for n u
    by (simp add: seq_def still_there_simps ret_def calm_fails orc_names)
  from this [of 99] have "gone_loop calm_world new_orchestrator 100 u =
      (Ended (Inr ()), record_call (ReadPod ''evaluation-sandbox'' POD) (Some (ApiException (Some 404))) u)" for u
    by simp
  then have "delete_old_sandbox_pod calm_world new_orchestrator 100 True s =
      (Ended (Inr ()), record_call (ReadPod ''evaluation-sandbox'' POD) (Some (ApiException (Some 404)))
      (record_call (DeletePod ''evaluation-sandbox'' POD) None s))"
    by (simp add: delete_old_sandbox_pod_def tolerating_def calm orc_names)
  moreover have "getenv calm_world ''EXCHANGE_HOST'' ''10.0.2.2'' = ''10.0.2.2''"
    by (simp add: getenv_def calm_world_def)
  ultimately show ?thesis
    by (simp add: spawn_contestant_sandbox_pod_def calm image_for_def orc_names)
qed

lemma calm_wait:
  assumes "slept (calls s) = 0"
  shows "wait_for_agent_completion calm_world new_orchestrator 100 60 s =
    (Ended (Inr ()), record_call (ReadPodLog ''evaluation-sandbox'' POD) None
       (record_call (ReadPodStatus ''evaluation-sandbox'' POD) None (record_call Now None (record_call Now None s))))"
proof -
  have "rbind (num_float (PyI 60)) (\<lambda>d. Inr (fadd (Fin 0) d)) = Inr (Fin 60)"
    using num_float_small [of 60] to_f64_of_int [of 60] by simp
  moreover have "agent_loop calm_world new_orchestrator (Fin 60) (Suc n) (record_call Now None s) =
     (Ended (Inr True), record_call (ReadPodLog ''evaluation-sandbox'' POD) None
       (record_call (ReadPodStatus ''evaluation-sandbox'' POD) None (record_call Now None (record_call Now None s))))" for n
    using assms by (simp add: agent_loop.simps(2) calm orc_names ret_def)
  from this [of 99] have "agent_loop calm_world new_orchestrator (Fin 60) 100 (record_call Now None s) =
     (Ended (Inr True), record_call (ReadPodLog ''evaluation-sandbox'' POD) None
       (record_call (ReadPodStatus ''evaluation-sandbox'' POD) None (record_call Now None (record_call Now None s))))"
    by simp
  ultimately show ?thesis
    by (simp only: wait_for_agent_completion_def seq_observes calm_observed assms of_nat_0 seq_lift seq_done
        if_True ret_def)
qed

lemma calm_run:
  "\<exists>s p. run calm_world new_orchestrator 100 (default_args ''alice'') initial = (Ended (Inr ()), s) \<and>
     (CreatePod ''evaluation-sandbox'' p, None) \<in> set (calls s)"
proof -
  let ?up = "path_join ''/tmp/sandbox_uploads'' ''alice''"
  let ?args = "default_args ''alice''"
  have args: "sub_id ?args = ''alice''" "ra_duration ?args = 30" "\<not> keep_resources ?args"
    by (simp_all add: default_args_def)
  have "\<exists>u. evaluate calm_world new_orchestrator 100 ?args ''.'' s = (Ended (Inr ()), u) \<and> scoring_proc u \<and>
      (CreatePod ''evaluation-sandbox'' (contestant_pod new_orchestrator (image_for ''alice'') ''10.0.2.2''), None) \<in> set (calls u)"
    if "slept (calls s) = 0" for s
    using that
    by (simp add: evaluate_def ensure_namespace_def ensure_network_policy_def tolerating_def calm orc_names args
        calm_build calm_start calm_spawn calm_wait hold_proc_def)
  moreover have "\<exists>v. reap calm_world new_orchestrator ?args u = (Ended (Inr ()), v) \<and> set (calls u) \<subseteq> set (calls v)"
    if "scoring_proc u" for u
    using that
    by (simp add: reap_def holds_proc_def calm args cleanup_def delete_old_sandbox_pod_def tolerating_def orc_names ret_def)
      auto
  moreover have "run calm_world new_orchestrator 100 ?args initial =
      ensuring (evaluate calm_world new_orchestrator 100 ?args ''.'') (reap calm_world new_orchestrator ?args)
        ((record_call (PathExists ?up) None (record_call LoadIncluster None (record_call ImportKubernetes None initial)))
          \<lparr>scoring_proc := False\<rparr>)" (is "_ = ensuring _ _ ?s")
    by (simp add: run_def calm calm_connect args orc_names hold_proc_def Let_def)
  moreover have "slept (calls ?s) = 0" by (simp add: initial_def)
  ultimately obtain u v p where "evaluate calm_world new_orchestrator 100 ?args ''.'' ?s = (Ended (Inr ()), u)"
    "reap calm_world new_orchestrator ?args u = (Ended (Inr ()), v)" "set (calls u) \<subseteq> set (calls v)"
    "(CreatePod ''evaluation-sandbox'' p, None) \<in> set (calls u)"
    "run calm_world new_orchestrator 100 ?args initial =
      ensuring (evaluate calm_world new_orchestrator 100 ?args ''.'') (reap calm_world new_orchestrator ?args) ?s"
    by metis
  then show ?thesis by (auto simp: ensuring_def)
qed

section \<open>Properties of a run\<close>

text \<open>
  C27. A run leaves nothing behind, whatever ended it: once it has returned or raised, no scoring
  process it started is left running and, unless the resources are to be kept, no pod it created
  stays, provided that terminating, killing and deleting do not themselves fail (a wait that times out
  and a pod that is already gone are no failures).
\<close>

theorem run_reaps:
  assumes "reapable w orc args" "run w orc n args initial = (Ended r, s)"
  shows "\<not> scoring_left (calls s) \<and> (if keep_resources args then True else \<not> pod_left (calls s))"
  using reaped assms by blast

theorem run_reaps_witness:
  "\<exists>r s. run calm_world new_orchestrator 100 (default_args ''alice'') initial = (Ended r, s) \<and>
     \<not> scoring_left (calls s) \<and>
     (if keep_resources (default_args ''alice'') then True else \<not> pod_left (calls s))"
  using calm_run run_reaps [OF calm_reapable] by blast

text \<open>
  C28. A run ends: with a clock that advances by at least the time slept and a cluster that confirms
  the deletion of the old pod after at most \<open>k\<close> reads, neither loop outlasts its fuel of more than \<open>k\<close>
  and more than the duration and 31 seconds. It ends with success only when the pod was seen in a
  final phase.
\<close>

theorem run_ends:
  assumes "confirms k w orc" "timely k w" "k < n"
    and "0 \<le> ra_duration args + 30" "ra_duration args + 30 \<le> 2 ^ 40" "nat (ra_duration args + 30) + 1 < n"
  shows "\<exists>r s. run w orc n args initial = (Ended r, s) \<and> (if isl r then True else seen_final w orc (calls s))"
proof -
  obtain q s where q: "run w orc n args initial = (q, s)" by (cases "run w orc n args initial")
  with run_finishes [OF assms] obtain r where r: "q = Ended r" by (cases q) auto
  have "seen_final w orc (calls s)" if "\<not> isl r"
    using that run_seen q r by (cases r) auto
  with q r show ?thesis by auto
qed

theorem run_ends_witness:
  "\<exists>r s. run calm_world new_orchestrator 100 (default_args ''alice'') initial = (Ended r, s) \<and>
     (if isl r then True else seen_final calm_world new_orchestrator (calls s))"
  by (rule run_ends [OF calm_confirms calm_timely]) (simp_all add: default_args_def)

lemma gone_loop_spins:
  assumes "\<And>t. fails w t (ReadPod (o_namespace orc) POD) = Some (ApiException st)" "st \<noteq> Some 404"
  shows "gone_loop w orc n s =
    (Unfinished, s\<lparr>calls := calls s @ replicate n (ReadPod (o_namespace orc) POD, Some (ApiException st))\<rparr>)"
proof (induction n arbitrary: s)
  case (Suc n)
  have "still_there w orc s =
      (Ended (Inr True), record_call (ReadPod (o_namespace orc) POD) (Some (ApiException st)) s)"
    using assms by (simp add: still_there_simps)
  with Suc show ?case by (simp add: seq_def record_call_def)
qed (simp add: unfinished_def)

text \<open>
  C29. The wait for the old pod does not end when the cluster keeps refusing the read with a status
  other than 404, a missing permission for instance: with any fuel it is still waiting, and it has
  made nothing but reads, without a single pause between them.
\<close>

theorem refused_read_spins:
  assumes "\<And>t. fails w t (ReadPod (o_namespace orc) POD) = Some (ApiException st)" "st \<noteq> Some 404"
    and "fails w (calls s) (DeletePod (o_namespace orc) POD) = None"
  shows "delete_old_sandbox_pod w orc n True s =
    (Unfinished, s\<lparr>calls := calls s @ (DeletePod (o_namespace orc) POD, None) #
       replicate n (ReadPod (o_namespace orc) POD, Some (ApiException st))\<rparr>)"
proof -
  have "tolerating 404 (does w (DeletePod (o_namespace orc) POD)) s =
      (Ended (Inr ()), record_call (DeletePod (o_namespace orc) POD) None s)"
    using assms(3) by (simp add: tolerating_def catching_def does_def)
  with gone_loop_spins [OF assms(1,2), of n] show ?thesis
    by (simp add: delete_old_sandbox_pod_def andthen_def seq_def record_call_def)
qed

definition forbidding_world :: world where
  "forbidding_world = calm_world\<lparr>fails :=
     (\<lambda>t c. if c = ReadPod ''evaluation-sandbox'' POD then Some (ApiException (Some 403)) else None)\<rparr>"

theorem refused_read_spins_witness:
  "delete_old_sandbox_pod forbidding_world new_orchestrator 5 True initial =
    (Unfinished, initial\<lparr>calls := calls initial @ (DeletePod (o_namespace new_orchestrator) POD, None) #
       replicate 5 (ReadPod (o_namespace new_orchestrator) POD, Some (ApiException (Some 403)))\<rparr>)"
  by (rule refused_read_spins) (simp_all add: forbidding_world_def new_orchestrator_def)

section \<open>What a run does not heed\<close>

text \<open>\<open>main\<close> builds its orchestrator without the arguments for it, and nothing reads \<open>cpu\<close> and \<open>memory\<close>.\<close>

lemma main_ignores_arguments:
  "main w n (args\<lparr>ra_namespace := a, ra_repo_root := b, ra_cpu := c, ra_memory := d\<rparr>) = main w n args"
  by (simp add: main_def run_def evaluate_def reap_def)

text \<open>The engine's pod template has no seccomp profile, which the profile its namespace enforces asks for.\<close>

lemma engine_not_restricted: "\<not> restricted (d_template (engine_deployment orc c))"
  by (simp add: restricted_def engine_deployment_def)

end
