(* ===== verification/Api.thy ===== *)
theory Api
  imports Effects PyPath JsonText ScoringWorker
begin

text \<open>
  The web service of \<^verbatim>\<open>telemetry/api.py\<close>: \<open>read_leaderboard\<close>, \<open>receive_submission\<close> and the generator
  behind \<open>leaderboard_stream\<close>. Redis, the file system, the web framework and the clock are a \<open>site\<close>
  that answers each call from the trace of the calls before; a \<open>yield\<close> is a call too, and raises
  when the client has gone.
\<close>

section \<open>Calls\<close>

datatype api_call =
    FromUrl string
  | ZRevRange string int int
  | HGetAll string
  | CloseClient
  | SubscribeTo string
  | GetMessage
  | UnsubscribeFrom string
  | ClosePubsub
  | Monotonic
  | Pause
  | Yield string
  | IsPath string
  | RmTree string
  | MakeDirs string
  | SaveUpload string
  | ExtractAll string string
  | RemoveFile string
  | Launch "string list"

text \<open>A message of the channel by its \<open>type\<close>; None when the poll timed out.\<close>

record site =
  refuses :: "api_call trace \<Rightarrow> api_call \<Rightarrow> py_error option"
  board_at :: "api_call trace \<Rightarrow> (string \<times> pyfloat) list"
  hash_at :: "api_call trace \<Rightarrow> string \<Rightarrow> (string \<times> string) list"
  message_at :: "api_call trace \<Rightarrow> string option"
  monotonic_at :: "api_call trace \<Rightarrow> pyfloat"
  exists_at :: "api_call trace \<Rightarrow> string \<Rightarrow> bool"
  site_env :: "string \<Rightarrow> string option"
  interpreter :: string

type_synonym 'a api = "(api_call trace, 'a) act"

definition requests :: "site \<Rightarrow> (api_call trace \<Rightarrow> 'a) \<Rightarrow> api_call \<Rightarrow> 'a api" where
  "requests w f c t =
     (case refuses w t c of
        None \<Rightarrow> (Ended (Inr (f t)), t @ [(c, None)])
      | Some e \<Rightarrow> (Ended (Inl e), t @ [(c, Some e)]))"

abbreviation request :: "site \<Rightarrow> api_call \<Rightarrow> unit api" where
  "request w \<equiv> requests w (\<lambda>t. ())"

definition looks :: "(api_call trace \<Rightarrow> 'a) \<Rightarrow> api_call \<Rightarrow> 'a api" where
  "looks f c t = (Ended (Inr (f t)), t @ [(c, None)])"

interpretation requesting: outside_world "requests w f" "\<lambda>t. t" for w f
  by unfold_locales (auto simp: requests_def split: option.splits)

interpretation looking: outside_world "looks f" "\<lambda>t. t" for f
  by unfold_locales (auto simp: looks_def)

lemma seq_looks: "seq (looks f c) g t = g (f t) (t @ [(c, None)])"
  by (simp add: seq_def looks_def)

section \<open>The leaderboard\<close>

definition site_getenv :: "site \<Rightarrow> string \<Rightarrow> string \<Rightarrow> string" where
  "site_getenv w k dflt = (case site_env w k of None \<Rightarrow> dflt | Some v \<Rightarrow> v)"

definition REDIS_URL :: "site \<Rightarrow> string" where
  "REDIS_URL w = site_getenv w ''REDIS_URL'' ''redis://localhost:6379/0''"

definition LEADERBOARD_KEY :: "site \<Rightarrow> string" where
  "LEADERBOARD_KEY w = site_getenv w ''REDIS_LEADERBOARD_KEY'' ''leaderboard:scores''"

definition REDIS_CHANNEL :: "site \<Rightarrow> string" where
  "REDIS_CHANNEL w = site_getenv w ''REDIS_CHANNEL'' ''leaderboard_updates''"

text \<open>\<open>float(meta.get(k, 0))\<close> and \<open>int(float(meta.get(k, 0)))\<close>\<close>

definition meta_float :: "(string \<times> string) list \<Rightarrow> string \<Rightarrow> pyfloat result" where
  "meta_float meta k = (case map_of meta k of None \<Rightarrow> Inr (Fin 0) | Some v \<Rightarrow> parse_float v)"

definition meta_int :: "(string \<times> string) list \<Rightarrow> string \<Rightarrow> int result" where
  "meta_int meta k = rbind (meta_float meta k) (\<lambda>x. num_int (PyF x))"

definition meta_str :: "(string \<times> string) list \<Rightarrow> string \<Rightarrow> string \<Rightarrow> string" where
  "meta_str meta k dflt = (case map_of meta k of None \<Rightarrow> dflt | Some v \<Rightarrow> v)"

definition board_row :: "nat \<Rightarrow> string \<Rightarrow> pyfloat \<Rightarrow> (string \<times> string) list \<Rightarrow> dict result" where
  "board_row rank cid score meta =
     rbind (meta_float meta ''tps'') (\<lambda>tps.
     rbind (meta_float meta ''p50_lat_us'') (\<lambda>p50.
     rbind (meta_float meta ''p90_lat_us'') (\<lambda>p90.
     rbind (meta_float meta ''p99_lat_us'') (\<lambda>p99.
     rbind (meta_int meta ''total_events'') (\<lambda>total.
     rbind (meta_int meta ''last_match_id'') (\<lambda>match.
       Inr [(''rank'', JInt (int rank)), (''id'', JStr cid), (''score'', JNum (PyF score)),
            (''tps'', JNum (PyF tps)), (''p50_lat_us'', JNum (PyF p50)), (''p90_lat_us'', JNum (PyF p90)),
            (''p99_lat_us'', JNum (PyF p99)), (''correctness'', JStr (meta_str meta ''correctness'' ''UNKNOWN'')),
            (''total_events'', JInt total), (''last_match_id'', JInt match)]))))))"

definition meta_key :: "string \<Rightarrow> string" where
  "meta_key cid = ''contestant:meta:'' @ cid"

fun board_rows :: "site \<Rightarrow> nat \<Rightarrow> (string \<times> pyfloat) list \<Rightarrow> dict list api" where
  "board_rows w rank [] = ret []"
| "board_rows w rank ((cid, score) # scores) =
     seq (requests w (\<lambda>t. hash_at w t (meta_key cid)) (HGetAll (meta_key cid))) (\<lambda>meta.
     seq (lift (board_row rank cid score meta)) (\<lambda>row.
     seq (board_rows w (Suc rank) scores) (\<lambda>rows. ret (row # rows))))"

definition read_leaderboard :: "site \<Rightarrow> int \<Rightarrow> dict list api" where
  "read_leaderboard w limit =
     andthen (request w (FromUrl (REDIS_URL w)))
       (ensuring
         (seq (requests w (board_at w) (ZRevRange (LEADERBOARD_KEY w) 0 (limit - 1))) (board_rows w 1))
         (request w CloseClient))"

text \<open>The endpoint, and the guards the module runs through when it is imported.\<close>

definition leaderboard :: "site \<Rightarrow> dict list api" where
  "leaderboard w = read_leaderboard w 25"

definition api_import :: "bool \<Rightarrow> bool \<Rightarrow> unit result" where
  "api_import fastapi_found redis_found =
     (if \<not> fastapi_found then Inl RuntimeError else if \<not> redis_found then Inl RuntimeError else Inr ())"

section \<open>The stream\<close>

definition sse :: "json \<Rightarrow> string \<Rightarrow> string" where
  "sse data event =
     ''event: '' @ event @ [CHR 0x0A] @ ''data: '' @ json_dumps data @ [CHR 0x0A, CHR 0x0A]"

text \<open>
  One round of \<open>while True\<close>: the time of the last snapshot it leaves. The loop has no exit of its own.
\<close>

definition stream_round :: "site \<Rightarrow> pyfloat \<Rightarrow> pyfloat api" where
  "stream_round w prev =
     seq (requests w (message_at w) GetMessage) (\<lambda>message.
     seq (looks (monotonic_at w) Monotonic) (\<lambda>now.
     seq (if message = Some ''message''
          then seq (read_leaderboard w 25) (\<lambda>rows. andthen (request w (Yield (sse (JList (map JObj rows)) ''update''))) (ret now))
          else if fle (Fin 5) (fsub now prev)
          then seq (read_leaderboard w 25) (\<lambda>rows. andthen (request w (Yield (sse (JList (map JObj rows)) ''snapshot''))) (ret now))
          else ret prev) (\<lambda>upd.
     andthen (request w Pause) (ret upd))))"

fun stream_loop :: "site \<Rightarrow> nat \<Rightarrow> pyfloat \<Rightarrow> unit api" where
  "stream_loop w 0 prev = unfinished"
| "stream_loop w (Suc n) prev = seq (stream_round w prev) (stream_loop w n)"

definition close_stream :: "site \<Rightarrow> unit api" where
  "close_stream w =
     andthen (request w (UnsubscribeFrom (REDIS_CHANNEL w)))
    (andthen (request w ClosePubsub) (request w CloseClient))"

definition stream_events :: "site \<Rightarrow> nat \<Rightarrow> unit api" where
  "stream_events w fuel =
     andthen (request w (FromUrl (REDIS_URL w)))
    (andthen (request w (SubscribeTo (REDIS_CHANNEL w)))
    (ensuring
      (seq (read_leaderboard w 25) (\<lambda>rows.
       andthen (request w (Yield (sse (JList (map JObj rows)) ''snapshot''))) (stream_loop w fuel (Fin 0))))
      (close_stream w)))"

section \<open>Submissions\<close>

definition TMP_UPLOAD_DIR :: string where
  "TMP_UPLOAD_DIR = ''/tmp/sandbox_uploads''"

definition clear_dir :: "site \<Rightarrow> string \<Rightarrow> unit api" where
  "clear_dir w dir =
     seq (looks (\<lambda>t. exists_at w t dir) (IsPath dir)) (\<lambda>found. if found then request w (RmTree dir) else ret ())"

definition launch_command :: "site \<Rightarrow> string \<Rightarrow> string list" where
  "launch_command w cid = [interpreter w, ''infra/orchestrator.py'', ''--sub-id'', cid]"

definition unpack_and_launch :: "site \<Rightarrow> string \<Rightarrow> string \<Rightarrow> dict api" where
  "unpack_and_launch w cid dir =
     (let zip_file = path_join dir ''submission.zip''
      in andthen (request w (SaveUpload zip_file))
        (andthen (request w (ExtractAll zip_file dir))
        (andthen (request w (RemoveFile zip_file))
        (andthen (looks (\<lambda>t. ()) (Launch (launch_command w cid)))
        (ret [(''status'', JStr ''QUEUED''),
              (''message'', JStr (''Successfully extracted submission workspace configurations for '' @ cid @
                 ''. Sandbox build initiated.''))])))))"

definition receive_submission :: "site \<Rightarrow> string \<Rightarrow> string \<Rightarrow> dict api" where
  "receive_submission w filename cid =
     (if \<not> ends_with ''.zip'' filename then throw (HTTPException 400)
      else let dir = path_join TMP_UPLOAD_DIR cid
           in andthen (clear_dir w dir)
             (andthen (request w (MakeDirs dir))
             (catching (unpack_and_launch w cid dir)
               (\<lambda>e. if e = GeneratorExit then throw e
                     else andthen (clear_dir w dir) (throw (HTTPException 500))))))"

end
