(* ===== verification/ApiUpload.thy ===== *)
theory ApiUpload
  imports Api
begin

text \<open>
  What \<open>receive_submission\<close> does to the file system and when it launches an evaluation, and how the
  stream of the leaderboard ends.
\<close>

section \<open>Where an upload writes\<close>

text \<open>\<open>p\<close> is the contestant's directory below the upload directory, or a path below it.\<close>

definition in_dir :: "string \<Rightarrow> string \<Rightarrow> bool" where
  "in_dir cid p \<longleftrightarrow>
     starts_with [slash] p \<and> take 3 (norm_comps True p) = [''tmp'', ''sandbox_uploads'', cid]"

definition confined :: "string \<Rightarrow> api_call \<Rightarrow> bool" where
  "confined cid c \<longleftrightarrow>
     (case c of
        RmTree p \<Rightarrow> in_dir cid p
      | MakeDirs p \<Rightarrow> in_dir cid p
      | SaveUpload p \<Rightarrow> in_dir cid p
      | ExtractAll z p \<Rightarrow> in_dir cid z \<and> in_dir cid p
      | RemoveFile p \<Rightarrow> in_dir cid p
      | _ \<Rightarrow> True)"

lemma upload_dir_comps: "norm_comps True TMP_UPLOAD_DIR = [''tmp'', ''sandbox_uploads'']"
proof -
  have d: "TMP_UPLOAD_DIR = path_join (path_join ''/'' ''tmp'') ''sandbox_uploads''"
    by (simp add: TMP_UPLOAD_DIR_def path_join_def starts_with_def)
  have p: "plain ''tmp''" "plain ''sandbox_uploads''" by (simp_all add: plain_def)
  have b: "norm_comps True ''/'' = []" by (simp add: norm_comps_def norm_step_def)
  show ?thesis unfolding d norm_comps_join [OF p(2)] norm_comps_join [OF p(1)] b by simp
qed

lemma in_dir_both:
  assumes "plain cid"
  shows "in_dir cid (path_join TMP_UPLOAD_DIR cid)"
    and "in_dir cid (path_join (path_join TMP_UPLOAD_DIR cid) ''submission.zip'')"
proof -
  have s: "starts_with [slash] (path_join TMP_UPLOAD_DIR cid)"
    by (rule starts_with_path_join) (simp add: TMP_UPLOAD_DIR_def starts_with_def)
  have c: "norm_comps True (path_join TMP_UPLOAD_DIR cid) = [''tmp'', ''sandbox_uploads'', cid]"
    by (simp add: norm_comps_join [OF assms] upload_dir_comps)
  have "plain ''submission.zip''" by (simp add: plain_def)
  then have z: "norm_comps True (path_join (path_join TMP_UPLOAD_DIR cid) ''submission.zip'') =
      [''tmp'', ''sandbox_uploads'', cid, ''submission.zip'']"
    by (simp add: norm_comps_join c)
  show "in_dir cid (path_join TMP_UPLOAD_DIR cid)" unfolding in_dir_def c by (simp add: s)
  show "in_dir cid (path_join (path_join TMP_UPLOAD_DIR cid) ''submission.zip'')"
    unfolding in_dir_def z by (simp add: s starts_with_path_join)
qed

lemmas api_rules = adds_rules requesting.adds_does looking.adds_does

lemma adds_clear:
  "confined cid (RmTree dir) \<Longrightarrow> adds (\<lambda>t. t) (confined cid) (clear_dir w dir)"
  unfolding clear_dir_def by (auto intro!: api_rules simp: confined_def)

lemma adds_receive:
  assumes "plain cid"
  shows "adds (\<lambda>t. t) (confined cid) (receive_submission w filename cid)"
  unfolding receive_submission_def unpack_and_launch_def Let_def
  using in_dir_both [OF assms]
  by (auto intro!: api_rules adds_clear simp: confined_def)

section \<open>All or nothing\<close>

definition launches :: "api_call trace \<Rightarrow> nat" where
  "launches t = length (filter (\<lambda>x. case fst x of Launch cmd \<Rightarrow> True | _ \<Rightarrow> False) t)"

lemma launches_append [simp]: "launches (t @ u) = launches t + launches u"
  by (simp add: launches_def)

lemma launches_Cons [simp]:
  "launches [] = 0"
  "launches (x # t) = (case fst x of Launch cmd \<Rightarrow> Suc (launches t) | _ \<Rightarrow> launches t)"
  by (simp_all add: launches_def split: api_call.split)

definition extracted :: "string \<Rightarrow> api_call trace \<Rightarrow> bool" where
  "extracted dir t \<longleftrightarrow>
     (let z = path_join dir ''submission.zip''
      in (SaveUpload z, None) \<in> set t \<and> (ExtractAll z dir, None) \<in> set t \<and> (RemoveFile z, None) \<in> set t)"

text \<open>The workspace was removed last, or was not there.\<close>

definition cleared :: "string \<Rightarrow> api_call trace \<Rightarrow> bool" where
  "cleared dir t \<longleftrightarrow> t \<noteq> [] \<and> (last t = (RmTree dir, None) \<or> last t = (IsPath dir, None))"

text \<open>Only \<open>receive_submission\<close> itself raises an HTTPException.\<close>

definition http :: "py_error \<Rightarrow> bool" where
  "http e \<longleftrightarrow> (case e of HTTPException n \<Rightarrow> True | _ \<Rightarrow> False)"

definition no_http :: "site \<Rightarrow> bool" where
  "no_http w \<longleftrightarrow> (\<forall>t c. case refuses w t c of None \<Rightarrow> True | Some e \<Rightarrow> \<not> http e)"

lemma spec_request:
  assumes "no_http w" "\<And>t. P t \<Longrightarrow> Q (f t) (t @ [(c, None)])" "\<And>t e. P t \<Longrightarrow> \<not> http e \<Longrightarrow> E e (t @ [(c, Some e)])"
  shows "spec P (requests w f c) Q E"
  using assms unfolding spec_def no_http_def by (fastforce simp: requests_def split: option.splits)

lemma spec_looks: "(\<And>t. P t \<Longrightarrow> Q (f t) (t @ [(c, None)])) \<Longrightarrow> spec P (looks f c) Q E"
  by (simp add: spec_def looks_def)

lemma clear_dir_spec:
  assumes "no_http w"
  shows "spec (\<lambda>t. launches t = 0) (clear_dir w dir) (\<lambda>_ t. launches t = 0 \<and> cleared dir t)
    (\<lambda>e t. launches t = 0 \<and> \<not> http e)"
  unfolding clear_dir_def
proof (rule spec_seq)
  show "spec (\<lambda>t. launches t = 0) (looks (\<lambda>t. exists_at w t dir) (IsPath dir))
      (\<lambda>_ t. launches t = 0 \<and> cleared dir t) (\<lambda>e t. launches t = 0 \<and> \<not> http e)"
    by (rule spec_looks) (simp add: cleared_def)
  show "spec (\<lambda>t. launches t = 0 \<and> cleared dir t) (if found then request w (RmTree dir) else ret ())
      (\<lambda>_ t. launches t = 0 \<and> cleared dir t) (\<lambda>e t. launches t = 0 \<and> \<not> http e)" for found
    by (auto intro!: spec_request [OF assms] spec_ret simp: cleared_def)
qed

lemma unpack_spec:
  assumes "no_http w"
  shows "spec (\<lambda>t. launches t = 0) (unpack_and_launch w cid dir)
    (\<lambda>_ t. launches t = 1 \<and> extracted dir t \<and> last t = (Launch (launch_command w cid), None))
    (\<lambda>e t. launches t = 0 \<and> \<not> http e)"
proof -
  let ?z = "path_join dir ''submission.zip''"
  let ?E = "\<lambda>e t. launches t = 0 \<and> \<not> http e"
  let ?a = "\<lambda>t. launches t = 0 \<and> (SaveUpload ?z, None) \<in> set t"
  let ?b = "\<lambda>t. ?a t \<and> (ExtractAll ?z dir, None) \<in> set t"
  let ?c = "\<lambda>t. ?b t \<and> (RemoveFile ?z, None) \<in> set t"
  have abc: "spec (\<lambda>t. launches t = 0) (request w (SaveUpload ?z)) (\<lambda>_. ?a) ?E"
    "spec ?a (request w (ExtractAll ?z dir)) (\<lambda>_. ?b) ?E" "spec ?b (request w (RemoveFile ?z)) (\<lambda>_. ?c) ?E"
    by (rule spec_request [OF assms]; simp)+
  have "spec ?c (andthen (looks (\<lambda>t. ()) (Launch (launch_command w cid))) (ret v))
      (\<lambda>_ t. launches t = 1 \<and> extracted dir t \<and> last t = (Launch (launch_command w cid), None)) ?E" for v :: dict
    by (rule spec_andthen [OF spec_looks [where Q = "\<lambda>_ t. launches t = 1 \<and> extracted dir t \<and>
          last t = (Launch (launch_command w cid), None)"] spec_ret])
      (simp_all add: extracted_def Let_def)
  then show ?thesis
    unfolding unpack_and_launch_def Let_def
    by (rule spec_andthen [OF abc(1) spec_andthen [OF abc(2) spec_andthen [OF abc(3)]]])
qed

text \<open>How a submission ends: accepted and launched, refused, or failed.\<close>

definition accepted :: "site \<Rightarrow> string \<Rightarrow> api_call trace \<Rightarrow> bool" where
  "accepted w cid u \<longleftrightarrow>
     launches u = 1 \<and> extracted (path_join TMP_UPLOAD_DIR cid) u \<and> last u = (Launch (launch_command w cid), None)"

definition failed :: "string \<Rightarrow> py_error \<Rightarrow> api_call trace \<Rightarrow> bool" where
  "failed cid e u \<longleftrightarrow>
     launches u = 0 \<and>
     (if http e then e = HTTPException 400 \<and> u = [] \<or> e = HTTPException 500 \<and> cleared (path_join TMP_UPLOAD_DIR cid) u
      else True)"

lemma receive_spec:
  assumes "no_http w"
  shows "spec (\<lambda>t. t = []) (receive_submission w filename cid) (\<lambda>_. accepted w cid) (failed cid)"
proof (cases "ends_with ''.zip'' filename")
  case False
  then show ?thesis
    by (auto simp: receive_submission_def http_def failed_def intro!: spec_throw)
next
  case True
  let ?dir = "path_join TMP_UPLOAD_DIR cid"
  let ?E = "\<lambda>e t. launches t = 0 \<and> \<not> http e"
  let ?h = "\<lambda>e. if e = GeneratorExit then throw e else andthen (clear_dir w ?dir) (throw (HTTPException 500))"
  have 1: "spec (\<lambda>t. launches t = 0) (clear_dir w ?dir) (\<lambda>_ t. launches t = 0) (failed cid)"
    by (rule spec_conseq [OF clear_dir_spec [OF assms]]) (auto simp: failed_def)
  have 2: "spec (\<lambda>t. launches t = 0) (request w (MakeDirs ?dir)) (\<lambda>_ t. launches t = 0) (failed cid)"
    by (rule spec_request [OF assms]) (auto simp: failed_def)
  have h: "spec (?E e) (?h e) (\<lambda>_. accepted w cid) (failed cid)" for e
  proof (cases "e = GeneratorExit")
    case True
    then show ?thesis by (auto intro!: spec_throw simp: failed_def)
  next
    case False
    have "spec (?E e) (clear_dir w ?dir) (\<lambda>_ t. launches t = 0 \<and> cleared ?dir t) (failed cid)"
      by (rule spec_conseq [OF clear_dir_spec [OF assms]]) (auto simp: failed_def)
    with False show ?thesis
      by (auto intro!: spec_andthen spec_throw simp: failed_def http_def)
  qed
  have 3: "spec (\<lambda>t. launches t = 0) (catching (unpack_and_launch w cid ?dir) ?h) (\<lambda>_. accepted w cid) (failed cid)"
    by (rule spec_catching [OF spec_conseq [OF unpack_spec [OF assms]] h]) (auto simp: accepted_def)
  have "spec (\<lambda>t. launches t = 0) (receive_submission w filename cid) (\<lambda>_. accepted w cid) (failed cid)"
    using True spec_andthen [OF 1 spec_andthen [OF 2 3]] by (simp add: receive_submission_def Let_def)
  then show ?thesis by (rule spec_conseq) auto
qed

section \<open>Properties of an upload\<close>

definition full_disk :: site where
  "full_disk =
     \<lparr>refuses = (\<lambda>t c. case c of ExtractAll z d \<Rightarrow> Some BadZipFile | _ \<Rightarrow> None), board_at = (\<lambda>t. []),
      hash_at = (\<lambda>t k. []), message_at = (\<lambda>t. None), monotonic_at = (\<lambda>t. Fin 0), exists_at = (\<lambda>t p. True),
      site_env = (\<lambda>k. None), interpreter = ''python3''\<rparr>"

text \<open>
  C32. An upload stays in its place: for an identifier that is a plain name, every directory removed or
  made and every file written, unpacked or removed lies in the contestant's own directory below the
  upload directory, whatever the file system answers and however the request ends.
\<close>

theorem upload_confined:
  assumes "plain cid"
  shows "list_all (\<lambda>x. confined cid (fst x)) (snd (receive_submission w filename cid []))"
  using adds_receive [OF assms, of w filename] unfolding adds_def by (metis append_Nil)

theorem upload_confined_witness:
  "list_all (\<lambda>x. confined ''alice'' (fst x)) (snd (receive_submission full_disk ''bot.zip'' ''alice'' []))"
  by (rule upload_confined) (simp add: plain_def)

text \<open>An absolute identifier is the directory itself: it is removed, whatever it is.\<close>

lemma absolute_identifier_removed:
  assumes "starts_with [slash] cid" "ends_with ''.zip'' filename" "exists_at w [] cid"
  shows "\<exists>r. (RmTree cid, r) \<in> set (snd (receive_submission w filename cid []))"
proof -
  have d: "path_join TMP_UPLOAD_DIR cid = cid" using assms(1) by (simp add: path_join_def)
  let ?t = "[(IsPath cid, None), (RmTree cid, refuses w [(IsPath cid, None)] (RmTree cid))]"
  obtain r where r: "clear_dir w cid [] = (r, ?t)" "r \<noteq> Unfinished"
    using assms(3)
    by (cases "refuses w [(IsPath cid, None)] (RmTree cid)") (auto simp: clear_dir_def seq_looks requests_def)
  have "\<exists>v. snd (receive_submission w filename cid []) = ?t @ v"
  proof (cases r)
    case (Ended q)
    have "adds (\<lambda>t. t) (\<lambda>_. True) (andthen (request w (MakeDirs cid)) (catching (unpack_and_launch w cid cid)
        (\<lambda>e. if e = GeneratorExit then throw e else andthen (clear_dir w cid) (throw (HTTPException 500)))))"
      unfolding unpack_and_launch_def clear_dir_def Let_def by (auto intro!: api_rules)
    then obtain v where "snd (andthen (request w (MakeDirs cid)) (catching (unpack_and_launch w cid cid)
        (\<lambda>e. if e = GeneratorExit then throw e else andthen (clear_dir w cid) (throw (HTTPException 500)))) ?t) = ?t @ v"
      unfolding adds_def by blast
    with Ended r assms(2) show ?thesis
      by (cases q) (simp_all add: receive_submission_def d Let_def andthen_def seq_def)
  qed (use r in simp)
  then show ?thesis by auto
qed



section \<open>The stream lets go\<close>

text \<open>The last three calls of a stream that has subscribed, none of them refused.\<close>

definition let_go :: "site \<Rightarrow> api_call trace \<Rightarrow> bool" where
  "let_go w t \<longleftrightarrow>
     (\<exists>u. t = u @ [(UnsubscribeFrom (REDIS_CHANNEL w), None), (ClosePubsub, None), (CloseClient, None)])"

lemma close_stream_lets_go:
  "close_stream w t = (Ended (Inr x), u) \<Longrightarrow> let_go w u"
  by (auto simp: close_stream_def andthen_value requests_def let_go_def split: option.splits)

lemma stream_lets_go:
  assumes "stream_events w fuel t = (Ended r, u)"
    and "\<And>t. refuses w t (FromUrl (REDIS_URL w)) = None" "\<And>t. refuses w t (SubscribeTo (REDIS_CHANNEL w)) = None"
    and "\<And>t. refuses w t (UnsubscribeFrom (REDIS_CHANNEL w)) = None" "\<And>t. refuses w t ClosePubsub = None"
      "\<And>t. refuses w t CloseClient = None"
  shows "let_go w u"
proof -
  let ?t = "t @ [(FromUrl (REDIS_URL w), None)] @ [(SubscribeTo (REDIS_CHANNEL w), None)]"
  let ?body = "seq (read_leaderboard w 25) (\<lambda>rows.
      andthen (request w (Yield (sse (JList (map JObj rows)) ''snapshot''))) (stream_loop w fuel (Fin 0)))"
  have e: "ensuring ?body (close_stream w) ?t = (Ended r, u)"
    using assms(1-3) by (simp add: stream_events_def andthen_def seq_def requests_def)
  obtain q v where b: "?body ?t = (Ended q, v)"
    using e by (cases "?body ?t", cases "fst (?body ?t)") (auto simp: ensuring_def)
  have "close_stream w v = (Ended (Inr ()), v @ [(UnsubscribeFrom (REDIS_CHANNEL w), None),
      (ClosePubsub, None), (CloseClient, None)])"
    using assms(4-6) by (simp add: close_stream_def andthen_def seq_def requests_def)
  with e b show ?thesis unfolding let_go_def by (auto simp: ensuring_def)
qed

end
