(* ===== verification/ApiBoard.thy ===== *)
theory ApiBoard
  imports Api ScoringFigures
begin

text \<open>
  From the scoring worker to the dashboard: the figures \<open>publish_metrics\<close> writes into Redis are the
  figures \<open>read_leaderboard\<close> returns. Redis keeps a hash field as text; the client writes a number by
  its \<open>repr\<close>, which \<open>stored_text\<close> states.
\<close>

section \<open>Numbers through Redis\<close>

fun stored_text :: "json \<Rightarrow> string" where
  "stored_text (JStr s) = s"
| "stored_text (JNum (PyI n)) = show_int n"
| "stored_text (JNum (PyF x)) = float_repr x"
| "stored_text _ = []"

definition holds_dict :: "(string \<times> string) list \<Rightarrow> dict \<Rightarrow> bool" where
  "holds_dict meta d \<longleftrightarrow> list_all (\<lambda>(k, v). map_of meta k = Some (stored_text v)) d"

lemma decimal_text_show_nat: "decimal_text (show_nat n)"
  by (simp add: decimal_text_def show_nat_edges)

lemma parse_decimal_show_nat: "parse_decimal (show_nat n) = Some (n, 0)"
proof -
  have d: "list_all is_digit (show_nat n)" by (rule show_nat_digits)
  then have "list_all (\<lambda>c. is_digit c \<or> c = CHR ''.'') (show_nat n)" by (auto simp: list_all_iff)
  with mantissa_plain [OF d show_nat_nonempty] show ?thesis
    by (simp add: decimal_positional digits_val_show_nat)
qed

lemma parse_float_show_int: "\<bar>n\<bar> \<le> 2 ^ 53 \<Longrightarrow> parse_float (show_int n) = Inr (Fin (of_int n))"
  using parse_float_text [OF decimal_text_show_nat parse_decimal_show_nat, of "nat \<bar>n\<bar>"] to_f64_of_int [of "\<bar>n\<bar>"]
  by (auto simp: show_int_def)

lemma stored_number: "storable a \<Longrightarrow> parse_float (stored_text (JNum a)) = Inr (num_exact a)"
  by (cases a) (auto simp: storable_def parse_float_show_int parse_float_repr)

lemma stored_int: "\<bar>n\<bar> \<le> 2 ^ 53 \<Longrightarrow> rbind (parse_float (stored_text (JInt n))) (\<lambda>x. num_int (PyF x)) = Inr n"
  by (simp add: JInt_def parse_float_show_int rat_trunc_def)

section \<open>The rows\<close>

definition shown_row :: "nat \<Rightarrow> string \<Rightarrow> metrics \<Rightarrow> dict" where
  "shown_row rank cid m =
     [(''rank'', JInt (int rank)), (''id'', JStr cid), (''score'', JNum (PyF (num_exact (m_score m)))),
      (''tps'', JNum (PyF (num_exact (m_tps m)))), (''p50_lat_us'', JNum (PyF (num_exact (m_p50_lat_us m)))),
      (''p90_lat_us'', JNum (PyF (num_exact (m_p90_lat_us m)))),
      (''p99_lat_us'', JNum (PyF (num_exact (m_p99_lat_us m)))), (''correctness'', JStr (m_correctness m)),
      (''total_events'', JInt (m_total_events m)), (''last_match_id'', JInt (m_last_match_id m))]"

definition publishable :: "metrics \<Rightarrow> bool" where
  "publishable m \<longleftrightarrow>
     list_all storable [m_tps m, m_p50_lat_us m, m_p90_lat_us m, m_p99_lat_us m, m_score m] \<and>
     \<bar>m_total_events m\<bar> \<le> 2 ^ 53 \<and> \<bar>m_last_match_id m\<bar> \<le> 2 ^ 53"

lemma board_row_shows:
  assumes "publishable m" "holds_dict meta (metrics_dict m)"
  shows "board_row rank cid (num_exact (m_score m)) meta = Inr (shown_row rank cid m)"
proof -
  have h: "map_of meta ''tps'' = Some (stored_text (JNum (m_tps m)))"
    "map_of meta ''p50_lat_us'' = Some (stored_text (JNum (m_p50_lat_us m)))"
    "map_of meta ''p90_lat_us'' = Some (stored_text (JNum (m_p90_lat_us m)))"
    "map_of meta ''p99_lat_us'' = Some (stored_text (JNum (m_p99_lat_us m)))"
    "map_of meta ''correctness'' = Some (m_correctness m)"
    "map_of meta ''total_events'' = Some (stored_text (JInt (m_total_events m)))"
    "map_of meta ''last_match_id'' = Some (stored_text (JInt (m_last_match_id m)))"
    using assms(2) by (simp_all add: holds_dict_def metrics_dict_def)
  have f: "meta_float meta k = Inr (num_exact a)" if "map_of meta k = Some (stored_text (JNum a))" "storable a" for k a
    using that by (simp add: meta_float_def stored_number)
  have i: "meta_int meta k = Inr n" if "map_of meta k = Some (stored_text (JInt n))" "\<bar>n\<bar> \<le> 2 ^ 53" for k n
    unfolding meta_int_def meta_float_def that(1) option.case by (rule stored_int [OF that(2)])
  have s: "storable (m_tps m)" "storable (m_p50_lat_us m)" "storable (m_p90_lat_us m)" "storable (m_p99_lat_us m)"
    "\<bar>m_total_events m\<bar> \<le> 2 ^ 53" "\<bar>m_last_match_id m\<bar> \<le> 2 ^ 53"
    using assms(1) by (simp_all add: publishable_def)
  show ?thesis
    unfolding board_row_def f [OF h(1) s(1)] f [OF h(2) s(2)] f [OF h(3) s(3)] f [OF h(4) s(4)]
      i [OF h(6) s(5)] i [OF h(7) s(6)] rbind.simps meta_str_def h(5) option.case shown_row_def ..
qed

text \<open>A store that lists the contestants \<open>ids\<close> and holds what was published for each.\<close>

definition serves :: "site \<Rightarrow> string list \<Rightarrow> (string \<Rightarrow> metrics) \<Rightarrow> bool" where
  "serves w ids pub \<longleftrightarrow>
     (\<forall>t c. refuses w t c = None) \<and>
     (\<forall>t. board_at w t = map (\<lambda>cid. (cid, num_exact (m_score (pub cid)))) ids) \<and>
     (\<forall>t. \<forall>cid \<in> set ids. holds_dict (hash_at w t (meta_key cid)) (metrics_dict (pub cid)))"

definition shown_rows :: "nat \<Rightarrow> string list \<Rightarrow> (string \<Rightarrow> metrics) \<Rightarrow> dict list" where
  "shown_rows n ids pub = map (\<lambda>(i, cid). shown_row i cid (pub cid)) (enumerate n ids)"

lemma board_rows_show:
  assumes "\<And>t c. refuses w t c = None"
    and "\<And>t cid. cid \<in> set ids \<Longrightarrow> holds_dict (hash_at w t (meta_key cid)) (metrics_dict (pub cid)) \<and> publishable (pub cid)"
  shows "fst (board_rows w n (map (\<lambda>cid. (cid, num_exact (m_score (pub cid)))) ids) t) =
    Ended (Inr (shown_rows n ids pub))"
  using assms(2)
proof (induction ids arbitrary: n t)
  case Nil
  then show ?case by (simp add: ret_def shown_rows_def)
next
  case (Cons cid ids)
  let ?t = "t @ [(HGetAll (meta_key cid), None)]"
  have r: "board_row n cid (num_exact (m_score (pub cid))) (hash_at w t (meta_key cid)) = Inr (shown_row n cid (pub cid))"
    using Cons.prems [of cid t] board_row_shows by simp
  obtain u where u: "board_rows w (Suc n) (map (\<lambda>cid. (cid, num_exact (m_score (pub cid)))) ids) ?t =
      (Ended (Inr (shown_rows (Suc n) ids pub)), u)"
    using Cons.IH [of "Suc n" ?t] Cons.prems
    by (cases "board_rows w (Suc n) (map (\<lambda>cid. (cid, num_exact (m_score (pub cid)))) ids) ?t") auto
  have "requests w (\<lambda>t. hash_at w t (meta_key cid)) (HGetAll (meta_key cid)) t =
      (Ended (Inr (hash_at w t (meta_key cid))), ?t)"
    using assms(1) by (simp add: requests_def)
  then show ?case using r u by (simp add: seq_done seq_lift ret_def shown_rows_def)
qed

lemma leaderboard_served:
  assumes "serves w ids pub" "list_all (\<lambda>cid. publishable (pub cid)) ids"
  shows "fst (read_leaderboard w limit t) = Ended (Inr (shown_rows 1 ids pub)) \<and>
    last (snd (read_leaderboard w limit t)) = (CloseClient, None)"
proof -
  let ?t1 = "t @ [(FromUrl (REDIS_URL w), None)]"
  let ?t2 = "?t1 @ [(ZRevRange (LEADERBOARD_KEY w) 0 (limit - 1), None)]"
  have r: "requests w f c t = (Ended (Inr (f t)), t @ [(c, None)])" for f :: "api_call trace \<Rightarrow> 'a" and c t
    using assms(1) by (simp add: requests_def serves_def)
  have b: "board_at w t = map (\<lambda>cid. (cid, num_exact (m_score (pub cid)))) ids" for t
    using assms(1) by (simp add: serves_def)
  have "fst (board_rows w 1 (board_at w t) u) = Ended (Inr (shown_rows 1 ids pub))" for t u
    unfolding b by (rule board_rows_show) (use assms in \<open>auto simp: serves_def list_all_iff\<close>)
  then obtain v where v: "board_rows w 1 (board_at w ?t1) ?t2 = (Ended (Inr (shown_rows 1 ids pub)), v)"
    by (cases "board_rows w 1 (board_at w ?t1) ?t2") (metis fst_conv)
  have s: "seq (requests w (board_at w) (ZRevRange (LEADERBOARD_KEY w) 0 (limit - 1))) (board_rows w 1) ?t1 =
      (Ended (Inr (shown_rows 1 ids pub)), v)"
    unfolding v [symmetric] by (rule seq_done) (rule r)
  have "read_leaderboard w limit t = (Ended (Inr (shown_rows 1 ids pub)), v @ [(CloseClient, None)])"
  proof -
    have "andthen (request w c) n t = n (t @ [(c, None)])" for c t and n :: "dict list api"
      by (rule andthen_done) (rule r)
    then show ?thesis unfolding read_leaderboard_def ensuring_def by (simp add: s r del: One_nat_def)
  qed
  then show ?thesis by simp
qed

section \<open>The dashboard\<close>

text \<open>What a worker publishes: computed metrics, or those with the score of a disqualification.\<close>

definition reported :: "metrics \<Rightarrow> bool" where
  "reported m \<longleftrightarrow>
     (\<exists>now st st' m'. metrics now st = Inr (m', st') \<and> (m = m' \<or> m = m'\<lparr>m_score := PyF (Fin (- 1))\<rparr>) \<and>
        float_ok (window_seconds st) \<and> 0 \<le> total_events st \<and> total_events st \<le> 2 ^ 53 \<and>
        (case last_match_id st of None \<Rightarrow> True | Some l \<Rightarrow> \<bar>l\<bar> \<le> 2 ^ 53))"

lemma reported_publishable: "reported m \<Longrightarrow> publishable m"
proof -
  assume "reported m"
  then obtain now st st' m' where r: "metrics now st = Inr (m', st')"
    "m = m' \<or> m = m'\<lparr>m_score := PyF (Fin (- 1))\<rparr>" "float_ok (window_seconds st)"
    "0 \<le> total_events st" "total_events st \<le> 2 ^ 53"
    "case last_match_id st of None \<Rightarrow> True | Some l \<Rightarrow> \<bar>l\<bar> \<le> 2 ^ 53"
    unfolding reported_def by blast
  have c: "m_total_events m' = total_events st"
    "m_last_match_id m' = (case last_match_id st of None \<Rightarrow> 0 | Some l \<Rightarrow> l)"
    using r(1) by (auto simp: metrics_def Let_def prune_def)
  have "storable (PyF (Fin (- 1)))" by (simp add: storable_def rnd_minus)
  with metrics_storable [OF r(1,3)] r(2,4,5,6) c show ?thesis
    by (auto simp: publishable_def split: option.splits)
qed

text \<open>
  C31. The dashboard shows what the scoring engine computed: with the hashes holding what the workers
  published, \<open>read_leaderboard\<close> returns one row per contestant, ranked in the order of the sorted set,
  with exactly the published rates, latencies, scores, verdicts and counts (every double survives its
  way through text), and closes its connection.
\<close>

theorem leaderboard_shows_published:
  assumes "serves w ids pub" "list_all (\<lambda>cid. reported (pub cid)) ids"
  shows "fst (read_leaderboard w limit t) = Ended (Inr (shown_rows 1 ids pub)) \<and>
    last (snd (read_leaderboard w limit t)) = (CloseClient, None)"
  by (rule leaderboard_served [OF assms(1)])
    (use assms(2) reported_publishable in \<open>auto simp: list_all_iff\<close>)

definition sample_site :: "metrics \<Rightarrow> site" where
  "sample_site m =
     \<lparr>refuses = (\<lambda>t c. None), board_at = (\<lambda>t. [(''alice'', num_exact (m_score m))]),
      hash_at = (\<lambda>t k. map (\<lambda>(k, v). (k, stored_text v)) (metrics_dict m)),
      message_at = (\<lambda>t. None), monotonic_at = (\<lambda>t. Fin 0), exists_at = (\<lambda>t p. False),
      site_env = (\<lambda>k. None), interpreter = ''python3''\<rparr>"

lemma sample_site_serves: "serves (sample_site m) [''alice''] (\<lambda>cid. m)"
  by (simp add: serves_def sample_site_def holds_dict_def metrics_dict_def)

theorem leaderboard_shows_published_witness:
  "\<exists>m. fst (read_leaderboard (sample_site m) 25 []) = Ended (Inr (shown_rows 1 [''alice''] (\<lambda>cid. m))) \<and>
     last (snd (read_leaderboard (sample_site m) 25 [])) = (CloseClient, None)"
proof -
  have "samples_ok (new_contestant (Fin 10))" by (simp add: samples_ok_def new_contestant_def)
  from metrics_total [OF this, of "Fin 1"] obtain m where
    "metrics (Fin 1) (new_contestant (Fin 10)) = Inr (m, prune (Fin 1) (new_contestant (Fin 10)))" by blast
  moreover have "float_ok (window_seconds (new_contestant (Fin 10)))" "total_events (new_contestant (Fin 10)) = 0"
    "last_match_id (new_contestant (Fin 10)) = None"
    using float_ok_of_int [of 10] by (simp_all add: new_contestant_def)
  ultimately have "reported m" unfolding reported_def by (metis (no_types) eq_refl zero_le_power zero_le_numeral option.case(1))
  with leaderboard_shows_published [OF sample_site_serves, of m 25 "[]"] show ?thesis by auto
qed

end
