(* ===== verification/ApiStream.thy ===== *)
theory ApiStream
  imports ApiBoard JsonLines
begin

text \<open>
  What travels on the stream of \<^verbatim>\<open>telemetry/api.py\<close>: every text the generator yields is one event
  as a browser's \<open>EventSource\<close> reads it, whatever names and texts the leaderboard holds.
\<close>

section \<open>Reading an event\<close>

text \<open>
  The event stream format: fields of one line each, ended by an empty line. A receiver takes the event's
  name from the field \<open>event\<close> and its value from the field \<open>data\<close>.
\<close>

definition read_event :: "string \<Rightarrow> (string \<times> json) option" where
  "read_event text =
     (case splitlines text of
        [name, data, blank] \<Rightarrow>
          if starts_with ''event: '' name \<and> starts_with ''data: '' data \<and> blank = []
          then (case json_loads (drop 6 data) of Inr v \<Rightarrow> Some (drop 7 name, v) | Inl e \<Rightarrow> None)
          else None
      | _ \<Rightarrow> None)"

lemma read_sse:
  assumes "json_ok data" "one_line event"
  shows "read_event (sse data event) = Some (event, data)"
proof -
  have n: "one_line (''event: '' @ event)" "one_line (''data: '' @ json_dumps data)"
    using assms(2) one_line_dumps [OF assms(1)] by (simp_all add: one_line_def is_boundary_def)
  have "lines_from [] (sse data event) = [''event: '' @ event, ''data: '' @ json_dumps data, []]"
    using lines_from_line [OF n(1), of "[]" "''data: '' @ json_dumps data @ [CHR 0x0A, CHR 0x0A]"]
      lines_from_line [OF n(2), of "[]" "[CHR 0x0A]"]
    by (simp add: sse_def is_boundary_def)
  then have "splitlines (sse data event) = [''event: '' @ event, ''data: '' @ json_dumps data, []]"
    by (simp only: splitlines_def)
  then show ?thesis
    using starts_with_append [of "''event: ''" event] starts_with_append [of "''data: ''" "json_dumps data"]
    by (simp add: read_event_def loads_dumps [OF assms(1)] del: starts_with_Cons)
qed

section \<open>Rows are JSON\<close>

lemma parse_float_ok: "parse_float s = Inr x \<Longrightarrow> float_ok x"
  by (auto simp: parse_float_def Let_def split: prod.splits if_splits option.splits)

lemma meta_float_ok: "meta_float meta k = Inr x \<Longrightarrow> float_ok x"
  using parse_float_ok float_ok_of_int [of 0] by (auto simp: meta_float_def split: option.splits)

lemma board_row_ok: "float_ok score \<Longrightarrow> board_row rank cid score meta = Inr row \<Longrightarrow> json_ok (JObj row)"
  by (auto simp: board_row_def JInt_def dest: meta_float_ok)

section \<open>Every event of a run\<close>

text \<open>An event carries a name of the stream and a list of rows, and is read as just that.\<close>

definition framed :: "api_call \<Rightarrow> bool" where
  "framed c \<longleftrightarrow>
     (case c of
        Yield text \<Rightarrow>
          (\<exists>event rows. (event = ''snapshot'' \<or> event = ''update'') \<and>
             text = sse (JList (map JObj rows)) event \<and> read_event text = Some (event, JList (map JObj rows)))
      | _ \<Rightarrow> True)"

abbreviation framed_so_far :: "api_call trace \<Rightarrow> bool" where
  "framed_so_far \<equiv> every_call (\<lambda>t. framed)"

text \<open>\<open>m\<close> yields nothing but whole events, and returns a value with \<open>R\<close>.\<close>

abbreviation frames :: "'a api \<Rightarrow> ('a \<Rightarrow> bool) \<Rightarrow> bool" where
  "frames m R \<equiv> yields framed_so_far m framed_so_far (\<lambda>a _. R a)"

lemma frames_request: "framed c \<Longrightarrow> (\<And>t. R (f t)) \<Longrightarrow> frames (requests w f c) R"
  by (auto simp: yields_def requests_def split: option.split)

lemma frames_look: "framed c \<Longrightarrow> frames (looks f c) (\<lambda>_. True)"
  by (auto simp: yields_def looks_def)

lemma frames_seq: "frames m R \<Longrightarrow> (\<And>a. R a \<Longrightarrow> frames (f a) S) \<Longrightarrow> frames (seq m f) S"
proof (erule yields_seq)
  fix a assume "\<And>a. R a \<Longrightarrow> frames (f a) S"
  then show "yields (\<lambda>s. framed_so_far s \<and> R a) (f a) framed_so_far (\<lambda>a _. S a)"
    by (auto simp: yields_def)
qed

lemma frames_andthen: "frames m (\<lambda>_. True) \<Longrightarrow> frames n S \<Longrightarrow> frames (andthen m n) S"
  unfolding andthen_def by (rule frames_seq)

lemma frames_ret: "R a \<Longrightarrow> frames (ret a) R"
  by (rule yields_ret) simp

lemma frames_weaken: "frames m R \<Longrightarrow> (\<And>a. R a \<Longrightarrow> S a) \<Longrightarrow> frames m S"
  by (erule yields_conseq)

lemmas frames_rules = frames_request frames_look frames_andthen frames_ret

definition rows_ok :: "dict list \<Rightarrow> bool" where
  "rows_ok rows \<longleftrightarrow> list_all (\<lambda>d. json_ok (JObj d)) rows"

definition scores_ok :: "site \<Rightarrow> bool" where
  "scores_ok w \<longleftrightarrow> (\<forall>t. list_all (\<lambda>s. float_ok (snd s)) (board_at w t))"

lemma frames_rows: "list_all (\<lambda>s. float_ok (snd s)) scores \<Longrightarrow> frames (board_rows w n scores) rows_ok"
proof (induction scores arbitrary: n)
  case (Cons s scores)
  obtain cid score where s: "s = (cid, score)" by (cases s)
  have row: "frames (lift (board_row n cid score meta)) (\<lambda>row. json_ok (JObj row))" for meta
    using Cons.prems s by (intro yields_lift) (auto dest: board_row_ok simp del: json_ok.simps)
  have "frames (board_rows w (Suc n) scores) rows_ok" using Cons by simp
  then show ?case
    unfolding s board_rows.simps
    by (intro frames_seq [OF frames_request [where R = "\<lambda>_. True"]] frames_seq [OF row] frames_seq frames_ret)
      (auto simp: framed_def rows_ok_def simp del: json_ok.simps)
qed (simp add: frames_ret rows_ok_def)

lemma frames_board: "scores_ok w \<Longrightarrow> frames (read_leaderboard w k) rows_ok"
  unfolding read_leaderboard_def
proof (rule frames_andthen)
  assume ok: "scores_ok w"
  have z: "frames (requests w (board_at w) (ZRevRange (LEADERBOARD_KEY w) 0 (k - 1)))
      (list_all (\<lambda>s. float_ok (snd s)))"
    using ok by (intro frames_request) (simp_all add: framed_def scores_ok_def)
  have "frames (request w CloseClient) (\<lambda>_. True)" by (rule frames_request) (simp_all add: framed_def)
  then show "frames (ensuring (seq (requests w (board_at w) (ZRevRange (LEADERBOARD_KEY w) 0 (k - 1)))
      (board_rows w 1)) (request w CloseClient)) rows_ok"
    using frames_seq [OF z frames_rows] by (rule yields_ensuring [rotated])
qed (rule frames_request, simp_all add: framed_def)

lemma frames_yield:
  "rows_ok rows \<Longrightarrow> event = ''snapshot'' \<or> event = ''update'' \<Longrightarrow>
     frames (request w (Yield (sse (JList (map JObj rows)) event))) (\<lambda>_. True)"
proof (rule frames_request)
  assume r: "rows_ok rows" "event = ''snapshot'' \<or> event = ''update''"
  have "one_line event" using r(2) by (auto simp: one_line_def is_boundary_def)
  moreover have "json_ok (JList (map JObj rows))"
    using r(1) by (simp add: rows_ok_def list.pred_map comp_def)
  ultimately show "framed (Yield (sse (JList (map JObj rows)) event))"
    using r(2) read_sse unfolding framed_def by auto
qed simp

lemma frames_push:
  "scores_ok w \<Longrightarrow> event = ''snapshot'' \<or> event = ''update'' \<Longrightarrow>
     frames (seq (read_leaderboard w 25) (\<lambda>rows.
       andthen (request w (Yield (sse (JList (map JObj rows)) event))) (ret now))) (\<lambda>_. True)"
  by (intro frames_seq [OF frames_board] frames_andthen frames_yield frames_ret) simp_all

lemma frames_round: "scores_ok w \<Longrightarrow> frames (stream_round w prev) (\<lambda>_. True)"
proof -
  assume ok: "scores_ok w"
  have req: "frames (request w Pause) (\<lambda>_. True)" by (rule frames_request) (simp_all add: framed_def)
  have "frames (andthen (request w Pause) (ret x)) (\<lambda>_. True)" for x :: pyfloat
    by (intro frames_andthen req frames_ret) simp
  then show ?thesis
    unfolding stream_round_def
    by (intro frames_seq [OF frames_request [where R = "\<lambda>_. True"]] frames_seq [OF frames_look]
        frames_seq [where R = "\<lambda>_. True"])
      (auto simp: framed_def ok intro!: frames_push intro: frames_ret)
qed

lemma frames_loop: "scores_ok w \<Longrightarrow> frames (stream_loop w n prev) (\<lambda>_. True)"
proof (induction n arbitrary: prev)
  case 0
  show ?case by (auto intro: yields_stop)
next
  case (Suc n)
  show ?case unfolding stream_loop.simps by (rule frames_seq [OF frames_round [OF Suc.prems] Suc.IH [OF Suc.prems]])
qed

lemma frames_events: "scores_ok w \<Longrightarrow> frames (stream_events w n) (\<lambda>_. True)"
proof -
  assume ok: "scores_ok w"
  have req: "frames (request w c) (\<lambda>_. True)" if "framed c" for c by (rule frames_request [OF that]) simp
  have "frames (close_stream w) (\<lambda>_. True)"
    unfolding close_stream_def by (intro frames_andthen req) (simp_all add: framed_def)
  moreover have "frames (seq (read_leaderboard w 25) (\<lambda>rows.
       andthen (request w (Yield (sse (JList (map JObj rows)) ''snapshot''))) (stream_loop w n (Fin 0)))) (\<lambda>_. True)"
    by (intro frames_seq [OF frames_board [OF ok]] frames_andthen frames_yield frames_loop [OF ok]) simp_all
  ultimately show ?thesis
    unfolding stream_events_def
    by (intro frames_andthen req yields_ensuring) (simp_all add: framed_def)
qed

text \<open>
  C37. An event of the stream cannot be forged: in every run of the generator, whatever happens around
  it and whatever line breaks and control characters the leaderboard's names and texts hold, each text it
  yields is read back as exactly one event, with the very rows it was made from.
\<close>

theorem stream_events_framed:
  assumes "scores_ok w"
  shows "every_call (\<lambda>t. framed) (snd (stream_events w n []))"
  using frames_events [OF assms, of n] by (simp add: yields_def)

definition hostile_site :: site where
  "hostile_site =
     \<lparr>refuses = (\<lambda>t c. None), board_at = (\<lambda>t. [(''x'' @ [CHR 0x0A, CHR 0x0A] @ ''event: update'', Fin 1)]),
      hash_at = (\<lambda>t k. []), message_at = (\<lambda>t. None), monotonic_at = (\<lambda>t. Fin 0),
      exists_at = (\<lambda>t p. False), site_env = (\<lambda>k. None), interpreter = ''python3''\<rparr>"

theorem stream_events_framed_witness:
  "every_call (\<lambda>t. framed) (snd (stream_events hostile_site 3 []))"
  by (rule stream_events_framed) (simp add: scores_ok_def hostile_site_def)

end
