(* ===== verification/ApiTypes.thy ===== *)
theory ApiTypes
  imports Api
begin

text \<open>
  The type of the leaderboard: whatever strings the hashes in Redis hold, a response has the ten fields
  the frontend reads, each of its type, and consecutive ranks. A field that is no number makes the
  request raise instead.
\<close>

datatype field_type = IntField | FloatField | TextField

fun has_type :: "json \<Rightarrow> field_type \<Rightarrow> bool" where
  "has_type (JNum (PyI n)) ty \<longleftrightarrow> ty = IntField"
| "has_type (JNum (PyF x)) ty \<longleftrightarrow> ty = FloatField"
| "has_type (JStr s) ty \<longleftrightarrow> ty = TextField"
| "has_type _ ty \<longleftrightarrow> False"

definition ROW_TYPE :: "(string \<times> field_type) list" where
  "ROW_TYPE = [(''rank'', IntField), (''id'', TextField), (''score'', FloatField), (''tps'', FloatField),
     (''p50_lat_us'', FloatField), (''p90_lat_us'', FloatField), (''p99_lat_us'', FloatField),
     (''correctness'', TextField), (''total_events'', IntField), (''last_match_id'', IntField)]"

definition row_typed :: "dict \<Rightarrow> bool" where
  "row_typed row \<longleftrightarrow> list_all2 (\<lambda>(k, v) (k', ty). k = k' \<and> has_type v ty) row ROW_TYPE"

lemma board_row_typed:
  "board_row rank cid score meta = Inr row \<Longrightarrow>
     row_typed row \<and> map_of row ''rank'' = Some (JInt (int rank)) \<and> map_of row ''id'' = Some (JStr cid)"
  by (auto simp: board_row_def row_typed_def ROW_TYPE_def JInt_def)

definition board_typed :: "nat \<Rightarrow> dict list \<Rightarrow> bool" where
  "board_typed n rows \<longleftrightarrow> list_all row_typed rows \<and>
     map (\<lambda>row. map_of row ''rank'') rows = map (\<lambda>i. Some (JInt (int i))) [n..<n + length rows]"

lemma board_rows_typed:
  "board_rows w n scores t = (Ended (Inr rows), t') \<Longrightarrow>
     board_typed n rows \<and> map (\<lambda>row. map_of row ''id'') rows = map (\<lambda>s. Some (JStr (fst s))) scores"
proof (induction scores arbitrary: n t rows t')
  case Nil
  then show ?case by (simp add: ret_def board_typed_def)
next
  case (Cons s scores)
  obtain cid score where s: "s = (cid, score)" by (cases s)
  obtain meta row rest u v where r: "board_row n cid score meta = Inr row"
    "board_rows w (Suc n) scores u = (Ended (Inr rest), v)" "rows = row # rest"
    using Cons.prems unfolding s board_rows.simps seq_value by (auto simp: lift_def ret_def split: sum.splits)
  have "[n..<n + length rows] = n # [Suc n..<Suc n + length rest]" by (simp add: r(3) upt_conv_Cons del: upt_Suc)
  with Cons.IH [OF r(2)] board_row_typed [OF r(1)] show ?case by (simp add: board_typed_def r(3) s del: upt_Suc)
qed

text \<open>
  C40. The leaderboard is typed. Whatever Redis answers, and in whatever states between the calls: if the
  endpoint returns rows, each has exactly the ten fields the frontend reads, in order, integers, doubles
  and texts as promised; the ranks count from one; and the connection was closed last.
\<close>

theorem leaderboard_typed:
  assumes "leaderboard w t = (Ended (Inr rows), t')"
  shows "list_all row_typed rows \<and>
         map (\<lambda>row. map_of row ''rank'') rows = map (\<lambda>i. Some (JInt (int i))) [1..<1 + length rows] \<and>
         last t' = (CloseClient, None)"
proof -
  obtain scores u v where b: "board_rows w 1 scores u = (Ended (Inr rows), v)"
    "request w CloseClient v = (Ended (Inr ()), t')"
    using assms unfolding leaderboard_def read_leaderboard_def andthen_value ensuring_value seq_value by auto
  from b(2) have "t' = v @ [(CloseClient, None)]" by (auto simp: requests_def split: option.splits)
  with board_rows_typed [OF b(1)] show ?thesis by (simp add: board_typed_def)
qed

text \<open>A store with one contestant whose hash has only the verdict.\<close>

definition ragged_site :: site where
  "ragged_site =
     \<lparr>refuses = (\<lambda>t c. None), board_at = (\<lambda>t. [(''alice'', Fin 2)]),
      hash_at = (\<lambda>t k. [(''correctness'', ''PASSED'')]), message_at = (\<lambda>t. None),
      monotonic_at = (\<lambda>t. Fin 0), exists_at = (\<lambda>t p. False), site_env = (\<lambda>k. None), interpreter = ''python3''\<rparr>"

theorem leaderboard_typed_witness:
  "\<exists>rows t'. leaderboard ragged_site [] = (Ended (Inr rows), t') \<and> length rows = 1 \<and> list_all row_typed rows \<and>
     last t' = (CloseClient, None)"
proof -
  have "\<exists>rows t'. leaderboard ragged_site [] = (Ended (Inr rows), t') \<and> length rows = 1"
    by (simp add: leaderboard_def read_leaderboard_def andthen_value ensuring_value seq_value requests_def
        ragged_site_def lift_def ret_def board_row_def meta_float_def meta_int_def rat_trunc_def)
  then obtain rows t' where r: "leaderboard ragged_site [] = (Ended (Inr rows), t')" "length rows = 1" by blast
  with leaderboard_typed [OF r(1)] show ?thesis by blast
qed

end
