(* ===== verification/ScoringMain.thy ===== *)
theory ScoringMain
  imports ScoringSelfTest ArgParse Effects
begin

text \<open>
  The entry point of the scoring worker, \<open>main\<close> of \<^verbatim>\<open>telemetry/scoring_engine.py\<close>: the command
  line with its defaults from the environment, the self test, the checks of the installed packages,
  and the Redis client and Kafka consumer it builds before the loop of \<open>ScoringWorker\<close>.
\<close>

section \<open>The command line\<close>

definition scoring_options :: options where
  "scoring_options =
     [(''--kafka-brokers'', TextArg), (''--topic'', TextArg), (''--group-id'', TextArg),
      (''--offset-reset'', TextArg), (''--contestant-id'', TextArg), (''--redis-url'', TextArg),
      (''--leaderboard-key'', TextArg), (''--channel'', TextArg), (''--window-seconds'', FloatArg),
      (''--metrics-interval-ms'', FloatArg), (''--self-test'', Switch)]"

record scoring_args = worker_args +
  kafka_brokers :: string
  topic :: string
  group_id :: string
  offset_reset :: string
  redis_url :: string
  window_arg :: pyfloat
  self_test :: bool

definition env_or :: "(string \<Rightarrow> string option) \<Rightarrow> string \<Rightarrow> string \<Rightarrow> string" where
  "env_or env k dflt = (case env k of None \<Rightarrow> dflt | Some v \<Rightarrow> v)"

text \<open>The two float defaults are converted while the parser is built, before any argument is read.\<close>

definition scoring_parse :: "(string \<Rightarrow> string option) \<Rightarrow> string list \<Rightarrow> scoring_args parsed result" where
  "scoring_parse env argv =
     rbind (parse_float (env_or env ''WINDOW_SECONDS'' ''1.0'')) (\<lambda>window.
     rbind (parse_float (env_or env ''METRICS_INTERVAL_MS'' ''1000'')) (\<lambda>interval.
       Inr (on_parsed (\<lambda>ns.
         \<lparr>contestant_id = text_arg ns ''--contestant-id'' (env_or env ''CONTESTANT_ID'' ''default''),
          channel = text_arg ns ''--channel'' (env_or env ''REDIS_CHANNEL'' ''leaderboard_updates''),
          leaderboard_key = text_arg ns ''--leaderboard-key''
            (env_or env ''REDIS_LEADERBOARD_KEY'' ''leaderboard:scores''),
          metrics_interval_ms = float_arg ns ''--metrics-interval-ms'' interval,
          kafka_brokers = text_arg ns ''--kafka-brokers'' (env_or env ''KAFKA_BROKERS'' ''localhost:9092''),
          topic = text_arg ns ''--topic'' (env_or env ''KAFKA_TOPIC'' ''trade-events''),
          group_id = text_arg ns ''--group-id'' (env_or env ''SCORING_GROUP_ID'' ''scoring-engine''),
          offset_reset = text_arg ns ''--offset-reset'' (env_or env ''KAFKA_OFFSET_RESET'' ''earliest''),
          redis_url = text_arg ns ''--redis-url'' (env_or env ''REDIS_URL'' ''redis://localhost:6379/0''),
          window_arg = float_arg ns ''--window-seconds'' window,
          self_test = switched ns ''--self-test''\<rparr>)
         (parse_args scoring_options [] argv))))"

section \<open>The clients\<close>

datatype setup_call =
    RedisClient string
  | Ping
  | NewConsumer "(string \<times> string) list"
  | Subscribe "string list"

text \<open>
  Where the worker runs: its environment, which packages are installed, the exception a client call
  raises, the clocks of the self test and the loop's \<open>env\<close>.
\<close>

record scoring_site =
  site_environ :: "string \<Rightarrow> string option"
  redis_installed :: bool
  kafka_installed :: bool
  setup_fails :: "setup_call list \<Rightarrow> setup_call \<Rightarrow> py_error option"
  wall_ns :: int
  loop_env :: env

definition sets_up :: "scoring_site \<Rightarrow> setup_call \<Rightarrow> (setup_call list, unit) act" where
  "sets_up s c t =
     (case setup_fails s t c of None \<Rightarrow> (Ended (Inr ()), t @ [c]) | Some e \<Rightarrow> (Ended (Inl e), t))"

definition consumer_config :: "scoring_args \<Rightarrow> (string \<times> string) list" where
  "consumer_config a =
     [(''bootstrap.servers'', kafka_brokers a), (''group.id'', group_id a),
      (''auto.offset.reset'', offset_reset a), (''enable.auto.commit'', ''true''),
      (''fetch.wait.max.ms'', ''1''), (''queued.min.messages'', ''100000'')]"

definition make_consumer :: "scoring_site \<Rightarrow> scoring_args \<Rightarrow> (setup_call list, unit) act" where
  "make_consumer s a =
     (if \<not> kafka_installed s then throw RuntimeError
      else andthen (sets_up s (NewConsumer (consumer_config a))) (sets_up s (Subscribe [topic a])))"

definition open_clients :: "scoring_site \<Rightarrow> scoring_args \<Rightarrow> (setup_call list, unit) act" where
  "open_clients s a =
     (if \<not> redis_installed s then throw RuntimeError
      else andthen (sets_up s (RedisClient (redis_url a))) (andthen (sets_up s Ping) (make_consumer s a)))"

section \<open>The program\<close>

datatype scoring_end =
    Usage nat
  | SelfTested "metrics result"
  | Crashed py_error
  | Worked worker ctrl

text \<open>\<open>msgs\<close> are the polls made until a signal clears \<open>running\<close>.\<close>

definition scoring_main :: "scoring_site \<Rightarrow> string list \<Rightarrow> poll list \<Rightarrow> setup_call list \<times> scoring_end" where
  "scoring_main s argv msgs =
     (case scoring_parse (site_environ s) argv of
        Inl e \<Rightarrow> ([], Crashed e)
      | Inr (Exit c) \<Rightarrow> ([], Usage c)
      | Inr (Args a) \<Rightarrow>
          if self_test a then ([], SelfTested (run_self_test (wall_ns s) (clock (loop_env s))))
          else case open_clients s a [] of
                 (Ended (Inr u), t) \<Rightarrow>
                   (let (w, c) = worker_main (loop_env s) (worker_args.truncate a) (window_arg a) msgs
                    in (t, Worked w c))
               | (Ended (Inl e), t) \<Rightarrow> (t, Crashed e)
               | (Unfinished, t) \<Rightarrow> (t, Crashed RuntimeError))"

lemma long_scoring_options [simp]: "long_options scoring_options"
  by (simp add: long_options_def scoring_options_def starts_with_def)

section \<open>Addressing\<close>

text \<open>A command that concerns one contestant: its score, its hash, or a message about it.\<close>

fun about :: "string \<Rightarrow> redis_cmd \<Rightarrow> bool" where
  "about cid (ZAdd key members) \<longleftrightarrow> map fst members = [cid]"
| "about cid (HSet key d) \<longleftrightarrow> key = ''contestant:meta:'' @ cid"
| "about cid (Publish ch j) \<longleftrightarrow> (case j of JObj d \<Rightarrow> map_of d ''id'' = Some (JStr cid) | _ \<Rightarrow> False)"

definition addressed :: "string \<Rightarrow> worker \<Rightarrow> bool" where
  "addressed cid w \<longleftrightarrow> list_all (about cid) (w_cmds w)"

lemma addressed_simps [simp]:
  "addressed cid (w\<lparr>w_reads := n\<rparr>) = addressed cid w" "addressed cid (w\<lparr>w_last_metrics := t\<rparr>) = addressed cid w"
  "addressed cid (w\<lparr>w_out := o'\<rparr>) = addressed cid w" "addressed cid (w\<lparr>w_closed := b\<rparr>) = addressed cid w"
  "addressed cid (w\<lparr>w_state := st\<rparr>) = addressed cid w" "addressed cid (print_json s m w) = addressed cid w"
  by (simp_all add: addressed_def print_json_def)

lemma addressed_send: "addressed cid w \<Longrightarrow> about cid c \<Longrightarrow> addressed cid (fst (redis_send io c w))"
  by (simp add: redis_send_def addressed_def split: option.splits)

lemma addressed_then:
  "addressed cid (fst r) \<Longrightarrow> (\<And>w. addressed cid w \<Longrightarrow> addressed cid (fst (f w))) \<Longrightarrow> addressed cid (fst (and_then r f))"
  by (cases "(r, f)" rule: and_then.cases) auto

lemma addressed_publish:
  "addressed (contestant_id a) w \<Longrightarrow> addressed (contestant_id a) (fst (publish_metrics io a m w))"
  unfolding publish_metrics_def
  by (intro addressed_then addressed_send) (simp_all add: map_of_dict_merge metrics_dict_def map_add_def)

lemma addressed_metrics:
  "addressed cid w \<Longrightarrow> (\<And>m w. addressed cid w \<Longrightarrow> addressed cid (fst (k m w))) \<Longrightarrow>
     addressed cid (fst (take_metrics io w k))"
  by (simp add: take_metrics_def read_clock_def split: sum.splits prod.splits)

lemma addressed_disqualify:
  assumes "addressed (contestant_id a) w"
  shows "addressed (contestant_id a) (fst (disqualify io a reason w (\<lambda>m w. (print_json s m w, Returned))))"
  unfolding disqualify_def Let_def
  by (rule addressed_metrics, simp add: assms, rule addressed_then, erule addressed_publish, simp)

lemma addressed_events:
  "addressed (contestant_id a) w \<Longrightarrow> addressed (contestant_id a) (fst (worker_events io a es w))"
proof (induction es arbitrary: w)
  case (Cons e es)
  show ?case
  proof (cases "validate (w_state w) e")
    case None
    with Cons show ?thesis by (simp add: read_clock_def)
  qed (simp add: addressed_disqualify Cons.prems)
qed simp

lemma addressed_report:
  assumes "addressed (contestant_id a) w"
  shows "addressed (contestant_id a) (fst (worker_report io a w))"
proof -
  have "addressed (contestant_id a) (fst (take_metrics io (w\<lparr>w_reads := Suc (w_reads w)\<rparr>)
      (\<lambda>m w. and_then (publish_metrics io a m w) (\<lambda>w. ((print_json ''ok'' m w)\<lparr>w_last_metrics := now\<rparr>, Running)))))"
    for now
    by (rule addressed_metrics, simp add: assms, rule addressed_then, erule addressed_publish, simp)
  then show ?thesis using assms by (simp add: worker_report_def read_clock_def)
qed

lemma addressed_iter:
  assumes "addressed (contestant_id a) w"
  shows "addressed (contestant_id a) (fst (worker_iter io a msg w))"
  unfolding worker_iter_def
proof (rule addressed_then)
  show "addressed (contestant_id a) (fst (worker_message io a msg w))"
    using assms by (simp add: worker_message_def addressed_events split: poll.split sum.split)
qed (rule addressed_report)

lemma addressed_loop:
  "addressed (contestant_id a) w \<Longrightarrow> addressed (contestant_id a) (fst (worker_loop io a msgs w))"
proof (induction msgs arbitrary: w)
  case (Cons msg msgs)
  then show ?case unfolding worker_loop.simps by (intro addressed_then addressed_iter)
qed simp

lemma worker_addressed: "list_all (about (contestant_id a)) (w_cmds (fst (worker_main io a window msgs)))"
proof -
  have "addressed (contestant_id a) (new_worker io window)" by (simp add: addressed_def new_worker_def)
  from addressed_loop [OF this, of io msgs] show ?thesis
    by (cases "worker_loop io a msgs (new_worker io window)") (simp add: worker_main_def addressed_def)
qed

section \<open>Setting up\<close>

lemma open_clients_ok:
  assumes "redis_installed s" "kafka_installed s" "setup_fails s = (\<lambda>_ _. None)"
  shows "open_clients s a [] =
    (Ended (Inr ()), [RedisClient (redis_url a), Ping, NewConsumer (consumer_config a), Subscribe [topic a]])"
  using assms by (simp add: open_clients_def make_consumer_def sets_up_def andthen_def seq_def)

text \<open>The clients are opened or an exception is raised.\<close>

lemma open_clients_ends: "fst (open_clients s a t) \<noteq> Unfinished"
  by (auto simp: open_clients_def make_consumer_def sets_up_def andthen_def seq_def throw_def
      split: option.splits)

end
