(* ===== verification/Launches.thy ===== *)
theory Launches
  imports ApiBoard OrchSafety ScoringMain
begin

text \<open>
  The chain of processes behind a submission: the web service starts the orchestrator with the
  contestant's identifier, and the orchestrator starts the scoring worker. Each program reads its own
  command line.
\<close>

section \<open>The orchestrator's command line\<close>

definition orch_options :: options where
  "orch_options =
     [(''--sub-id'', TextArg), (''--namespace'', TextArg), (''--repo-root'', TextArg),
      (''--keep-resources'', Switch), (''--cpu'', TextArg), (''--memory'', TextArg), (''--duration'', IntArg)]"

definition orch_parse :: "string list \<Rightarrow> run_args parsed" where
  "orch_parse argv =
     on_parsed (\<lambda>ns. let d = default_args (text_arg ns ''--sub-id'' []) in
       \<lparr>sub_id = sub_id d, ra_namespace = text_arg ns ''--namespace'' (ra_namespace d),
        ra_repo_root = text_arg ns ''--repo-root'' (ra_repo_root d),
        keep_resources = switched ns ''--keep-resources'', ra_cpu = text_arg ns ''--cpu'' (ra_cpu d),
        ra_memory = text_arg ns ''--memory'' (ra_memory d),
        ra_duration = int_arg ns ''--duration'' (ra_duration d)\<rparr>)
       (parse_args orch_options [''--sub-id''] argv)"

text \<open>The program: a usage error ends it before its first call.\<close>

definition orchestrator_script :: "world \<Rightarrow> nat \<Rightarrow> string list \<Rightarrow> (nat + unit outcome) \<times> orch" where
  "orchestrator_script w fuel argv =
     (case orch_parse argv of
        Exit c \<Rightarrow> (Inl c, initial)
      | Args a \<Rightarrow> (let (r, s) = Orchestrator.main w fuel a initial in (Inr r, s)))"

lemma long_orch_options [simp]: "long_options orch_options"
  by (simp add: long_options_def orch_options_def starts_with_def)

lemma orch_launch_parsed:
  "orch_parse (drop 2 (launch_command site cid)) =
     (if takes_value orch_options cid then Args (default_args cid) else Exit 2)"
proof -
  have c: "drop 2 (launch_command site cid) = flat_pairs [(''--sub-id'', cid)]"
    by (simp add: launch_command_def)
  have k: "kind_of orch_options ''--sub-id'' = TextArg" by (simp add: kind_of_def orch_options_def)
  show ?thesis
    unfolding orch_parse_def c
    by (subst parse_pairs)
      (simp_all add: k usable_def stored_def valued_def text_arg_def int_arg_def switched_def default_args_def,
       simp_all add: orch_options_def)
qed

section \<open>The worker's command line\<close>

lemma scoring_kinds [simp]:
  "kind_of scoring_options ''--kafka-brokers'' = TextArg" "kind_of scoring_options ''--topic'' = TextArg"
  "kind_of scoring_options ''--group-id'' = TextArg" "kind_of scoring_options ''--offset-reset'' = TextArg"
  "kind_of scoring_options ''--contestant-id'' = TextArg" "kind_of scoring_options ''--redis-url'' = TextArg"
  "kind_of scoring_options ''--window-seconds'' = FloatArg"
  "kind_of scoring_options ''--metrics-interval-ms'' = FloatArg"
  by (simp_all add: kind_of_def scoring_options_def)

text \<open>An environment the worker starts in: its number settings are numbers, its addresses no options.\<close>

definition plain_arg :: "string \<Rightarrow> bool" where
  "plain_arg s \<longleftrightarrow> s = [] \<or> hd s \<noteq> CHR ''-''"

definition worker_env_ok :: "(string \<Rightarrow> string option) \<Rightarrow> bool" where
  "worker_env_ok env \<longleftrightarrow>
     plain_arg (env_or env ''KAFKA_BROKERS'' ''localhost:9092'') \<and>
     plain_arg (env_or env ''KAFKA_TOPIC'' ''trade-events'') \<and>
     plain_arg (env_or env ''REDIS_URL'' ''redis://localhost:6379/0'') \<and>
     (\<exists>x. parse_float (env_or env ''WINDOW_SECONDS'' ''1.0'') = Inr x) \<and>
     (\<exists>x. parse_float (env_or env ''METRICS_INTERVAL_MS'' ''1000'') = Inr x)"

definition worker_settings :: "(string \<Rightarrow> string option) \<Rightarrow> string \<Rightarrow> int \<Rightarrow> scoring_args" where
  "worker_settings env cid now =
     \<lparr>contestant_id = cid, channel = env_or env ''REDIS_CHANNEL'' ''leaderboard_updates'',
      leaderboard_key = env_or env ''REDIS_LEADERBOARD_KEY'' ''leaderboard:scores'',
      metrics_interval_ms = Fin 1000, kafka_brokers = env_or env ''KAFKA_BROKERS'' ''localhost:9092'',
      topic = env_or env ''KAFKA_TOPIC'' ''trade-events'',
      group_id = ''scoring-'' @ cid @ ''-'' @ show_int now, offset_reset = ''latest'',
      redis_url = env_or env ''REDIS_URL'' ''redis://localhost:6379/0'', window_arg = Fin 10,
      self_test = False\<rparr>"

lemma getenv_env_or: "getenv w k d = env_or (environ w) k d"
  by (simp add: getenv_def env_or_def split: option.split)

lemma scoring_command_pairs:
  "drop 3 (scoring_command w orc cid now) =
     flat_pairs [(''--kafka-brokers'', env_or (environ w) ''KAFKA_BROKERS'' ''localhost:9092''),
       (''--topic'', env_or (environ w) ''KAFKA_TOPIC'' ''trade-events''),
       (''--group-id'', ''scoring-'' @ cid @ ''-'' @ show_int now), (''--offset-reset'', ''latest''),
       (''--contestant-id'', cid), (''--redis-url'', env_or (environ w) ''REDIS_URL'' ''redis://localhost:6379/0''),
       (''--window-seconds'', ''10''), (''--metrics-interval-ms'', ''1000'')]"
  by (simp add: scoring_command_def getenv_env_or)

lemma parse_numbers: "parse_float ''10'' = Inr (Fin 10)" "parse_float ''1000'' = Inr (Fin 1000)"
proof -
  have "show_int 10 = ''10''" "show_int 1000 = ''1000''" by code_simp+
  then show "parse_float ''10'' = Inr (Fin 10)" "parse_float ''1000'' = Inr (Fin 1000)"
    using parse_float_show_int [of 10] parse_float_show_int [of 1000] by simp_all
qed

lemma scoring_command_parsed:
  assumes "worker_env_ok (environ w)" "plain_arg cid"
  shows "scoring_parse (environ w) (drop 3 (scoring_command w orc cid now)) =
           Inr (Args (worker_settings (environ w) cid now))"
proof -
  obtain x y where n: "parse_float (env_or (environ w) ''WINDOW_SECONDS'' ''1.0'') = Inr x"
    "parse_float (env_or (environ w) ''METRICS_INTERVAL_MS'' ''1000'') = Inr y"
    using assms(1) by (auto simp: worker_env_ok_def)
  have plain: "takes_value scoring_options s" if "plain_arg s" for s
    using that by (intro takes_plain) (simp add: plain_arg_def)
  have t: "takes_value scoring_options (env_or (environ w) ''KAFKA_BROKERS'' ''localhost:9092'')"
    "takes_value scoring_options (env_or (environ w) ''KAFKA_TOPIC'' ''trade-events'')"
    "takes_value scoring_options (env_or (environ w) ''REDIS_URL'' ''redis://localhost:6379/0'')"
    "takes_value scoring_options cid"
    using assms by (simp_all add: worker_env_ok_def plain)
  show ?thesis
    unfolding scoring_parse_def scoring_command_pairs n
    by (simp only: rbind.simps, subst parse_pairs)
      (simp_all add: t parse_numbers usable_def stored_def valued_def text_arg_def float_arg_def switched_def
        worker_settings_def, simp_all add: scoring_options_def)
qed

section \<open>What the orchestrator starts\<close>

text \<open>The only process a run starts is the scoring worker of its own contestant.\<close>

definition starts_own :: "world \<Rightarrow> orchestrator \<Rightarrow> string \<Rightarrow> call \<Rightarrow> bool" where
  "starts_own w orc cid c \<longleftrightarrow> (\<forall>cmd. c = Popen cmd \<longrightarrow> (\<exists>now. cmd = scoring_command w orc cid now))"

lemma starts_own_simps [simp]:
  "starts_own w orc cid (Popen (scoring_command w orc cid now))"
  "(\<And>cmd. c \<noteq> Popen cmd) \<Longrightarrow> starts_own w orc cid c"
  by (auto simp: starts_own_def)

lemma own_loops:
  "adds calls (starts_own w orc cid) (gone_loop w orc n)"
  "adds calls (starts_own w orc cid) (agent_loop w orc d n)"
  by (induction n)
    (auto intro!: call_rules simp: still_there_def gone_loop.simps agent_loop.simps split: py_error.split)

lemma own_delete: "adds calls (starts_own w orc cid) (delete_old_sandbox_pod w orc n b)"
  unfolding delete_old_sandbox_pod_def by (auto intro!: call_rules own_loops)

lemma own_evaluate: "adds calls (starts_own w orc (sub_id args)) (evaluate w orc fuel args dir)"
  unfolding evaluate_def ensure_namespace_def ensure_network_policy_def auto_detect_and_build_def
    find_script_def start_scoring_engine_def spawn_contestant_sandbox_pod_def
    wait_for_agent_completion_def Let_def
  by (auto intro!: call_rules own_loops own_delete)

lemma own_run: "adds calls (starts_own w orc (sub_id args)) (run w orc fuel args)"
  unfolding run_def connect_def reap_def cleanup_def Let_def
  by (auto intro!: call_rules own_evaluate own_delete split: py_error.split)

lemma own_calls:
  "list_all (\<lambda>x. starts_own w orc (sub_id args) (fst x)) (calls (snd (run w orc fuel args initial)))"
proof -
  have "calls initial = []" by (simp add: initial_def)
  then show ?thesis using own_run [of w orc args fuel] unfolding adds_def by (metis append_Nil)
qed

lemma script_runs:
  "takes_value orch_options cid \<Longrightarrow> snd (orchestrator_script w fuel (drop 2 (launch_command site cid))) =
     snd (run w new_orchestrator fuel (default_args cid) initial)"
  by (simp add: orchestrator_script_def orch_launch_parsed main_def case_prod_beta)

text \<open>
  C38. What becomes of a submission that was answered QUEUED. The orchestrator the web service starts
  evaluates exactly the submitted identifier, with the default settings, when its parser takes the
  identifier for a value; otherwise, as for an identifier like \<open>-team\<close>, it ends with the usage error 2
  before it has done anything at all.
\<close>

theorem launched_orchestrator:
  "orchestrator_script w fuel (drop 2 (launch_command site cid)) =
     (if takes_value orch_options cid
      then (Inr (fst (Orchestrator.main w fuel (default_args cid) initial)),
            snd (Orchestrator.main w fuel (default_args cid) initial))
      else (Inl 2, initial)) \<and>
   orchestrator_script w fuel (drop 2 (launch_command site ''-team'')) = (Inl 2, initial)"
proof -
  have "\<not> takes_value orch_options ''-team''" by code_simp
  then show ?thesis
    by (simp add: orchestrator_script_def orch_launch_parsed Let_def split: prod.splits)
qed


definition quiet_site :: scoring_site where
  "quiet_site =
     \<lparr>site_environ = (\<lambda>k. None), redis_installed = True, kafka_installed = True,
      setup_fails = (\<lambda>_ _. None), wall_ns = 10000,
      loop_env = \<lparr>clock = (\<lambda>n. Fin (of_nat n)), time_ns = (\<lambda>n. 10000), redis_fails = (\<lambda>_ _. None)\<rparr>\<rparr>"

lemma calm_starts:
  "\<exists>cmd. (Popen cmd, None) \<in> set (calls (snd (run calm_world new_orchestrator 100 (default_args ''alice'') initial)))"
proof -
  obtain s p where s: "run calm_world new_orchestrator 100 (default_args ''alice'') initial = (Ended (Inr ()), s)"
    "(CreatePod ''evaluation-sandbox'' p, None) \<in> set (calls s)"
    using calm_run by blast
  from run_guarded [OF s(1)] obtain dir where
    g: "every_call (launch_ok calm_world new_orchestrator (default_args ''alice'') dir) (calls s)" by blast
  from s(2) obtain i where i: "i < length (calls s)" "fst (calls s ! i) = CreatePod ''evaluation-sandbox'' p"
    by (metis fst_conv in_set_conv_nth)
  with g have "launch_ok calm_world new_orchestrator (default_args ''alice'') dir (take i (calls s))
      (CreatePod ''evaluation-sandbox'' p)" unfolding every_call_def by metis
  then show ?thesis using s(1) by (auto simp: launch_ok_def scored_def dest: in_set_takeD)
qed

lemma default_env_ok: "worker_env_ok (\<lambda>k. None)"
proof -
  have d: "parse_decimal ''1.0'' = Some (10, - 1)" by code_simp
  have "strip ''1.0'' = ''1.0''" "map ascii_lower ''1.0'' = ''1.0''" by code_simp+
  with d have "\<exists>x. parse_float ''1.0'' = Inr x" by (simp add: parse_float_def Let_def)
  then show ?thesis using parse_numbers by (simp add: worker_env_ok_def env_or_def plain_arg_def)
qed


end
