(* ===== verification/Engine.thy ===== *)
theory Engine
  imports TradeEvents
begin

text \<open>
  The matching engine of \<^verbatim>\<open>matching-engine/MatchingEngine.cpp\<close> on the order book of
  \<^verbatim>\<open>OrderBook.h\<close>: \<open>addOrder\<close>, \<open>matching\<close>, \<open>eraseAt\<close>, \<open>cancelOrder\<close> and the body of
  \<open>processLoop\<close>. A \<open>std::map\<close> from prices to vectors is the list of its entries in the map's order, the
  \<open>unordered_map\<close> of locations a map. Integers are mathematical; where the code converts between widths
  the wrap-around is written out. The clock is read by position, and the queue to the Kafka thread takes
  or refuses each event.
\<close>

section \<open>Orders and the book\<close>

record order =
  OrderId :: int
  quantity :: int
  IsBuy :: bool
  limit_price :: pyfloat
  t0 :: int
  t1 :: int
  seqNo :: int

text \<open>The conversions: an \<open>int\<close> of an unsigned integer, an unsigned integer of an \<open>int\<close>.\<close>

definition to_int32 :: "int \<Rightarrow> int" where
  "to_int32 n = (n + 2 ^ 31) mod 2 ^ 32 - 2 ^ 31"

definition to_u64 :: "int \<Rightarrow> int" where
  "to_u64 n = n mod 2 ^ 64"

definition to_u32 :: "int \<Rightarrow> int" where
  "to_u32 n = n mod 2 ^ 32"

text \<open>The constructor numbers the orders; \<open>timestamp\<close>, which nothing reads, is left out.\<close>

definition new_order :: "int \<Rightarrow> int \<Rightarrow> bool \<Rightarrow> pyfloat \<Rightarrow> int \<Rightarrow> int \<Rightarrow> int \<Rightarrow> order \<times> int" where
  "new_order ident q buy p sent received globalSeq =
     (\<lparr>OrderId = to_int32 ident, quantity = to_int32 q, IsBuy = buy, limit_price = p, t0 = sent,
       t1 = received, seqNo = globalSeq + 1\<rparr>, globalSeq + 1)"

type_synonym level = "order list"
type_synonym levels = "(pyfloat \<times> level) list"

record location =
  l_buy :: bool
  l_price :: pyfloat
  vector_index :: nat

type_synonym order_map = "int \<Rightarrow> location option"

text \<open>\<open>std::greater\<close> and \<open>std::less\<close>; two keys are equivalent when neither is before the other.\<close>

definition key_before :: "bool \<Rightarrow> pyfloat \<Rightarrow> pyfloat \<Rightarrow> bool" where
  "key_before buy p q = (if buy then flt q p else flt p q)"

text \<open>\<open>vec = levels[price]; vec.push_back(order)\<close>, with the position the order takes.\<close>

fun push_order :: "bool \<Rightarrow> order \<Rightarrow> levels \<Rightarrow> levels \<times> nat" where
  "push_order buy o' [] = ([(limit_price o', [o'])], 0)"
| "push_order buy o' ((p, vec) # ls) =
     (if key_before buy (limit_price o') p then ((limit_price o', [o']) # (p, vec) # ls, 0)
      else if key_before buy p (limit_price o')
      then (let (ls, i) = push_order buy o' ls in ((p, vec) # ls, i))
      else ((p, vec @ [o']) # ls, length vec))"

text \<open>\<open>eraseAt\<close>: the orders behind the erased one move down, and so do their recorded positions.\<close>

fun reindex :: "nat \<Rightarrow> order list \<Rightarrow> order_map \<Rightarrow> order_map" where
  "reindex i [] m = m"
| "reindex i (o' # os) m =
     reindex (Suc i) os
       (case m (OrderId o') of
          None \<Rightarrow> m
        | Some loc \<Rightarrow> m(OrderId o' \<mapsto> loc\<lparr>vector_index := i\<rparr>))"

definition eraseAt :: "level \<Rightarrow> nat \<Rightarrow> order_map \<Rightarrow> level \<times> order_map" where
  "eraseAt vec index m =
     (if length vec \<le> index then (vec, m)
      else let vec' = take index vec @ drop (Suc index) vec
           in (vec', reindex index (drop index vec') m))"

section \<open>The engine\<close>

record engine =
  buyOrders :: levels
  sellOrders :: levels
  orderMap :: order_map
  next_match_id :: int
  events :: "trade_event list"
  trades_executed :: int
  trade_events_dropped :: int
  orders_processed :: int
  clock_reads :: nat

definition new_engine :: engine where
  "new_engine =
     \<lparr>buyOrders = [], sellOrders = [], orderMap = (\<lambda>i. None), next_match_id = 0, events = [],
      trades_executed = 0, trade_events_dropped = 0, orders_processed = 0, clock_reads = 0\<rparr>"

record engine_io =
  system_clock :: "nat \<Rightarrow> int"
  publishes :: "trade_event list \<Rightarrow> trade_event \<Rightarrow> bool"

definition trade_of :: "int \<Rightarrow> int \<Rightarrow> order \<Rightarrow> order \<Rightarrow> trade_event" where
  "trade_of matchid t2 buy sell =
     (let taker = (if seqNo sell < seqNo buy then buy else sell)
      in \<lparr>match_id = to_u64 matchid, buy_order_id = to_u64 (OrderId buy), sell_order_id = to_u64 (OrderId sell),
          t0_ns = to_u64 (t0 taker), t1_ns = to_u64 (t1 taker), t2_ns = to_u64 t2,
          price = (if seqNo buy < seqNo sell then limit_price buy else limit_price sell),
          qty = to_u32 (min (quantity buy) (quantity sell))\<rparr>)"

definition publish :: "engine_io \<Rightarrow> trade_event \<Rightarrow> engine \<Rightarrow> engine" where
  "publish io ev e =
     (if publishes io (events e) ev then e\<lparr>events := events e @ [ev]\<rparr>
      else e\<lparr>trade_events_dropped := trade_events_dropped e + 1\<rparr>)"

text \<open>The front order of a level after a trade: gone with its location, or with less left.\<close>

definition consume_front :: "int \<Rightarrow> level \<Rightarrow> order_map \<Rightarrow> level \<times> order_map" where
  "consume_front traded vec m =
     (let o' = (hd vec)\<lparr>quantity := quantity (hd vec) - traded\<rparr>; vec = o' # tl vec
      in if quantity o' = 0 then eraseAt vec 0 (m(OrderId o' := None)) else (vec, m))"

definition keep_level :: "pyfloat \<Rightarrow> level \<Rightarrow> levels \<Rightarrow> levels" where
  "keep_level p vec ls = (if vec = [] then ls else (p, vec) # ls)"

text \<open>One round of the loop of \<open>matching\<close>; None when the loop is left.\<close>

definition match_step :: "engine_io \<Rightarrow> engine \<Rightarrow> engine option" where
  "match_step io e =
     (case (buyOrders e, sellOrders e) of
        ((bp, buyVec) # buys, (sp, sellVec) # sells) \<Rightarrow>
          if flt bp sp then None
          else if buyVec = [] \<or> sellVec = []
          then Some (e\<lparr>buyOrders := keep_level bp buyVec buys, sellOrders := keep_level sp sellVec sells\<rparr>)
          else
            (let buy = hd buyVec; sell = hd sellVec; traded = min (quantity buy) (quantity sell);
                 matchid = next_match_id e + 1;
                 e = publish io (trade_of matchid (system_clock io (clock_reads e)) buy sell)
                       (e\<lparr>next_match_id := matchid, clock_reads := Suc (clock_reads e)\<rparr>);
                 (buyVec, m) = consume_front traded buyVec (orderMap e);
                 (sellVec, m) = consume_front traded sellVec m
             in Some (e\<lparr>trades_executed := trades_executed e + 1, orderMap := m,
                        buyOrders := keep_level bp buyVec buys, sellOrders := keep_level sp sellVec sells\<rparr>))
      | _ \<Rightarrow> None)"

definition book_size :: "engine \<Rightarrow> nat" where
  "book_size e = sum_list (map (\<lambda>(p, vec). Suc (length vec)) (buyOrders e @ sellOrders e))"

lemma consume_front_length:
  "vec \<noteq> [] \<Longrightarrow> length (fst (consume_front q vec m)) \<le> length vec \<and>
     (quantity (hd vec) = q \<longrightarrow> length (fst (consume_front q vec m)) < length vec)"
  by (cases vec) (auto simp: consume_front_def eraseAt_def Let_def)

lemma match_step_shrinks: "match_step io e = Some e' \<Longrightarrow> book_size e' < book_size e"
proof -
  have k: "sum_list (map (\<lambda>(p, vec). Suc (length vec)) (keep_level p v ls)) \<le>
      Suc (length v) + sum_list (map (\<lambda>(p, vec). Suc (length vec)) ls)" for p v ls
    by (simp add: keep_level_def)
  have z: "sum_list (map (\<lambda>(p, vec). Suc (length vec)) (keep_level p [] ls)) <
      Suc 0 + sum_list (map (\<lambda>(p, vec). Suc (length vec)) ls)" for p ls
    by (simp add: keep_level_def)
  assume s: "match_step io e = Some e'"
  then obtain bp bv buys sp sv sells where
    b: "buyOrders e = (bp, bv) # buys" "sellOrders e = (sp, sv) # sells" "\<not> flt bp sp"
    by (auto simp: match_step_def split: list.splits if_splits)
  show ?thesis
  proof (cases "bv = [] \<or> sv = []")
    case True
    with s b have "e' = e\<lparr>buyOrders := keep_level bp bv buys, sellOrders := keep_level sp sv sells\<rparr>"
      by (simp add: match_step_def)
    with b True k [of bp bv buys] k [of sp sv sells] z [of bp buys] z [of sp sells] show ?thesis
      by (auto simp: book_size_def)
  next
    case False
    let ?q = "min (quantity (hd bv)) (quantity (hd sv))"
    let ?e = "publish io (trade_of (next_match_id e + 1) (system_clock io (clock_reads e)) (hd bv) (hd sv))
        (e\<lparr>next_match_id := next_match_id e + 1, clock_reads := Suc (clock_reads e)\<rparr>)"
    obtain bv' m where bv': "consume_front ?q bv (orderMap ?e) = (bv', m)"
      by (cases "consume_front ?q bv (orderMap ?e)")
    obtain sv' m' where sv': "consume_front ?q sv m = (sv', m')" by (cases "consume_front ?q sv m")
    have e': "buyOrders e' = keep_level bp bv' buys" "sellOrders e' = keep_level sp sv' sells"
      using s b False bv' sv' by (auto simp: match_step_def Let_def)
    have "length bv' \<le> length bv" "length sv' \<le> length sv" "length bv' < length bv \<or> length sv' < length sv"
      using consume_front_length [of bv ?q "orderMap ?e"] consume_front_length [of sv ?q m] False bv' sv'
      by (auto simp: min_def split: if_splits)
    with e' b k [of bp bv' buys] k [of sp sv' sells] show ?thesis by (auto simp: book_size_def)
  qed
qed

text \<open>The loop ends: every round takes an order or an empty level off the book.\<close>

function matching :: "engine_io \<Rightarrow> engine \<Rightarrow> engine" where
  "matching io e = (case match_step io e of None \<Rightarrow> e | Some e' \<Rightarrow> matching io e')"
  by auto
termination
  by (relation "measure (\<lambda>(io, e). book_size e)") (auto simp: match_step_shrinks)

declare matching.simps [simp del]

definition addOrder :: "engine_io \<Rightarrow> order \<Rightarrow> engine \<Rightarrow> engine" where
  "addOrder io o' e =
     (let e = (if IsBuy o'
               then (let (ls, i) = push_order True o' (buyOrders e)
                     in e\<lparr>buyOrders := ls,
                          orderMap := (orderMap e)(OrderId o' \<mapsto> \<lparr>l_buy = True, l_price = limit_price o', vector_index = i\<rparr>)\<rparr>)
               else (let (ls, i) = push_order False o' (sellOrders e)
                     in e\<lparr>sellOrders := ls,
                          orderMap := (orderMap e)(OrderId o' \<mapsto> \<lparr>l_buy = False, l_price = limit_price o', vector_index = i\<rparr>)\<rparr>))
      in matching io e)"

text \<open>\<open>levels.find(price)\<close> and the erasure in the level found.\<close>

fun erase_in :: "bool \<Rightarrow> pyfloat \<Rightarrow> nat \<Rightarrow> levels \<Rightarrow> order_map \<Rightarrow> levels \<times> order_map" where
  "erase_in buy p i [] m = ([], m)"
| "erase_in buy p i ((q, vec) # ls) m =
     (if \<not> key_before buy p q \<and> \<not> key_before buy q p
      then (let (vec, m) = eraseAt vec i m in (keep_level q vec ls, m))
      else (let (ls, m) = erase_in buy p i ls m in ((q, vec) # ls, m)))"

definition cancelOrder :: "int \<Rightarrow> engine \<Rightarrow> engine" where
  "cancelOrder orderid e =
     (case orderMap e orderid of
        None \<Rightarrow> e
      | Some loc \<Rightarrow>
          (let m = (orderMap e)(orderid := None)
           in if l_buy loc
              then (let (ls, m) = erase_in True (l_price loc) (vector_index loc) (buyOrders e) m
                    in e\<lparr>buyOrders := ls, orderMap := m\<rparr>)
              else (let (ls, m) = erase_in False (l_price loc) (vector_index loc) (sellOrders e) m
                    in e\<lparr>sellOrders := ls, orderMap := m\<rparr>)))"

text \<open>
  What \<open>processLoop\<close> does with each order it takes from the queue. The clock is read once more for the
  latency histograms, which are only printed.
\<close>

definition process_order :: "engine_io \<Rightarrow> engine \<Rightarrow> order \<Rightarrow> engine" where
  "process_order io e o' =
     (let e = addOrder io o' e
      in e\<lparr>clock_reads := Suc (clock_reads e), orders_processed := orders_processed e + 1\<rparr>)"

definition process_orders :: "engine_io \<Rightarrow> order list \<Rightarrow> engine \<Rightarrow> engine" where
  "process_orders io os e = foldl (process_order io) e os"

end
