(* ===== verification/Gateway.thy ===== *)
theory Gateway
  imports Bots Engine
begin

text \<open>
  The gateway of \<^verbatim>\<open>matching-engine/networking/TCPServer.cpp\<close> behind the upgrade: what
  \<open>handleClientData\<close> does with each piece of bytes a \<open>read\<close> yields, on the buffers of all clients. It
  parses WebSocket frames, cuts the unmasked payload into 32-byte \<open>OrderMessage\<close>s (\<^verbatim>\<open>Protocol.h\<close>) and
  enqueues an \<open>Order\<close> for each. Which descriptor is read next, where the network cuts the bytes, the
  clock, and whether the engine's queue takes an order, are inputs.
\<close>

section \<open>Messages\<close>

record order_message =
  order_id :: int
  timestamp_ns :: int
  msg_price :: pyfloat
  msg_qty :: int
  msg_side :: int

definition MSG_SIZE :: nat where
  "MSG_SIZE = 32"

text \<open>\<open>memcpy\<close> into the struct; the three bytes of padding are not read.\<close>

definition message_at :: "bytes \<Rightarrow> nat \<Rightarrow> order_message" where
  "message_at buf p =
     (let bs = drop p buf
      in \<lparr>order_id = le_val (take 8 bs), timestamp_ns = le_val (take 8 (drop 8 bs)),
          msg_price = f64_of_bits (le_val (take 8 (drop 16 bs))), msg_qty = le_val (take 4 (drop 24 bs)),
          msg_side = le_val (take 1 (drop 28 bs))\<rparr>)"

definition is_buy :: "int \<Rightarrow> bool" where
  "is_buy side \<longleftrightarrow> side = of_char CHR ''B'' \<or> side = of_char CHR ''b'' \<or> side = 1"

definition to_int64 :: "int \<Rightarrow> int" where
  "to_int64 n = (n + 2 ^ 63) mod 2 ^ 64 - 2 ^ 63"

section \<open>State\<close>

record ring_buffer =
  rb_data :: bytes
  rb_read_ptr :: nat
  rb_payload :: bytes
  rb_payload_read_ptr :: nat
  rb_websocket_ready :: bool

definition new_ring :: ring_buffer where
  "new_ring = \<lparr>rb_data = [], rb_read_ptr = 0, rb_payload = [], rb_payload_read_ptr = 0,
     rb_websocket_ready = False\<rparr>"

record gateway_io =
  gateway_clock :: "nat \<Rightarrow> int"
  enqueues :: "order list \<Rightarrow> order \<Rightarrow> bool"

text \<open>What \<open>enqueueOrder\<close> and the constructor of \<open>Order\<close> keep.\<close>

record intake =
  incoming :: "order list"
  orders_dropped :: int
  order_seq :: int
  gateway_reads :: nat

record gateway =
  client_buffers :: "int \<Rightarrow> ring_buffer option"
  orders_in :: intake
  answers :: "(int \<times> string) list"

definition new_gateway :: gateway where
  "new_gateway = \<lparr>client_buffers = (\<lambda>fd. None),
     orders_in = \<lparr>incoming = [], orders_dropped = 0, order_seq = 0, gateway_reads = 0\<rparr>, answers = []\<rparr>"

section \<open>Orders\<close>

definition order_of :: "order_message \<Rightarrow> int \<Rightarrow> int \<Rightarrow> order \<times> int" where
  "order_of m now seq =
     new_order (order_id m) (msg_qty m) (is_buy (msg_side m)) (msg_price m) (to_int64 (timestamp_ns m)) now seq"

definition take_message :: "gateway_io \<Rightarrow> intake \<Rightarrow> order_message \<Rightarrow> intake" where
  "take_message io g m =
     (let (x, s) = order_of m (gateway_clock io (gateway_reads g)) (order_seq g);
          g = g\<lparr>order_seq := s, gateway_reads := Suc (gateway_reads g)\<rparr>
      in if enqueues io (incoming g) x then g\<lparr>incoming := incoming g @ [x]\<rparr>
         else g\<lparr>orders_dropped := orders_dropped g + 1\<rparr>)"

function payload_loop :: "gateway_io \<Rightarrow> bytes \<Rightarrow> nat \<Rightarrow> intake \<Rightarrow> nat \<times> intake" where
  "payload_loop io buf p g =
     (if MSG_SIZE \<le> length buf - p
      then payload_loop io buf (p + MSG_SIZE) (take_message io g (message_at buf p))
      else (p, g))"
  by auto
termination
  by (relation "measure (\<lambda>(io, buf, p, g). length buf - p)") (auto simp: MSG_SIZE_def)

declare payload_loop.simps [simp del]

definition process_payload_orders :: "gateway_io \<Rightarrow> ring_buffer \<Rightarrow> intake \<Rightarrow> ring_buffer \<times> intake" where
  "process_payload_orders io rb g =
     (let (p, g) = payload_loop io (rb_payload rb) (rb_payload_read_ptr rb) g
      in (if 16384 < p then rb\<lparr>rb_payload := drop p (rb_payload rb), rb_payload_read_ptr := 0\<rparr>
          else rb\<lparr>rb_payload_read_ptr := p\<rparr>, g))"

section \<open>Frames\<close>

text \<open>What stands at the read pointer: the size of a frame counts its header.\<close>

datatype frame =
    More_Data
  | Close_Client nat
  | Frame "8 word" bytes nat

definition be_val :: "bytes \<Rightarrow> nat" where
  "be_val bs = nat (le_val (rev bs))"

definition frame_body :: "8 word \<Rightarrow> bool \<Rightarrow> nat \<Rightarrow> nat \<Rightarrow> bytes \<Rightarrow> frame" where
  "frame_body opcode masked payload_len header_len base =
     (if \<not> masked then Close_Client 0
      else if 2 ^ 20 < payload_len then Close_Client 0
      else if length base < header_len + 4 + payload_len then More_Data
      else if opcode = 8 then Close_Client (header_len + 4 + payload_len)
      else Frame opcode
             (mask_bytes (take 4 (drop header_len base)) (take payload_len (drop (header_len + 4) base)))
             (header_len + 4 + payload_len))"

definition frame_at :: "8 word \<Rightarrow> bool \<Rightarrow> nat \<Rightarrow> bytes \<Rightarrow> frame" where
  "frame_at opcode masked len7 base =
     (if len7 = 126
      then (if length base < 4 then More_Data
            else frame_body opcode masked (be_val (take 2 (drop 2 base))) 4 base)
      else if len7 = 127
      then (if length base < 10 then More_Data
            else frame_body opcode masked (be_val (take 8 (drop 2 base))) 10 base)
      else frame_body opcode masked len7 2 base)"

definition parse_frame :: "bytes \<Rightarrow> frame" where
  "parse_frame base =
     (if length base < 2 then More_Data
      else frame_at (base ! 0 AND 0x0F) (base ! 1 AND 0x80 \<noteq> 0) (unat (base ! 1 AND 0x7F)) base)"

lemma frame_body_size: "frame_body opcode masked k h base = Frame op body n \<Longrightarrow> 0 < n \<and> n \<le> length base"
  by (auto simp: frame_body_def split: if_splits)

lemma parse_frame_size: "parse_frame base = Frame opcode body n \<Longrightarrow> 0 < n \<and> n \<le> length base"
  by (auto simp: parse_frame_def frame_at_def dest!: frame_body_size split: if_splits)

definition take_frame :: "gateway_io \<Rightarrow> 8 word \<Rightarrow> bytes \<Rightarrow> ring_buffer \<Rightarrow> intake \<Rightarrow> ring_buffer \<times> intake" where
  "take_frame io opcode body rb g =
     (if opcode = 2 \<or> opcode = 0
      then process_payload_orders io (rb\<lparr>rb_payload := rb_payload rb @ body\<rparr>) g
      else (rb, g))"

lemma take_frame_data [simp]:
  "rb_data (fst (take_frame io opcode body rb g)) = rb_data rb"
  "rb_read_ptr (fst (take_frame io opcode body rb g)) = rb_read_ptr rb"
  "rb_websocket_ready (fst (take_frame io opcode body rb g)) = rb_websocket_ready rb"
  by (auto simp: take_frame_def process_payload_orders_def Let_def split: prod.split)

text \<open>The loop over the frames at hand; True: the client is to be closed.\<close>

function frame_loop :: "gateway_io \<Rightarrow> ring_buffer \<Rightarrow> intake \<Rightarrow> ring_buffer \<times> intake \<times> bool" where
  "frame_loop io rb g =
     (case parse_frame (drop (rb_read_ptr rb) (rb_data rb)) of
        More_Data \<Rightarrow> (rb, g, False)
      | Close_Client n \<Rightarrow> (rb\<lparr>rb_read_ptr := rb_read_ptr rb + n\<rparr>, g, True)
      | Frame opcode body n \<Rightarrow>
          (case take_frame io opcode body rb g of
             (rb', g') \<Rightarrow> frame_loop io (rb'\<lparr>rb_read_ptr := rb_read_ptr rb' + n\<rparr>) g'))"
  by auto
termination
proof (relation "measure (\<lambda>(io, rb, g). length (rb_data rb) - rb_read_ptr rb)", goal_cases)
  case (2 io rb g opcode body n rb' g')
  have "rb_data rb' = rb_data rb" "rb_read_ptr rb' = rb_read_ptr rb"
    using take_frame_data(1,2) [of io opcode body rb g] unfolding 2(2) [symmetric] by (simp_all only: fst_conv)
  moreover have "0 < n" "n \<le> length (rb_data rb) - rb_read_ptr rb"
    using parse_frame_size [OF 2(1)] by simp_all
  ultimately show ?case by simp
qed (rule wf_measure)

declare frame_loop.simps [simp del]

section \<open>A read\<close>

text \<open>The header is text, a character per byte.\<close>

definition text_of :: "bytes \<Rightarrow> string" where
  "text_of bs = map (\<lambda>b. char_of (uint b)) bs"

definition drop_read :: "ring_buffer \<Rightarrow> ring_buffer" where
  "drop_read rb =
     (if 16384 < rb_read_ptr rb
      then rb\<lparr>rb_data := drop (rb_read_ptr rb) (rb_data rb), rb_read_ptr := 0\<rparr> else rb)"

text \<open>The frames of a client that is upgraded, and the closing of the descriptor.\<close>

definition read_frames :: "gateway_io \<Rightarrow> int \<Rightarrow> ring_buffer \<Rightarrow> gateway \<Rightarrow> gateway" where
  "read_frames io fd rb g =
     (let (rb, q, close_client) = frame_loop io rb (orders_in g)
      in g\<lparr>orders_in := q,
           client_buffers := (client_buffers g)(fd := (if close_client then None else Some (drop_read rb)))\<rparr>)"

definition handle_read :: "gateway_io \<Rightarrow> gateway \<Rightarrow> int \<times> bytes \<Rightarrow> gateway" where
  "handle_read io g ev =
     (let (fd, bs) = ev;
          rb = (case client_buffers g fd of None \<Rightarrow> new_ring | Some rb \<Rightarrow> rb);
          rb = rb\<lparr>rb_data := rb_data rb @ bs\<rparr>
      in if rb_websocket_ready rb then read_frames io fd rb g
         else case server_upgrade (text_of (rb_data rb)) of
                Incomplete \<Rightarrow> g\<lparr>client_buffers := (client_buffers g)(fd := Some rb)\<rparr>
              | NoKey \<Rightarrow> g\<lparr>client_buffers := (client_buffers g)(fd := None)\<rparr>
              | Upgraded resp rest \<Rightarrow>
                  read_frames io fd
                    (rb\<lparr>rb_data := ascii rest, rb_read_ptr := 0, rb_websocket_ready := True\<rparr>)
                    (g\<lparr>answers := answers g @ [(fd, resp)]\<rparr>))"

text \<open>The end of a connection, by the peer or by an error.\<close>

definition handle_gone :: "gateway \<Rightarrow> int \<Rightarrow> gateway" where
  "handle_gone g fd = g\<lparr>client_buffers := (client_buffers g)(fd := None)\<rparr>"

end
