(* ===== verification/GatewayStream.thy ===== *)
theory GatewayStream
  imports Gateway
begin

text \<open>
  The gateway as a decoder of byte streams. The contract of a connection is a function of all bytes it
  has carried: \<open>unframe\<close> cuts them into frames, \<open>split_messages\<close> the payload into orders. The buffers,
  read pointers and compactions of the gateway implement it, wherever the network cuts the bytes and
  however the connections interleave; and the bots' frames decode to the bots' orders.
\<close>

section \<open>Frames of a stream\<close>

lemma take_drop_append: "k + n \<le> length xs \<Longrightarrow> take n (drop k (xs @ ys)) = take n (drop k xs)"
  by simp

lemma frame_body_append:
  assumes "frame_body opcode masked k h xs \<noteq> More_Data"
  shows "frame_body opcode masked k h (xs @ ys) = frame_body opcode masked k h xs"
proof (cases "masked \<and> k \<le> 2 ^ 20")
  case True
  then have l: "h + 4 + k \<le> length xs" using assms by (auto simp: frame_body_def split: if_splits)
  then have "take 4 (drop h (xs @ ys)) = take 4 (drop h xs)"
    "take k (drop (h + 4) (xs @ ys)) = take k (drop (h + 4) xs)"
    by (intro take_drop_append; simp)+
  with True l show ?thesis by (simp only: frame_body_def) simp
next
  case False
  then show ?thesis by (auto simp: frame_body_def)
qed

lemma frame_at_append:
  assumes "frame_at opcode masked n xs \<noteq> More_Data"
  shows "frame_at opcode masked n (xs @ ys) = frame_at opcode masked n xs"
proof -
  consider (two) "n = 126" "4 \<le> length xs" | (eight) "n = 127" "10 \<le> length xs" | (none) "n \<noteq> 126" "n \<noteq> 127"
    using assms by (fastforce simp: frame_at_def split: if_splits)
  then show ?thesis
  proof cases
    case two
    then have "take 2 (drop 2 (xs @ ys)) = take 2 (drop 2 xs)" by (intro take_drop_append) simp
    with two assms frame_body_append show ?thesis by (simp add: frame_at_def del: drop_append take_append)
  next
    case eight
    then have "take 8 (drop 2 (xs @ ys)) = take 8 (drop 2 xs)" by (intro take_drop_append) simp
    with eight assms frame_body_append show ?thesis by (simp add: frame_at_def del: drop_append take_append)
  next
    case none
    with assms frame_body_append show ?thesis by (simp add: frame_at_def)
  qed
qed

lemma parse_frame_append:
  assumes "parse_frame xs \<noteq> More_Data"
  shows "parse_frame (xs @ ys) = parse_frame xs"
proof -
  have "\<not> length xs < 2" using assms by (metis parse_frame_def)
  then have "(xs @ ys) ! 0 = xs ! 0" "(xs @ ys) ! 1 = xs ! 1" "\<not> length xs < 2" "\<not> length (xs @ ys) < 2"
    by (auto simp: nth_append)
  then show ?thesis
    using assms unfolding parse_frame_def by (simp only: if_False) (erule frame_at_append)
qed

lemma frame_body_close: "frame_body opcode masked k h xs = Close_Client n \<Longrightarrow> n \<le> length xs"
  by (auto simp: frame_body_def split: if_splits)

lemma parse_frame_close: "parse_frame xs = Close_Client n \<Longrightarrow> n \<le> length xs"
  by (auto simp: parse_frame_def frame_at_def dest!: frame_body_close split: if_splits)

function unframe :: "bytes \<Rightarrow> bytes \<times> bytes \<times> bool" where
  "unframe base =
     (case parse_frame base of
        More_Data \<Rightarrow> ([], base, False)
      | Close_Client n \<Rightarrow> ([], drop n base, True)
      | Frame opcode body n \<Rightarrow>
          (let (p, r, c) = unframe (drop n base)
           in ((if opcode = 2 \<or> opcode = 0 then body else []) @ p, r, c)))"
  by auto
termination
proof (relation "measure length", goal_cases)
  case (2 base opcode body n)
  from parse_frame_size [OF 2] show ?case by (simp, linarith)
qed (rule wf_measure)

declare unframe.simps [simp del]

lemma unframe_append:
  "unframe (xs @ ys) =
     (let (p, r, c) = unframe xs
      in if c then (p, r @ ys, True)
         else (let (p', r', c') = unframe (r @ ys) in (p @ p', r', c')))"
proof (induction xs rule: unframe.induct)
  case (1 xs)
  show ?case
  proof (cases "parse_frame xs")
    case More_Data
    then show ?thesis by (simp add: unframe.simps [of xs] split: prod.split)
  next
    case (Close_Client n)
    then have "parse_frame (xs @ ys) = Close_Client n" "n \<le> length xs"
      using parse_frame_append [of xs ys] parse_frame_close by simp_all
    with Close_Client show ?thesis by (simp add: unframe.simps [of xs] unframe.simps [of "xs @ ys"])
  next
    case (Frame opcode body n)
    then have f: "parse_frame (xs @ ys) = Frame opcode body n" using parse_frame_append [of xs ys] by simp
    have n: "n \<le> length xs" using parse_frame_size [OF Frame] by simp
    have "unframe (drop n xs @ ys) =
       (let (p, r, c) = unframe (drop n xs)
        in if c then (p, r @ ys, True)
           else (let (p', r', c') = unframe (r @ ys) in (p @ p', r', c')))"
      by (rule 1 [OF Frame])
    with Frame f n show ?thesis
      by (simp add: unframe.simps [of xs] unframe.simps [of "xs @ ys"] split: prod.split)
  qed
qed

section \<open>Messages of a payload\<close>

function split_messages :: "bytes \<Rightarrow> order_message list \<times> bytes" where
  "split_messages bs =
     (if length bs < MSG_SIZE then ([], bs)
      else (let (ms, r) = split_messages (drop MSG_SIZE bs) in (message_at bs 0 # ms, r)))"
  by auto
termination
  by (relation "measure length") (auto simp: MSG_SIZE_def)

declare split_messages.simps [simp del]

lemma message_at_append: "p + MSG_SIZE \<le> length xs \<Longrightarrow> message_at (xs @ ys) p = message_at xs p"
  by (simp add: message_at_def MSG_SIZE_def Let_def)

lemma split_messages_append:
  "split_messages (xs @ ys) =
     (let (ms, r) = split_messages xs; (ms', r') = split_messages (r @ ys) in (ms @ ms', r'))"
proof (induction xs rule: split_messages.induct)
  case (1 xs)
  show ?case
  proof (cases "length xs < MSG_SIZE")
    case True
    then show ?thesis by (simp add: split_messages.simps [of xs] split: prod.split)
  next
    case False
    with 1 [OF False] message_at_append [of 0 xs ys] show ?thesis
      by (simp add: split_messages.simps [of xs] split_messages.simps [of "xs @ ys"] split: prod.split)
  qed
qed

lemma split_rest_short: "length (snd (split_messages bs)) < MSG_SIZE"
proof (induction bs rule: split_messages.induct)
  case (1 bs)
  then show ?case
    by (cases "length bs < MSG_SIZE"; cases "split_messages (drop MSG_SIZE bs)") (simp_all add: split_messages.simps [of bs])
qed

lemma split_short [simp]: "length bs < MSG_SIZE \<Longrightarrow> split_messages bs = ([], bs)"
  by (simp add: split_messages.simps)

lemma message_at_drop: "message_at (drop p buf) 0 = message_at buf p"
  by (simp add: message_at_def)

lemma payload_loop_split:
  "p \<le> length buf \<Longrightarrow>
     snd (payload_loop io buf p g) = foldl (take_message io) g (fst (split_messages (drop p buf))) \<and>
     drop (fst (payload_loop io buf p g)) buf = snd (split_messages (drop p buf)) \<and>
     fst (payload_loop io buf p g) \<le> length buf"
proof (induction io buf p g rule: payload_loop.induct)
  case (1 io buf p g)
  show ?case
  proof (cases "MSG_SIZE \<le> length buf - p")
    case True
    then have l: "p + MSG_SIZE \<le> length buf" by (simp add: MSG_SIZE_def)
    have "\<not> length (drop p buf) < MSG_SIZE" using True by simp
    then have "split_messages (drop p buf) =
        (let (ms, r) = split_messages (drop (p + MSG_SIZE) buf) in (message_at buf p # ms, r))"
      by (simp add: split_messages.simps [of "drop p buf"] message_at_drop add.commute)
    with 1(1) [OF True l] True show ?thesis
      by (simp add: payload_loop.simps [of io buf p g] split: prod.split)
  next
    case False
    with 1(2) show ?thesis by (simp add: payload_loop.simps [of io buf p g])
  qed
qed

section \<open>The buffers implement the contract\<close>

definition pending :: "ring_buffer \<Rightarrow> bytes" where
  "pending rb = drop (rb_read_ptr rb) (rb_data rb)"

definition partial :: "ring_buffer \<Rightarrow> bytes" where
  "partial rb = drop (rb_payload_read_ptr rb) (rb_payload rb)"

definition ring_ok :: "ring_buffer \<Rightarrow> bool" where
  "ring_ok rb \<longleftrightarrow> rb_read_ptr rb \<le> length (rb_data rb) \<and> rb_payload_read_ptr rb \<le> length (rb_payload rb) \<and>
     length (partial rb) < MSG_SIZE"

lemma process_payload_split:
  assumes "rb_payload_read_ptr rb \<le> length (rb_payload rb)" "process_payload_orders io rb g = (rb', g')"
  shows "g' = foldl (take_message io) g (fst (split_messages (partial rb)))"
    "partial rb' = snd (split_messages (partial rb))"
    "rb_payload_read_ptr rb' \<le> length (rb_payload rb')"
    "rb_data rb' = rb_data rb" "rb_read_ptr rb' = rb_read_ptr rb"
    "rb_websocket_ready rb' = rb_websocket_ready rb"
  using payload_loop_split [OF assms(1), of io g] assms(2)
  by (auto simp: process_payload_orders_def partial_def Let_def split: prod.splits if_splits)

lemma take_frame_split:
  assumes "ring_ok rb" "take_frame io opcode body rb g = (rb', g')"
  shows "g' = foldl (take_message io) g
      (fst (split_messages (partial rb @ (if opcode = 2 \<or> opcode = 0 then body else []))))"
    "partial rb' = snd (split_messages (partial rb @ (if opcode = 2 \<or> opcode = 0 then body else [])))"
    "ring_ok rb'" "rb_data rb' = rb_data rb" "rb_read_ptr rb' = rb_read_ptr rb"
    "rb_websocket_ready rb' = rb_websocket_ready rb"
proof -
  let ?p = "partial rb @ (if opcode = 2 \<or> opcode = 0 then body else [])"
  have "g' = foldl (take_message io) g (fst (split_messages ?p)) \<and> partial rb' = snd (split_messages ?p) \<and>
    ring_ok rb' \<and> rb_data rb' = rb_data rb \<and> rb_read_ptr rb' = rb_read_ptr rb \<and>
    rb_websocket_ready rb' = rb_websocket_ready rb"
  proof (cases "opcode = 2 \<or> opcode = 0")
    case True
    let ?rb = "rb\<lparr>rb_payload := rb_payload rb @ body\<rparr>"
    have b: "rb_payload_read_ptr ?rb \<le> length (rb_payload ?rb)" "partial ?rb = ?p"
      using assms(1) True by (auto simp: ring_ok_def partial_def)
    have "process_payload_orders io ?rb g = (rb', g')" using assms(2) True by (simp add: take_frame_def)
    from process_payload_split [OF b(1) this] assms(1) split_rest_short [of ?p] show ?thesis
      by (simp add: b(2) ring_ok_def)
  next
    case False
    with assms show ?thesis by (auto simp: take_frame_def ring_ok_def)
  qed
  then show "g' = foldl (take_message io) g (fst (split_messages ?p))" "partial rb' = snd (split_messages ?p)"
    "ring_ok rb'" "rb_data rb' = rb_data rb" "rb_read_ptr rb' = rb_read_ptr rb"
    "rb_websocket_ready rb' = rb_websocket_ready rb" by simp_all
qed

lemma frame_loop_split:
  "ring_ok rb \<Longrightarrow> unframe (pending rb) = (p, r, c) \<Longrightarrow> split_messages (partial rb @ p) = (ms, q) \<Longrightarrow>
     \<exists>rb'. frame_loop io rb g = (rb', foldl (take_message io) g ms, c) \<and>
       (\<not> c \<longrightarrow> ring_ok rb' \<and> pending rb' = r \<and> partial rb' = q \<and> rb_websocket_ready rb' = rb_websocket_ready rb)"
proof (induction io rb g arbitrary: p ms rule: frame_loop.induct)
  case (1 io rb g)
  have short: "length (partial rb) < MSG_SIZE" using 1(2) by (simp add: ring_ok_def)
  show ?case
  proof (cases "parse_frame (pending rb)")
    case More_Data
    with 1(2-4) short show ?thesis
      by (auto simp: frame_loop.simps [of io rb g] unframe.simps [of "pending rb"] pending_def [symmetric])
  next
    case (Close_Client n)
    with 1(2-4) short show ?thesis
      by (auto simp: frame_loop.simps [of io rb g] unframe.simps [of "pending rb"] pending_def [symmetric])
  next
    case (Frame opcode body n)
    let ?b = "if opcode = 2 \<or> opcode = 0 then body else []"
    obtain rb1 g1 where t: "take_frame io opcode body rb g = (rb1, g1)" by (cases "take_frame io opcode body rb g")
    note f = take_frame_split [OF 1(2) t]
    let ?rb = "rb1\<lparr>rb_read_ptr := rb_read_ptr rb1 + n\<rparr>"
    have n: "n \<le> length (pending rb)" using parse_frame_size [OF Frame] by simp
    have b: "ring_ok ?rb" "partial ?rb = partial rb1" "pending ?rb = drop n (pending rb)"
      using f(3,4,5) n 1(2) by (auto simp: ring_ok_def partial_def pending_def add.commute)
    obtain p1 where u: "unframe (drop n (pending rb)) = (p1, r, c)" "p = ?b @ p1"
      using 1(3) Frame by (auto simp: unframe.simps [of "pending rb"] split: prod.splits)
    obtain m1 q1 where s1: "split_messages (partial rb @ ?b) = (m1, q1)" by (cases "split_messages (partial rb @ ?b)")
    obtain m2 where s2: "split_messages (q1 @ p1) = (m2, q)" "ms = m1 @ m2"
      using 1(4) split_messages_append [of "partial rb @ ?b" p1] s1 by (auto simp: u(2) split: prod.splits)
    have "\<exists>rb'. frame_loop io ?rb g1 = (rb', foldl (take_message io) g1 m2, c) \<and>
        (\<not> c \<longrightarrow> ring_ok rb' \<and> pending rb' = r \<and> partial rb' = q \<and> rb_websocket_ready rb' = rb_websocket_ready ?rb)"
      using 1(1) [OF Frame [unfolded pending_def] t [symmetric] b(1), of p1 m2] u(1) s2(1) f(2) s1 b(2,3) by simp
    moreover have "frame_loop io rb g = frame_loop io ?rb g1"
      using Frame t by (simp add: frame_loop.simps [of io rb g] pending_def)
    ultimately show ?thesis using f(1,6) s1 s2(2) by simp
  qed
qed

section \<open>The upgrade of a stream\<close>

lemma header_end_long: "header_end xs = Some k \<Longrightarrow> 4 \<le> length xs \<and> k \<le> length xs"
proof (induction xs arbitrary: k)
  case (Cons c xs)
  show ?case
  proof (cases "starts_with (crlf @ crlf) (c # xs)")
    case True
    then have "length (crlf @ crlf) \<le> length (c # xs)"
      using arg_cong [OF True [unfolded starts_with_def], of length]
      by (simp only: length_take min_def split: if_splits)
    with True Cons.prems show ?thesis by simp
  next
    case False
    with Cons show ?thesis by fastforce
  qed
qed simp

lemma header_end_append: "header_end xs = Some k \<Longrightarrow> header_end (xs @ ys) = Some k \<and> k \<le> length xs"
proof (induction xs arbitrary: k)
  case (Cons c xs)
  show ?case
  proof (cases "starts_with (crlf @ crlf) (c # xs)")
    case True
    then obtain zs where "c # xs = crlf @ crlf @ zs"
      by (metis append_assoc append_take_drop_id starts_with_def)
    with Cons.prems show ?thesis by (auto simp: starts_with_def)
  next
    case False
    then obtain j where j: "header_end xs = Some j" "k = Suc j" using Cons.prems by auto
    from Cons.IH [OF this(1)] have a: "header_end (xs @ ys) = Some j" "j \<le> length xs" by auto
    have "\<not> starts_with (crlf @ crlf) (c # xs @ ys)"
    proof
      assume "starts_with (crlf @ crlf) (c # xs @ ys)"
      moreover have "4 \<le> length (c # xs)"
        using header_end_long [OF Cons.prems] by simp
      ultimately have "starts_with (crlf @ crlf) (c # xs)" by (simp add: starts_with_def)
      with False show False by simp
    qed
    with a j show ?thesis by simp
  qed
qed simp

lemma server_upgrade_append:
  "server_upgrade xs \<noteq> Incomplete \<Longrightarrow>
     server_upgrade (xs @ ys) =
       (case server_upgrade xs of Upgraded resp rest \<Rightarrow> Upgraded resp (rest @ ys) | u \<Rightarrow> u)"
  using header_end_append [of xs _ ys]
  by (auto simp: server_upgrade_def Let_def split: option.splits)

lemma text_of_append [simp]: "text_of (xs @ ys) = text_of xs @ text_of ys"
  by (simp add: text_of_def)

lemma of_char_byte: "of_char (char_of (uint b)) = (b :: 8 word)"
proof -
  have "of_char (char_of (uint b)) = (of_int (of_char (char_of (uint b))) :: 8 word)"
    by (simp only: of_int_of_char)
  moreover have "uint b mod 256 = uint b" using uint_lt2p [of b] by (intro mod_pos_pos_trivial) simp_all
  ultimately show ?thesis by (simp add: take_bit_eq_mod)
qed

lemma ascii_text_of [simp]: "ascii (text_of bs) = bs"
  by (simp add: ascii_def text_of_def comp_def of_char_byte)

lemma ascii_append [simp]: "ascii (s @ t) = ascii s @ ascii t"
  by (simp add: ascii_def)

section \<open>The contract of a connection\<close>

datatype conn =
    Waiting_Upgrade
  | Refused_Upgrade
  | Live string bytes bytes bool

text \<open>A function of all bytes so far: the answer, the payload, what is left over, and whether it is closed.\<close>

definition conn_of :: "bytes \<Rightarrow> conn" where
  "conn_of h =
     (case server_upgrade (text_of h) of
        Incomplete \<Rightarrow> Waiting_Upgrade
      | NoKey \<Rightarrow> Refused_Upgrade
      | Upgraded resp rest \<Rightarrow> (let (p, r, c) = unframe (ascii rest) in Live resp p r c))"

definition conn_messages :: "bytes \<Rightarrow> order_message list" where
  "conn_messages h = (case conn_of h of Live resp p r c \<Rightarrow> fst (split_messages p) | _ \<Rightarrow> [])"

definition conn_answers :: "bytes \<Rightarrow> string list" where
  "conn_answers h = (case conn_of h of Live resp p r c \<Rightarrow> [resp] | _ \<Rightarrow> [])"

definition conn_closed :: "bytes \<Rightarrow> bool" where
  "conn_closed h \<longleftrightarrow> (case conn_of h of Live resp p r c \<Rightarrow> c | Refused_Upgrade \<Rightarrow> True | Waiting_Upgrade \<Rightarrow> False)"

lemma conn_of_live:
  assumes "conn_of h = Live resp p r False"
  shows "conn_of (h @ bs) = (let (p', r', c) = unframe (r @ bs) in Live resp (p @ p') r' c)"
proof -
  from assms obtain rest where u: "server_upgrade (text_of h) = Upgraded resp rest"
    "unframe (ascii rest) = (p, r, False)"
    by (auto simp: conn_of_def split: upgrade.splits prod.splits)
  then have "server_upgrade (text_of (h @ bs)) = Upgraded resp (rest @ text_of bs)"
    by (simp add: server_upgrade_append)
  then have "conn_of (h @ bs) = (let (p', r', c') = unframe (ascii rest @ bs) in Live resp p' r' c')"
    by (simp add: conn_of_def)
  then show ?thesis by (simp add: unframe_append u(2) Let_def split: prod.split)
qed

lemma conn_closed_append: "conn_closed h \<Longrightarrow> conn_closed (h @ bs)"
proof (cases "server_upgrade (text_of h)")
  case (Upgraded resp rest)
  assume "conn_closed h"
  then obtain p r where u: "unframe (ascii rest) = (p, r, True)"
    using Upgraded by (auto simp: conn_closed_def conn_of_def split: prod.splits)
  have "server_upgrade (text_of (h @ bs)) = Upgraded resp (rest @ text_of bs)"
    using Upgraded by (simp add: server_upgrade_append)
  then show ?thesis by (simp add: conn_closed_def conn_of_def unframe_append u)
qed (simp_all add: conn_closed_def conn_of_def server_upgrade_append)

definition represents :: "ring_buffer \<Rightarrow> bytes \<Rightarrow> bool" where
  "represents rb h \<longleftrightarrow> ring_ok rb \<and>
     (case conn_of h of
        Waiting_Upgrade \<Rightarrow> \<not> rb_websocket_ready rb \<and> rb_data rb = h \<and> rb_read_ptr rb = 0 \<and> partial rb = []
      | Refused_Upgrade \<Rightarrow> False
      | Live resp p r c \<Rightarrow>
          \<not> c \<and> rb_websocket_ready rb \<and> pending rb = r \<and> partial rb = snd (split_messages p))"

lemma conn_of_Nil [simp]: "conn_of [] = Waiting_Upgrade"
  by (simp add: conn_of_def server_upgrade_def text_of_def)

lemma represents_new [simp]: "represents new_ring []"
  by (simp add: represents_def new_ring_def ring_ok_def partial_def MSG_SIZE_def)

lemma drop_read_simps [simp]:
  "ring_ok rb \<Longrightarrow> ring_ok (drop_read rb)" "pending (drop_read rb) = pending rb"
  "partial (drop_read rb) = partial rb" "rb_websocket_ready (drop_read rb) = rb_websocket_ready rb"
  by (auto simp: drop_read_def ring_ok_def pending_def partial_def)

text \<open>A closed connection has no buffer.\<close>

definition buffer_ok :: "ring_buffer option \<Rightarrow> bytes \<Rightarrow> bool" where
  "buffer_ok b h \<longleftrightarrow> (if conn_closed h then b = None else \<exists>rb. b = Some rb \<and> represents rb h)"

lemma read_frames_step:
  assumes "ring_ok rb" "rb_websocket_ready rb" "conn_of h' = Live resp (p0 @ p) r c"
    and "partial rb = snd (split_messages p0)" "unframe (pending rb) = (p, r, c)"
  shows "\<exists>ms. fst (split_messages (p0 @ p)) = fst (split_messages p0) @ ms \<and>
      orders_in (read_frames io fd rb g) = foldl (take_message io) (orders_in g) ms \<and>
      answers (read_frames io fd rb g) = answers g \<and>
      (\<exists>b. client_buffers (read_frames io fd rb g) = (client_buffers g)(fd := b) \<and> buffer_ok b h')"
proof -
  obtain ms q where s: "split_messages (partial rb @ p) = (ms, q)" by (cases "split_messages (partial rb @ p)")
  from frame_loop_split [OF assms(1,5) s, of io "orders_in g"] obtain rb' where f:
    "frame_loop io rb (orders_in g) = (rb', foldl (take_message io) (orders_in g) ms, c)"
    "\<not> c \<longrightarrow> ring_ok rb' \<and> pending rb' = r \<and> partial rb' = q \<and> rb_websocket_ready rb' = rb_websocket_ready rb"
    by blast
  have "split_messages (p0 @ p) = (fst (split_messages p0) @ ms, q)"
    using split_messages_append [of p0 p] s assms(4) by (simp split: prod.splits)
  then show ?thesis
    using f assms(2,3) by (auto simp: read_frames_def represents_def buffer_ok_def conn_closed_def)
qed

lemma handle_read_step:
  assumes "case client_buffers g fd of None \<Rightarrow> h = [] | Some rb \<Rightarrow> represents rb h"
  shows "\<exists>ms as. conn_messages (h @ bs) = conn_messages h @ ms \<and> conn_answers (h @ bs) = conn_answers h @ as \<and>
      orders_in (handle_read io g (fd, bs)) = foldl (take_message io) (orders_in g) ms \<and>
      answers (handle_read io g (fd, bs)) = answers g @ map (\<lambda>s. (fd, s)) as \<and>
      (\<exists>b. client_buffers (handle_read io g (fd, bs)) = (client_buffers g)(fd := b) \<and> buffer_ok b (h @ bs))"
proof -
  define rb where "rb = (case client_buffers g fd of None \<Rightarrow> new_ring | Some rb \<Rightarrow> rb)"
  have rep: "represents rb h" using assms(1) by (auto simp: rb_def split: option.splits)
  let ?rb = "rb\<lparr>rb_data := rb_data rb @ bs\<rparr>"
  have hr: "handle_read io g (fd, bs) =
     (if rb_websocket_ready rb then read_frames io fd ?rb g
      else case server_upgrade (text_of (rb_data rb @ bs)) of
             Incomplete \<Rightarrow> g\<lparr>client_buffers := (client_buffers g)(fd := Some ?rb)\<rparr>
           | NoKey \<Rightarrow> g\<lparr>client_buffers := (client_buffers g)(fd := None)\<rparr>
           | Upgraded resp rest \<Rightarrow>
               read_frames io fd (?rb\<lparr>rb_data := ascii rest, rb_read_ptr := 0, rb_websocket_ready := True\<rparr>)
                 (g\<lparr>answers := answers g @ [(fd, resp)]\<rparr>))"
    by (simp add: handle_read_def rb_def Let_def cong: if_cong upgrade.case_cong)
  show ?thesis
  proof (cases "conn_of h")
    case Waiting_Upgrade
    then have w: "\<not> rb_websocket_ready rb" "rb_data rb = h" "rb_read_ptr rb = 0" "partial rb = []" "ring_ok rb"
      using rep by (simp_all add: represents_def)
    have none: "conn_messages h = []" "conn_answers h = []"
      using Waiting_Upgrade by (simp_all add: conn_messages_def conn_answers_def)
    show ?thesis
    proof (cases "server_upgrade (text_of (h @ bs))")
      case Incomplete
      then have c: "conn_of (h @ bs) = Waiting_Upgrade" by (simp add: conn_of_def)
      with w have "represents ?rb (h @ bs)" by (simp add: represents_def ring_ok_def partial_def)
      with c w none Incomplete show ?thesis
        by (auto simp: hr conn_messages_def conn_answers_def buffer_ok_def conn_closed_def)
    next
      case NoKey
      then have "conn_of (h @ bs) = Refused_Upgrade" by (simp add: conn_of_def)
      with w none NoKey show ?thesis
        by (auto simp: hr conn_messages_def conn_answers_def buffer_ok_def conn_closed_def)
    next
      case (Upgraded resp rest)
      obtain p r c where u: "unframe (ascii rest) = (p, r, c)" by (cases "unframe (ascii rest)")
      then have c: "conn_of (h @ bs) = Live resp p r c" using Upgraded by (simp add: conn_of_def)
      let ?r = "?rb\<lparr>rb_data := ascii rest, rb_read_ptr := 0, rb_websocket_ready := True\<rparr>"
      have "ring_ok ?r" "partial ?r = snd (split_messages [])" "unframe (pending ?r) = (p, r, c)"
        using w(4,5) u by (simp_all add: ring_ok_def partial_def pending_def MSG_SIZE_def)
      from read_frames_step [OF this(1) _ _ this(2,3), of "h @ bs" resp io fd "g\<lparr>answers := answers g @ [(fd, resp)]\<rparr>"]
        c w(1,2) Upgraded none show ?thesis
        by (auto simp: hr conn_messages_def conn_answers_def MSG_SIZE_def)
    qed
  next
    case Refused_Upgrade
    with rep show ?thesis by (simp add: represents_def)
  next
    case (Live resp p r c)
    then have l: "\<not> c" "rb_websocket_ready rb" "pending rb = r" "partial rb = snd (split_messages p)" "ring_ok rb"
      using rep by (simp_all add: represents_def)
    obtain p' r' c' where u: "unframe (r @ bs) = (p', r', c')" by (cases "unframe (r @ bs)")
    have c: "conn_of (h @ bs) = Live resp (p @ p') r' c'" using conn_of_live [of h resp p r bs] Live l(1) u by simp
    have "ring_ok ?rb" "partial ?rb = snd (split_messages p)" "unframe (pending ?rb) = (p', r', c')"
      using l u by (auto simp: ring_ok_def partial_def pending_def)
    from read_frames_step [OF this(1) _ _ this(2,3), of "h @ bs" resp io fd g] c l(2) Live show ?thesis
      by (auto simp: hr conn_messages_def conn_answers_def)
  qed
qed

end
