(* ===== verification/GatewayOrders.thy ===== *)
theory GatewayOrders
  imports GatewayStream BotFleet "HOL-Library.Sublist"
begin

text \<open>
  The gateway with all its connections. However the reads of different connections interleave and
  wherever the network cuts the bytes, the orders enqueued are an interleaving of what each connection's
  bytes say; and what a bot of the fleet writes says exactly the orders it placed.
\<close>

section \<open>Interleaved connections\<close>

definition owned :: "int \<Rightarrow> (int \<times> 'a) list \<Rightarrow> 'a list" where
  "owned fd logged = map snd (filter (\<lambda>x. fst x = fd) logged)"

lemma owned_simps [simp]:
  "owned fd [] = []" "owned fd ((k, x) # logged) = (if k = fd then x # owned fd logged else owned fd logged)"
  "owned fd (logged @ logged') = owned fd logged @ owned fd logged'"
  "owned fd (map (\<lambda>x. (k, x)) xs) = (if k = fd then xs else [])"
  by (auto simp: owned_def comp_def)

definition bytes_from :: "int \<Rightarrow> (int \<times> bytes) list \<Rightarrow> bytes" where
  "bytes_from fd evs = concat (owned fd evs)"

lemma bytes_from_simps [simp]:
  "bytes_from fd [] = []" "bytes_from fd (evs @ [(k, bs)]) = (if k = fd then bytes_from fd evs @ bs else bytes_from fd evs)"
  by (auto simp: bytes_from_def)

text \<open>Nothing is read from a descriptor after the gateway has closed it.\<close>

definition reads_open :: "(int \<times> bytes) list \<Rightarrow> bool" where
  "reads_open evs \<longleftrightarrow>
     (\<forall>pre fd bs post. evs = pre @ (fd, bs) # post \<longrightarrow> \<not> conn_closed (bytes_from fd pre))"

lemma reads_open_snoc:
  "reads_open (evs @ [(k, bs)]) \<Longrightarrow> reads_open evs \<and> \<not> conn_closed (bytes_from k evs)"
  unfolding reads_open_def by (metis append_Cons append_assoc)

definition buffer_now :: "ring_buffer option \<Rightarrow> bytes \<Rightarrow> bool" where
  "buffer_now b h \<longleftrightarrow> h = [] \<and> b = None \<or> buffer_ok b h"

lemma gateway_run:
  "reads_open evs \<Longrightarrow>
     \<exists>logged. orders_in (foldl (handle_read io) new_gateway evs) =
         foldl (take_message io) (orders_in new_gateway) (map snd logged) \<and>
       (\<forall>fd. owned fd logged = conn_messages (bytes_from fd evs) \<and>
          owned fd (answers (foldl (handle_read io) new_gateway evs)) = conn_answers (bytes_from fd evs) \<and>
          buffer_now (client_buffers (foldl (handle_read io) new_gateway evs) fd) (bytes_from fd evs))"
proof (induction evs rule: rev_induct)
  case Nil
  have "conn_messages [] = []" "conn_answers [] = []" by (simp_all add: conn_messages_def conn_answers_def)
  then show ?case by (intro exI [of _ "[]"]) (simp add: new_gateway_def buffer_now_def)
next
  case (snoc ev evs)
  obtain k bs where ev: "ev = (k, bs)" by (cases ev)
  let ?g = "foldl (handle_read io) new_gateway evs"
  have before: "reads_open evs" "\<not> conn_closed (bytes_from k evs)"
    using reads_open_snoc snoc.prems unfolding ev by blast+
  then obtain logged where logged: "orders_in ?g = foldl (take_message io) (orders_in new_gateway) (map snd logged)"
    "\<And>fd. owned fd logged = conn_messages (bytes_from fd evs)"
    "\<And>fd. owned fd (answers ?g) = conn_answers (bytes_from fd evs)"
    "\<And>fd. buffer_now (client_buffers ?g fd) (bytes_from fd evs)"
    using snoc.IH by auto
  have "case client_buffers ?g k of None \<Rightarrow> bytes_from k evs = [] | Some rb \<Rightarrow> represents rb (bytes_from k evs)"
    using logged(4) [of k] before(2) by (auto simp: buffer_now_def buffer_ok_def)
  from handle_read_step [OF this, of bs io] obtain ms as b where
    s: "conn_messages (bytes_from k evs @ bs) = conn_messages (bytes_from k evs) @ ms"
      "conn_answers (bytes_from k evs @ bs) = conn_answers (bytes_from k evs) @ as"
      "orders_in (handle_read io ?g (k, bs)) = foldl (take_message io) (orders_in ?g) ms"
      "answers (handle_read io ?g (k, bs)) = answers ?g @ map (\<lambda>s. (k, s)) as"
      "client_buffers (handle_read io ?g (k, bs)) = (client_buffers ?g)(k := b)"
      "buffer_ok b (bytes_from k evs @ bs)" by blast
  show ?case
    using logged s by (intro exI [of _ "logged @ map (\<lambda>m. (k, m)) ms"]) (simp add: ev comp_def buffer_now_def)
qed

section \<open>A bot's frames\<close>

definition message_svals :: "order_message \<Rightarrow> sval list" where
  "message_svals m = order_svals (order_id m) (timestamp_ns m) (msg_price m) (msg_qty m) (msg_side m)"

definition message_fits :: "order_message \<Rightarrow> bool" where
  "message_fits m \<longleftrightarrow> fits ORDER_FORMAT (message_svals m)"

lemma message_unpacked:
  assumes "unpack ORDER_FORMAT bs = message_svals m"
  shows "message_at bs 0 = m"
  using assms by (cases m) (simp add: ORDER_FORMAT_def message_svals_def order_svals_def message_at_def)

definition message_bytes :: "order_message \<Rightarrow> bytes" where
  "message_bytes m = (case pack ORDER_FORMAT (message_svals m) of Inr bs \<Rightarrow> bs | Inl e \<Rightarrow> [])"

lemma message_packed:
  assumes "message_fits m"
  shows "pack ORDER_FORMAT (message_svals m) = Inr (message_bytes m)" "length (message_bytes m) = 32"
    "message_at (message_bytes m @ rest) 0 = m"
  using pack_roundtrip [OF assms [unfolded message_fits_def]] message_unpacked
  by (auto simp: message_bytes_def)

lemma split_message: "message_fits m \<Longrightarrow>
    split_messages (message_bytes m @ rest) = (let (ms, r) = split_messages rest in (m # ms, r))"
  using message_packed(2,3) [of m]
  by (simp add: split_messages.simps [of "message_bytes m @ rest"] MSG_SIZE_def)

lemma split_all: "list_all message_fits ms \<Longrightarrow> split_messages (concat (map message_bytes ms)) = (ms, [])"
  by (induction ms) (simp_all add: split_message MSG_SIZE_def)

definition frame_bytes :: "bytes \<Rightarrow> bytes \<Rightarrow> bytes" where
  "frame_bytes msk payload = [0x82, 0xA0] @ msk @ mask_bytes msk payload"

lemma frame_bytes_eq: "length payload = 32 \<Longrightarrow> websocket_binary_frame msk payload = Inr (frame_bytes msk payload)"
  by (simp add: websocket_binary_frame_def frame_bytes_def)

lemma mask_twice [simp]: "mask_bytes msk (mask_bytes msk payload) = payload"
  by (rule nth_equalityI) (simp_all add: mask_bytes_def xor.assoc)

lemma length_mask_bytes [simp]: "length (mask_bytes msk payload) = length payload"
  by (simp add: mask_bytes_def)

lemma parse_frame_bytes:
  assumes "length msk = 4" "length payload = 32"
  shows "parse_frame (frame_bytes msk payload @ rest) = Frame 2 payload 38"
proof -
  have b: "(0x82 :: 8 word) AND 0x0F = 2" "(0xA0 :: 8 word) AND 0x80 \<noteq> 0" "unat ((0xA0 :: 8 word) AND 0x7F) = 32"
    by simp_all
  have "parse_frame (frame_bytes msk payload @ rest) = frame_body 2 True 32 2 (frame_bytes msk payload @ rest)"
    by (simp add: parse_frame_def frame_bytes_def frame_at_def b)
  then show ?thesis using assms by (simp add: frame_body_def frame_bytes_def)
qed

lemma unframe_frame:
  assumes "length msk = 4" "length payload = 32"
  shows "unframe (frame_bytes msk payload @ rest) = (let (p, r, c) = unframe rest in (payload @ p, r, c))"
  using assms
  by (simp add: unframe.simps [of "frame_bytes msk payload @ rest"] parse_frame_bytes)
    (simp add: frame_bytes_def)

lemma unframe_Nil [simp]: "unframe [] = ([], [], False)"
  by (simp add: unframe.simps parse_frame_def)

lemma unframe_all:
  "list_all (\<lambda>x. length (fst x) = 4 \<and> message_fits (snd x)) sent \<Longrightarrow>
     unframe (concat (map (\<lambda>x. frame_bytes (fst x) (message_bytes (snd x))) sent)) =
       (concat (map (message_bytes \<circ> snd) sent), [], False)"
  by (induction sent) (simp_all add: unframe_frame message_packed(2))

lemma text_of_ascii [simp]: "text_of (ascii s) = s"
proof -
  have "char_of (uint (of_char c :: 8 word)) = c" for c
  proof -
    have "(of_char c :: 8 word) = word_of_int (of_char c)" by (simp only: of_int_of_char)
    then show ?thesis by (simp only: uint_word_of_int_8 of_char_mod_256 char_of_char)
  qed
  then show ?thesis by (simp add: text_of_def ascii_def comp_def)
qed

lemma bot_stream_decoded:
  assumes "LF \<notin> set h" "length rand = 16" "list_all (\<lambda>x. length (fst x) = 4 \<and> message_fits (snd x)) sent"
    and "bs = ascii (handshake_request h p (base64 rand)) @
           concat (map (\<lambda>x. frame_bytes (fst x) (message_bytes (snd x))) sent)"
  shows "conn_messages bs = map snd sent" "conn_answers bs = [upgrade_response (base64 rand)]" "\<not> conn_closed bs"
proof -
  have "server_upgrade (text_of bs) = Upgraded (upgrade_response (base64 rand))
      (text_of (concat (map (\<lambda>x. frame_bytes (fst x) (message_bytes (snd x))) sent)))"
    using server_upgrade_append [of "handshake_request h p (base64 rand)"] request_upgraded [OF assms(1,2)]
    by (simp add: assms(4))
  then have c: "conn_of bs = Live (upgrade_response (base64 rand)) (concat (map message_bytes (map snd sent))) [] False"
    by (simp add: conn_of_def unframe_all [OF assms(3)])
  have "list_all message_fits (map snd sent)" using assms(3) by (auto simp: list_all_iff)
  from split_all [OF this] c
  show "conn_messages bs = map snd sent" "conn_answers bs = [upgrade_response (base64 rand)]" "\<not> conn_closed bs"
    by (simp_all add: conn_messages_def conn_answers_def conn_closed_def)
qed

lemma conn_messages_append:
  assumes "\<not> conn_closed (h @ bs)"
  shows "prefix (conn_messages h) (conn_messages (h @ bs))"
proof (cases "conn_of h")
  case (Live resp p r c)
  then have "\<not> c" using assms conn_closed_append [of h bs] by (auto simp: conn_closed_def)
  with Live conn_of_live [of h resp p r bs] show ?thesis
    by (auto simp: conn_messages_def split_messages_append [of p] split: prod.split)
qed (simp_all add: conn_messages_def)

section \<open>A bot at work\<close>

text \<open>The orders a strategy places, each with what the network does to it.\<close>

record order_call =
  call_env :: order_env
  call_side :: char
  call_qty :: int
  call_price :: pyfloat

definition place_call :: "bot \<Rightarrow> order_call \<Rightarrow> bot" where
  "place_call b c = fst (place (call_env c) (call_side c) (call_qty c) (call_price c) b)"

definition call_message :: "int \<Rightarrow> order_call \<Rightarrow> order_message" where
  "call_message k c =
     \<lparr>order_id = k, timestamp_ns = at_ns (call_env c), msg_price = call_price c, msg_qty = call_qty c,
      msg_side = side_code (call_side c)\<rparr>"

fun sent_by :: "int \<Rightarrow> order_call list \<Rightarrow> (bytes \<times> order_message) list" where
  "sent_by k [] = []"
| "sent_by k (c # cs) = (frame_mask (call_env c), call_message (k + 1) c) # sent_by (k + 1) cs"

definition call_ok :: "order_call \<Rightarrow> bool" where
  "call_ok c \<longleftrightarrow> write_ok (call_env c) \<and> length (frame_mask (call_env c)) = 4 \<and>
     0 \<le> at_ns (call_env c) \<and> at_ns (call_env c) < 2 ^ 64 \<and> float_ok (call_price c) \<and>
     0 \<le> call_qty c \<and> call_qty c < 2 ^ 32"

lemma call_message_fits: "call_ok c \<Longrightarrow> 0 \<le> k \<Longrightarrow> k < 2 ^ 64 \<Longrightarrow> message_fits (call_message k c)"
  by (simp add: message_fits_def message_svals_def order_svals_def ORDER_FORMAT_def call_message_def
      call_ok_def side_code_def)

lemma place_call_open:
  assumes "writer b = Open" "0 \<le> order_id_counter b" "order_id_counter b + 1 < 2 ^ 64" "call_ok c"
  shows "place_call b c =
    b\<lparr>order_id_counter := order_id_counter b + 1, orders_sent := orders_sent b + 1,
      log_frames := log_frames b @
        [frame_bytes (frame_mask (call_env c)) (message_bytes (call_message (order_id_counter b + 1) c))]\<rparr>"
proof -
  let ?m = "call_message (order_id_counter b + 1) c"
  have "message_fits ?m" using assms by (intro call_message_fits) auto
  note m = message_packed [OF this]
  have "format_order (call_side c) (call_qty c) (call_price c) (at_ns (call_env c)) b =
      (Inr (message_bytes ?m), b\<lparr>order_id_counter := order_id_counter b + 1\<rparr>)"
    using m(1) by (simp add: format_order_def generate_order_id_def message_svals_def order_svals_def
        call_message_def Let_def)
  then show ?thesis
    using assms(1,4) frame_bytes_eq [OF m(2)]
    by (simp add: place_call_def place_def send_order_def write_frame_def call_ok_def)
qed

lemma places_open:
  "writer b = Open \<Longrightarrow> 0 \<le> order_id_counter b \<Longrightarrow> order_id_counter b + int (length cs) < 2 ^ 64 \<Longrightarrow>
   list_all call_ok cs \<Longrightarrow>
     log_requests (foldl place_call b cs) = log_requests b \<and>
     log_frames (foldl place_call b cs) = log_frames b @
       map (\<lambda>x. frame_bytes (fst x) (message_bytes (snd x))) (sent_by (order_id_counter b) cs)"
proof (induction cs arbitrary: b)
  case (Cons c cs)
  have "order_id_counter b + 1 < 2 ^ 64" "call_ok c" using Cons.prems(3,4) by simp_all
  note p = place_call_open [OF Cons.prems(1,2) this]
  show ?case using Cons.IH [of "place_call b c"] Cons.prems(2-4) by (simp add: p Cons.prems(1))
qed simp

lemma sent_by_fits:
  "list_all call_ok cs \<Longrightarrow> 0 \<le> k \<Longrightarrow> k + int (length cs) < 2 ^ 64 \<Longrightarrow>
     list_all (\<lambda>x. length (fst x) = 4 \<and> message_fits (snd x)) (sent_by k cs)"
  by (induction cs arbitrary: k) (auto simp: call_message_fits call_ok_def)

record client =
  c_id :: int
  c_host :: string
  c_port :: int
  c_rand :: bytes
  c_calls :: "order_call list"

text \<open>A bot that has connected and placed its orders, and the bytes it wrote to its socket.\<close>

definition client_bot :: "client \<Rightarrow> bot" where
  "client_bot c =
     foldl place_call
       (send_request (base64 (c_rand c)) ((new_bot (c_id c) (c_host c) (c_port c))\<lparr>running := True\<rparr>)) (c_calls c)"

definition wire :: "bot \<Rightarrow> bytes" where
  "wire b = ascii (concat (log_requests b)) @ concat (log_frames b)"

definition client_sent :: "client \<Rightarrow> order_message list" where
  "client_sent c = map snd (sent_by (c_id c * 1000000) (c_calls c))"

definition client_ok :: "client \<Rightarrow> bool" where
  "client_ok c \<longleftrightarrow> LF \<notin> set (c_host c) \<and> length (c_rand c) = 16 \<and> list_all call_ok (c_calls c) \<and>
     0 \<le> c_id c \<and> c_id c * 1000000 + int (length (c_calls c)) < 2 ^ 64"

lemma client_wire:
  assumes "client_ok c"
  shows "conn_messages (wire (client_bot c)) = client_sent c" "\<not> conn_closed (wire (client_bot c))"
proof -
  let ?b = "send_request (base64 (c_rand c)) ((new_bot (c_id c) (c_host c) (c_port c))\<lparr>running := True\<rparr>)"
  let ?s = "sent_by (c_id c * 1000000) (c_calls c)"
  have b: "writer ?b = Open" "order_id_counter ?b = c_id c * 1000000" "log_frames ?b = []"
    "log_requests ?b = [handshake_request (c_host c) (c_port c) (base64 (c_rand c))]"
    by (simp_all add: send_request_def opened_def new_bot_def)
  have "wire (client_bot c) = ascii (handshake_request (c_host c) (c_port c) (base64 (c_rand c))) @
      concat (map (\<lambda>x. frame_bytes (fst x) (message_bytes (snd x))) ?s)"
    using places_open [of ?b "c_calls c"] assms b by (simp add: wire_def client_bot_def client_ok_def)
  moreover have "list_all (\<lambda>x. length (fst x) = 4 \<and> message_fits (snd x)) ?s"
    using assms by (intro sent_by_fits) (auto simp: client_ok_def)
  ultimately show "conn_messages (wire (client_bot c)) = client_sent c" "\<not> conn_closed (wire (client_bot c))"
    using bot_stream_decoded [of "c_host c" "c_rand c" ?s] assms by (auto simp: client_ok_def client_sent_def)
qed

text \<open>What has arrived of the clients' bytes.\<close>

definition arriving :: "(int \<Rightarrow> client option) \<Rightarrow> (int \<times> bytes) list \<Rightarrow> bool" where
  "arriving clients evs \<longleftrightarrow>
     (\<forall>fd. case clients fd of None \<Rightarrow> bytes_from fd evs = []
        | Some c \<Rightarrow> client_ok c \<and> prefix (bytes_from fd evs) (wire (client_bot c)))"

lemma arriving_open: "arriving clients evs \<Longrightarrow> \<not> conn_closed (bytes_from fd evs)"
proof (cases "clients fd")
  case None
  moreover assume "arriving clients evs"
  ultimately have "bytes_from fd evs = []" by (auto simp: arriving_def dest: spec [of _ fd])
  then show ?thesis by (simp add: conn_closed_def)
next
  case (Some c)
  moreover assume "arriving clients evs"
  ultimately have c: "client_ok c" "prefix (bytes_from fd evs) (wire (client_bot c))"
    by (auto simp: arriving_def dest: spec [of _ fd])
  then obtain bs where "wire (client_bot c) = bytes_from fd evs @ bs" by (auto simp: prefix_def)
  with client_wire(2) [OF c(1)] conn_closed_append show ?thesis by metis
qed

lemma arriving_reads_open: "arriving clients evs \<Longrightarrow> reads_open evs"
proof -
  assume a: "arriving clients evs"
  have "\<not> conn_closed (bytes_from fd pre)" if "evs = pre @ (fd, bs) # post" for pre fd bs post
  proof -
    have "bytes_from fd evs = bytes_from fd pre @ bs @ bytes_from fd post" by (simp add: that bytes_from_def)
    with arriving_open [OF a, of fd] conn_closed_append show ?thesis by metis
  qed
  then show ?thesis by (simp add: reads_open_def)
qed

text \<open>The orders are an interleaving of prefixes of what the clients sent.\<close>

definition interleaves :: "(int \<Rightarrow> client option) \<Rightarrow> (int \<times> order_message) list \<Rightarrow> bool" where
  "interleaves clients logged \<longleftrightarrow>
     (\<forall>fd. case clients fd of None \<Rightarrow> owned fd logged = [] | Some c \<Rightarrow> prefix (owned fd logged) (client_sent c))"

lemma arriving_orders:
  assumes "arriving clients evs"
  shows "\<exists>logged. orders_in (foldl (handle_read io) new_gateway evs) =
       foldl (take_message io) (orders_in new_gateway) (map snd logged) \<and> interleaves clients logged \<and>
     (\<forall>fd c. clients fd = Some c \<longrightarrow> bytes_from fd evs = wire (client_bot c) \<longrightarrow> owned fd logged = client_sent c)"
proof -
  from gateway_run [of evs io] arriving_reads_open [OF assms] obtain logged where l:
    "orders_in (foldl (handle_read io) new_gateway evs) =
       foldl (take_message io) (orders_in new_gateway) (map snd logged)"
    "\<And>fd. owned fd logged = conn_messages (bytes_from fd evs)" by blast
  have "case clients fd of None \<Rightarrow> owned fd logged = [] | Some c \<Rightarrow> prefix (owned fd logged) (client_sent c)" for fd
  proof (cases "clients fd")
    case None
    with assms have "bytes_from fd evs = []" by (auto simp: arriving_def dest: spec [of _ fd])
    with None l(2) show ?thesis by (simp add: conn_messages_def)
  next
    case (Some c)
    with assms have c: "client_ok c" "prefix (bytes_from fd evs) (wire (client_bot c))"
      by (auto simp: arriving_def dest: spec [of _ fd])
    then obtain bs where "wire (client_bot c) = bytes_from fd evs @ bs" by (auto simp: prefix_def)
    with client_wire [OF c(1)] conn_messages_append [of "bytes_from fd evs" bs] Some l(2) show ?thesis by simp
  qed
  moreover have "owned fd logged = client_sent c" if "clients fd = Some c" "bytes_from fd evs = wire (client_bot c)" for fd c
  proof -
    have "client_ok c" using assms that(1) by (auto simp: arriving_def dest: spec [of _ fd])
    from client_wire(1) [OF this] that(2) l(2) show ?thesis by simp
  qed
  ultimately show ?thesis using l(1) by (auto simp: interleaves_def)
qed

text \<open>
  C7. The gateway decodes byte streams. For any interleaving of reads from any connections, cut anywhere:
  the orders it has made are made, in order, of an interleaving of each connection's messages, which
  depend on nothing but the bytes of that connection; each upgraded connection has been answered exactly
  once; and it keeps a buffer for exactly the connections it has read from and not closed, which it does
  when the upgrade has no key, a frame is unmasked or too long, or asks for the end. The buffers, read
  pointers and compactions show nowhere else.
\<close>

theorem gateway_decodes:
  assumes "reads_open evs"
  shows "\<exists>logged. orders_in (foldl (handle_read io) new_gateway evs) =
       foldl (take_message io) (orders_in new_gateway) (map snd logged) \<and>
     (\<forall>fd. owned fd logged = conn_messages (bytes_from fd evs)) \<and>
     (\<forall>fd. owned fd (answers (foldl (handle_read io) new_gateway evs)) = conn_answers (bytes_from fd evs)) \<and>
     (\<forall>fd. conn_closed (bytes_from fd evs) \<longrightarrow> client_buffers (foldl (handle_read io) new_gateway evs) fd = None) \<and>
     (\<forall>fd. bytes_from fd evs \<noteq> [] \<longrightarrow> \<not> conn_closed (bytes_from fd evs) \<longrightarrow>
        client_buffers (foldl (handle_read io) new_gateway evs) fd \<noteq> None)"
  using gateway_run [OF assms, of io] unfolding buffer_now_def buffer_ok_def by (metis option.distinct(1))


definition lone_client :: client where
  "lone_client =
     \<lparr>c_id = 3, c_host = ''engine'', c_port = 8080, c_rand = replicate 16 9,
      c_calls = [\<lparr>call_env = \<lparr>at_ns = 50, attempts = [], write_ok = True, frame_mask = [1, 2, 3, 4]\<rparr>,
                  call_side = CHR ''B'', call_qty = 10, call_price = Fin 100\<rparr>]\<rparr>"

definition lone_reads :: "(int \<times> bytes) list" where
  "lone_reads = (let w = wire (client_bot lone_client) in [(4, take 7 w), (4, drop 7 w)])"

definition lone_io :: gateway_io where
  "lone_io = \<lparr>gateway_clock = (\<lambda>n. 100), enqueues = (\<lambda>_ _. True)\<rparr>"

lemma lone_client_ok: "client_ok lone_client"
  using float_ok_of_int [of 100] by (simp add: client_ok_def lone_client_def call_ok_def)

lemma lone_bytes: "bytes_from fd lone_reads = (if fd = 4 then wire (client_bot lone_client) else [])"
  by (simp add: lone_reads_def bytes_from_def Let_def)

theorem gateway_decodes_witness:
  "\<exists>logged. owned 4 logged = client_sent lone_client \<and>
     orders_in (foldl (handle_read lone_io) new_gateway lone_reads) =
       foldl (take_message lone_io) (orders_in new_gateway) (map snd logged)"
proof -
  have "arriving [4 \<mapsto> lone_client] lone_reads"
    by (simp add: arriving_def lone_bytes lone_client_ok)
  then have "reads_open lone_reads" by (rule arriving_reads_open)
  from gateway_decodes [OF this, of lone_io] obtain logged where
    "orders_in (foldl (handle_read lone_io) new_gateway lone_reads) =
       foldl (take_message lone_io) (orders_in new_gateway) (map snd logged)"
    "\<forall>fd. owned fd logged = conn_messages (bytes_from fd lone_reads)" by blast
  then show ?thesis
    using client_wire(1) [OF lone_client_ok] by (intro exI [of _ logged]) (simp add: lone_bytes)
qed


end
