(* ===== verification/EngineBook.thy ===== *)
theory EngineBook
  imports Engine
begin

text \<open>
  The order book as a price-time queue. The abstract book is two plain lists of orders, best first; the
  engine's levels, vectors and recorded positions implement it (\<open>book_ok\<close>, \<open>view\<close>): adding, matching and
  cancelling act on the lists as the specification says, and every recorded position addresses its order.
\<close>

section \<open>The abstract book\<close>

fun insert_order :: "bool \<Rightarrow> order \<Rightarrow> order list \<Rightarrow> order list" where
  "insert_order buy o' [] = [o']"
| "insert_order buy o' (x # xs) =
     (if key_before buy (limit_price o') (limit_price x) then o' # x # xs else x # insert_order buy o' xs)"

definition reduce :: "int \<Rightarrow> order list \<Rightarrow> order list" where
  "reduce traded os =
     (if quantity (hd os) = traded then tl os
      else (hd os)\<lparr>quantity := quantity (hd os) - traded\<rparr> # tl os)"

type_synonym view = "order list \<times> order list"

text \<open>The best bid and the best ask trade while they cross; each trade is the two orders as they met.\<close>

definition flat_step :: "view \<Rightarrow> ((order \<times> order) \<times> view) option" where
  "flat_step v =
     (case v of
        (b # bs, a # as) \<Rightarrow>
          if flt (limit_price b) (limit_price a) then None
          else (let traded = min (quantity b) (quantity a)
                in Some ((b, a), (reduce traded (b # bs), reduce traded (a # as))))
      | _ \<Rightarrow> None)"

lemma flat_step_Some:
  "flat_step v = Some (p, v') \<longleftrightarrow>
     (\<exists>b bs a as. v = (b # bs, a # as) \<and> \<not> flt (limit_price b) (limit_price a) \<and> p = (b, a) \<and>
        v' = (reduce (min (quantity b) (quantity a)) (b # bs), reduce (min (quantity b) (quantity a)) (a # as)))"
  by (auto simp: flat_step_def Let_def split: prod.splits list.splits)

lemma flat_step_shrinks:
  "flat_step v = Some (p, v') \<Longrightarrow> length (fst v') + length (snd v') < length (fst v) + length (snd v)"
  by (auto simp: flat_step_def reduce_def Let_def min_def split: prod.splits list.splits if_splits)

function flat_match :: "view \<Rightarrow> (order \<times> order) list \<times> view" where
  "flat_match v =
     (case flat_step v of
        None \<Rightarrow> ([], v)
      | Some (p, v') \<Rightarrow> (let (ps, v'') = flat_match v' in (p # ps, v'')))"
  by auto
termination
  by (relation "measure (\<lambda>v. length (fst v) + length (snd v))") (fastforce dest: flat_step_shrinks)+

declare flat_match.simps [simp del]

definition flat_add :: "order \<Rightarrow> view \<Rightarrow> (order \<times> order) list \<times> view" where
  "flat_add o' v =
     flat_match (if IsBuy o' then (insert_order True o' (fst v), snd v)
                 else (fst v, insert_order False o' (snd v)))"

section \<open>Well-formed levels\<close>

fun flatten :: "levels \<Rightarrow> order list" where
  "flatten [] = []"
| "flatten ((p, vec) # ls) = vec @ flatten ls"

fun levels_ok :: "bool \<Rightarrow> levels \<Rightarrow> bool" where
  "levels_ok buy [] \<longleftrightarrow> True"
| "levels_ok buy ((p, vec) # ls) \<longleftrightarrow>
     p \<noteq> NaN \<and> vec \<noteq> [] \<and> list_all (\<lambda>x. limit_price x = p) vec \<and>
     list_all (\<lambda>(q, w). key_before buy p q) ls \<and> levels_ok buy ls"

definition ids :: "order list \<Rightarrow> int list" where
  "ids = map OrderId"

lemma ids_simps [simp]: "ids [] = []" "ids (x # xs) = OrderId x # ids xs" "ids (xs @ ys) = ids xs @ ids ys"
  by (simp_all add: ids_def)

lemma keys_equal: "p \<noteq> NaN \<Longrightarrow> q \<noteq> NaN \<Longrightarrow> \<not> key_before buy p q \<Longrightarrow> \<not> key_before buy q p \<Longrightarrow> p = q"
  by (cases p; cases q) (auto simp: key_before_def split: if_splits)

lemma key_before_trans: "key_before buy p q \<Longrightarrow> key_before buy q r \<Longrightarrow> key_before buy p r"
  by (cases p; cases q; cases r) (auto simp: key_before_def split: if_splits)

lemma key_before_irrefl [simp]: "\<not> key_before buy p p"
  by (cases p) (auto simp: key_before_def)

lemma key_before_asym: "key_before buy p q \<Longrightarrow> \<not> key_before buy q p"
  using key_before_trans key_before_irrefl by blast

lemma flatten_later:
  "levels_ok buy ls \<Longrightarrow> list_all (\<lambda>(q, w). key_before buy p q) ls \<Longrightarrow> x \<in> set (flatten ls) \<Longrightarrow>
     key_before buy p (limit_price x)"
  by (induction ls) (auto simp: list_all_iff)

lemma insert_order_skip:
  "list_all (\<lambda>x. \<not> key_before buy (limit_price o') (limit_price x)) xs \<Longrightarrow>
     insert_order buy o' (xs @ ys) = xs @ insert_order buy o' ys"
  by (induction xs) auto

lemma insert_order_front:
  "list_all (\<lambda>x. key_before buy (limit_price o') (limit_price x)) xs \<Longrightarrow> insert_order buy o' xs = o' # xs"
  by (cases xs) auto

lemma push_order_keys:
  "list_all (\<lambda>(q, w). key_before buy p q) ls \<Longrightarrow> key_before buy p (limit_price o') \<Longrightarrow>
     list_all (\<lambda>(q, w). key_before buy p q) (fst (push_order buy o' ls))"
  by (induction buy o' ls rule: push_order.induct) (auto split: prod.splits)

lemma push_order_ok:
  "levels_ok buy ls \<Longrightarrow> limit_price o' \<noteq> NaN \<Longrightarrow>
     levels_ok buy (fst (push_order buy o' ls)) \<and>
     flatten (fst (push_order buy o' ls)) = insert_order buy o' (flatten ls)"
proof (induction buy o' ls rule: push_order.induct)
  case (1 buy o')
  then show ?case by simp
next
  case (2 buy o' p vec ls)
  consider (first) "key_before buy (limit_price o') p"
    | (later) "\<not> key_before buy (limit_price o') p" "key_before buy p (limit_price o')"
    | (same) "limit_price o' = p"
    using keys_equal [of "limit_price o'" p buy] 2(2,3) by auto
  then show ?case
  proof cases
    case first
    have "list_all (\<lambda>(q, w). key_before buy (limit_price o') q) ls"
      using 2(2) first key_before_trans [OF first] by (auto simp: list_all_iff)
    with first 2(2,3) show ?thesis by (cases vec) auto
  next
    case later
    have "list_all (\<lambda>x. \<not> key_before buy (limit_price o') (limit_price x)) vec"
      using 2(2) later by (auto simp: list_all_iff)
    with later 2 push_order_keys [of buy p ls o'] show ?thesis
      by (auto simp: insert_order_skip split: prod.splits)
  next
    case same
    have "list_all (\<lambda>x. \<not> key_before buy (limit_price o') (limit_price x)) vec"
      using 2(2) same by (auto simp: list_all_iff)
    moreover have "insert_order buy o' (flatten ls) = o' # flatten ls"
      using 2(2) same flatten_later [of buy ls p]
      by (intro insert_order_front) (auto simp: list_all_iff)
    ultimately show ?thesis using same 2(2,3) by (simp add: insert_order_skip)
  qed
qed

section \<open>Recorded positions\<close>

text \<open>The locations the code means to record, for a level from a position on, and for a whole side.\<close>

fun level_map :: "bool \<Rightarrow> pyfloat \<Rightarrow> nat \<Rightarrow> order list \<Rightarrow> order_map" where
  "level_map buy p i [] = Map.empty"
| "level_map buy p i (x # xs) =
     (level_map buy p (Suc i) xs)(OrderId x \<mapsto> \<lparr>l_buy = buy, l_price = p, vector_index = i\<rparr>)"

fun side_map :: "bool \<Rightarrow> levels \<Rightarrow> order_map" where
  "side_map buy [] = Map.empty"
| "side_map buy ((p, vec) # ls) = side_map buy ls ++ level_map buy p 0 vec"

lemma dom_level_map [simp]: "dom (level_map buy p i xs) = set (ids xs)"
  by (induction xs arbitrary: i) auto

lemma dom_side_map [simp]: "dom (side_map buy ls) = set (ids (flatten ls))"
  by (induction ls rule: flatten.induct) auto

lemma level_map_None: "level_map buy p i xs k = None \<longleftrightarrow> k \<notin> set (ids xs)"
  by (subst dom_level_map [of buy p i xs, symmetric]) (simp add: domIff del: dom_level_map)

lemma side_map_None: "side_map buy ls k = None \<longleftrightarrow> k \<notin> set (ids (flatten ls))"
  by (subst dom_side_map [of buy ls, symmetric]) (simp add: domIff del: dom_side_map)

lemma level_map_Some: "k \<in> set (ids xs) \<Longrightarrow> \<exists>loc. level_map buy p i xs k = Some loc"
  by (cases "level_map buy p i xs k") (simp_all add: level_map_None)

lemma id_in: "x \<in> set xs \<Longrightarrow> OrderId x \<in> set (ids xs)"
  by (simp add: ids_def)

lemma level_map_ids: "ids xs = ids ys \<Longrightarrow> level_map buy p i xs = level_map buy p i ys"
proof (induction xs arbitrary: i ys)
  case (Cons x xs)
  then obtain y zs where "ys = y # zs" "OrderId y = OrderId x" "ids xs = ids zs" by (cases ys) auto
  with Cons.IH [of zs "Suc i"] show ?case by simp
qed (simp add: ids_def)

lemma level_map_append:
  "distinct (ids (xs @ ys)) \<Longrightarrow>
     level_map buy p i (xs @ ys) = level_map buy p (i + length xs) ys ++ level_map buy p i xs"
proof (induction xs arbitrary: i)
  case (Cons x xs)
  then have "level_map buy p (Suc i) (xs @ ys) = level_map buy p (Suc i + length xs) ys ++ level_map buy p (Suc i) xs"
    by simp
  then show ?case by (auto simp: fun_eq_iff map_add_def)
qed simp

lemma map_restored: "k \<notin> dom m \<Longrightarrow> (m(k \<mapsto> v))(k := None) = m"
  by (auto simp: dom_def fun_eq_iff)

text \<open>Refreshing the positions of a run of orders, from wherever they were.\<close>

lemma reindex_moves:
  "distinct (ids xs) \<Longrightarrow> (\<And>x. x \<in> set xs \<Longrightarrow> m (OrderId x) = level_map buy p j xs (OrderId x)) \<Longrightarrow>
     reindex i xs m = m ++ level_map buy p i xs"
proof (induction xs arbitrary: i j m)
  case (Cons x xs)
  let ?m = "m(OrderId x \<mapsto> \<lparr>l_buy = buy, l_price = p, vector_index = i\<rparr>)"
  have m: "m (OrderId x) = Some \<lparr>l_buy = buy, l_price = p, vector_index = j\<rparr>" using Cons.prems(2) [of x] by simp
  have "?m (OrderId y) = level_map buy p (Suc j) xs (OrderId y)" if "y \<in> set xs" for y
  proof -
    have "OrderId y \<noteq> OrderId x" using Cons.prems(1) id_in [OF that] by auto
    with Cons.prems(2) [of y] that show ?thesis by simp
  qed
  with Cons.IH [of ?m "Suc j" "Suc i"] Cons.prems(1)
  have "reindex (Suc i) xs ?m = ?m ++ level_map buy p (Suc i) xs" by (simp add: fun_upd_def)
  moreover have "?m ++ level_map buy p (Suc i) xs = m ++ level_map buy p i (x # xs)"
  proof
    fix k show "(?m ++ level_map buy p (Suc i) xs) k = (m ++ level_map buy p i (x # xs)) k"
    proof (cases "k = OrderId x")
      case True
      then have "level_map buy p (Suc i) xs k = None" using Cons.prems(1) by (simp add: level_map_None)
      with True show ?thesis by (simp add: map_add_def)
    next
      case False
      then show ?thesis by (simp add: map_add_def split: option.split)
    qed
  qed
  moreover have "reindex i (x # xs) m = reindex (Suc i) xs ?m" using m by simp
  ultimately show ?case by (simp only:)
qed simp

lemma eraseAt_positions:
  assumes "distinct (ids (pre @ x # post))" "set (ids (pre @ x # post)) \<inter> dom r = {}"
  shows "eraseAt (pre @ x # post) (length pre) ((r ++ level_map buy p 0 (pre @ x # post))(OrderId x := None)) =
           (pre @ post, r ++ level_map buy p 0 (pre @ post))"
proof -
  let ?l = "length pre"
  let ?m = "(r ++ level_map buy p 0 (pre @ x # post))(OrderId x := None)"
  have d: "distinct (ids post)" "distinct (ids (pre @ post))" using assms(1) by auto
  have all: "level_map buy p 0 (pre @ x # post) = level_map buy p ?l (x # post) ++ level_map buy p 0 pre"
    using level_map_append [OF assms(1)] by simp
  have new: "level_map buy p 0 (pre @ post) = level_map buy p ?l post ++ level_map buy p 0 pre"
    using level_map_append [OF d(2)] by simp
  have r: "r k = None" if "k \<in> set (ids (pre @ x # post))" for k
    using that assms(2) by (auto simp: domIff)
  have at: "?m (OrderId y) = level_map buy p (Suc ?l) post (OrderId y)" if "y \<in> set post" for y
  proof -
    have y: "OrderId y \<in> set (ids post)" by (rule id_in [OF that])
    then have "OrderId y \<noteq> OrderId x" "level_map buy p 0 pre (OrderId y) = None"
      using assms(1) by (auto simp: level_map_None)
    moreover obtain loc where "level_map buy p (Suc ?l) post (OrderId y) = Some loc"
      using level_map_Some [OF y] by blast
    ultimately show ?thesis by (simp add: all map_add_def)
  qed
  have "?m ++ level_map buy p ?l post = r ++ level_map buy p 0 (pre @ post)"
  proof
    fix k
    consider "k = OrderId x" | "k \<in> set (ids post)" "k \<noteq> OrderId x" | "k \<noteq> OrderId x" "k \<notin> set (ids post)" by blast
    then show "(?m ++ level_map buy p ?l post) k = (r ++ level_map buy p 0 (pre @ post)) k"
    proof cases
      case 1
      then have "level_map buy p ?l post k = None" "level_map buy p 0 (pre @ post) k = None" "r k = None"
        using assms(1) r [of k] by (auto simp: level_map_None)
      with 1 show ?thesis by (simp add: map_add_def)
    next
      case 2
      then have "level_map buy p 0 pre k = None" using assms(1) by (auto simp: level_map_None)
      moreover obtain loc where "level_map buy p ?l post k = Some loc" using level_map_Some [OF 2(1)] by blast
      ultimately show ?thesis by (simp add: new map_add_def)
    next
      case 3
      then have "level_map buy p ?l post k = None" "level_map buy p (Suc ?l) post k = None"
        by (simp_all add: level_map_None)
      with 3(1) show ?thesis by (simp add: all new map_add_def split: option.split)
    qed
  qed
  with reindex_moves [OF d(1) at] have "reindex ?l post ?m = r ++ level_map buy p 0 (pre @ post)"
    by (simp only:)
  then show ?thesis by (simp add: eraseAt_def Let_def)
qed

section \<open>The engine's book\<close>

definition view :: "engine \<Rightarrow> view" where
  "view e = (flatten (buyOrders e), flatten (sellOrders e))"

definition book_ok :: "engine \<Rightarrow> bool" where
  "book_ok e \<longleftrightarrow>
     levels_ok True (buyOrders e) \<and> levels_ok False (sellOrders e) \<and>
     distinct (ids (fst (view e) @ snd (view e))) \<and>
     orderMap e = side_map False (sellOrders e) ++ side_map True (buyOrders e)"

text \<open>Everything but the book, and what a trade does to it.\<close>

definition ledger :: "engine \<Rightarrow> engine" where
  "ledger e = e\<lparr>buyOrders := [], sellOrders := [], orderMap := Map.empty\<rparr>"

definition record_trade :: "engine_io \<Rightarrow> engine \<Rightarrow> order \<times> order \<Rightarrow> engine" where
  "record_trade io e p =
     (let matchid = next_match_id e + 1;
          e = publish io (trade_of matchid (system_clock io (clock_reads e)) (fst p) (snd p))
                (e\<lparr>next_match_id := matchid, clock_reads := Suc (clock_reads e)\<rparr>)
      in e\<lparr>trades_executed := trades_executed e + 1\<rparr>)"

lemma publish_simps [simp]:
  "buyOrders (publish io ev e) = buyOrders e" "sellOrders (publish io ev e) = sellOrders e"
  "orderMap (publish io ev e) = orderMap e" "next_match_id (publish io ev e) = next_match_id e"
  "clock_reads (publish io ev e) = clock_reads e" "trades_executed (publish io ev e) = trades_executed e"
  by (simp_all add: publish_def)

lemma ledger_step:
  "ledger ((publish io ev e)\<lparr>trades_executed := n, orderMap := m, buyOrders := bs, sellOrders := ss\<rparr>) =
     (publish io ev (ledger e))\<lparr>trades_executed := n\<rparr>"
  by (simp add: ledger_def publish_def)

lemma ledger_simps [simp]:
  "next_match_id (ledger e) = next_match_id e" "clock_reads (ledger e) = clock_reads e"
  "trades_executed (ledger e) = trades_executed e" "events (ledger e) = events e"
  "ledger (e\<lparr>buyOrders := bs\<rparr>) = ledger e" "ledger (e\<lparr>sellOrders := bs\<rparr>) = ledger e"
  "ledger (e\<lparr>orderMap := m\<rparr>) = ledger e" "ledger (ledger e) = ledger e"
  "ledger (e\<lparr>next_match_id := k, clock_reads := j\<rparr>) = (ledger e)\<lparr>next_match_id := k, clock_reads := j\<rparr>"
  by (simp_all add: ledger_def)

subsection \<open>One round\<close>

lemma reduce_append: "vec \<noteq> [] \<Longrightarrow> reduce q (vec @ xs) = reduce q vec @ xs"
  by (simp add: reduce_def)

lemma set_reduce_ids: "vec \<noteq> [] \<Longrightarrow> set (ids (reduce q vec)) \<subseteq> set (ids vec)"
  by (cases vec) (auto simp: reduce_def)

lemma distinct_reduce:
  "vec \<noteq> [] \<Longrightarrow> distinct (ids (xs @ vec @ ys)) \<Longrightarrow> distinct (ids (xs @ reduce q vec @ ys))"
  by (cases vec) (auto simp: reduce_def)

lemma levels_ok_keep:
  "levels_ok buy ((p, vec) # ls) \<Longrightarrow> levels_ok buy (keep_level p (reduce q vec) ls)"
  by (cases vec) (auto simp: keep_level_def reduce_def list_all_iff)

lemma flatten_keep [simp]: "flatten (keep_level p vec ls) = vec @ flatten ls"
  by (simp add: keep_level_def)

lemma side_map_keep [simp]: "side_map buy (keep_level p vec ls) = side_map buy ls ++ level_map buy p 0 vec"
  by (simp add: keep_level_def)

lemma consume_front_reduce:
  assumes "vec \<noteq> []" "distinct (ids vec)" "set (ids vec) \<inter> dom r = {}"
  shows "consume_front q vec (r ++ level_map buy p 0 vec) = (reduce q vec, r ++ level_map buy p 0 (reduce q vec))"
proof -
  obtain x xs where v: "vec = x # xs" using assms(1) by (cases vec) auto
  let ?x = "x\<lparr>quantity := quantity x - q\<rparr>"
  have l: "level_map buy p 0 (?x # xs) = level_map buy p 0 vec" using v by (intro level_map_ids) simp
  show ?thesis
  proof (cases "quantity x = q")
    case True
    then show ?thesis
      using eraseAt_positions [of "[]" ?x xs r buy p] assms(2,3) v l
      by (simp add: consume_front_def reduce_def)
  next
    case False
    then show ?thesis using v l by (simp add: consume_front_def reduce_def)
  qed
qed

lemma match_step_view:
  assumes "book_ok e"
  shows "flat_step (view e) = None \<Longrightarrow> match_step io e = None"
    "flat_step (view e) = Some (p, v) \<Longrightarrow>
       \<exists>e'. match_step io e = Some e' \<and> view e' = v \<and> book_ok e' \<and> ledger e' = record_trade io (ledger e) p"
proof -
  have ok: "levels_ok True (buyOrders e)" "levels_ok False (sellOrders e)"
    "distinct (ids (flatten (buyOrders e) @ flatten (sellOrders e)))"
    "orderMap e = side_map False (sellOrders e) ++ side_map True (buyOrders e)"
    using assms by (simp_all add: book_ok_def view_def)
  show "match_step io e = None" if "flat_step (view e) = None"
    using that ok(1,2)
    by (cases "buyOrders e"; cases "sellOrders e")
      (auto simp: match_step_def flat_step_def view_def neq_Nil_conv Let_def split: if_splits)
  assume s: "flat_step (view e) = Some (p, v)"
  then obtain bp bv buys sp sv sells where
    b: "buyOrders e = (bp, bv) # buys" "sellOrders e = (sp, sv) # sells" "bv \<noteq> []" "sv \<noteq> []"
    using ok(1,2) by (cases "buyOrders e"; cases "sellOrders e") (auto simp: flat_step_Some view_def)
  have lim: "limit_price (hd bv) = bp" "limit_price (hd sv) = sp"
    using ok(1,2) b by (cases bv; cases sv; simp)+
  let ?q = "min (quantity (hd bv)) (quantity (hd sv))"
  let ?bv = "reduce ?q bv" and ?sv = "reduce ?q sv"
  have hds: "hd (bv @ xs) = hd bv" "hd (sv @ xs) = hd sv" for xs using b(3,4) by simp_all
  have flat: "\<not> flt bp sp" "p = (hd bv, hd sv)" "v = (?bv @ flatten buys, ?sv @ flatten sells)"
    using s b lim
    by (cases bv; cases sv; auto simp: flat_step_Some view_def reduce_append [symmetric])+
  have d: "distinct (ids (bv @ flatten buys @ sv @ flatten sells))" using ok(3) b by simp
  let ?S = "side_map False sells" and ?V = "level_map False sp 0 sv" and ?B = "side_map True buys"
  have m: "orderMap e = (?S ++ ?V ++ ?B) ++ level_map True bp 0 bv" using ok(4) b by simp
  have cb: "consume_front ?q bv (orderMap e) = (?bv, (?S ++ ?V ++ ?B) ++ level_map True bp 0 ?bv)"
    unfolding m by (rule consume_front_reduce [OF b(3)]) (use d in auto)
  have comm: "(?S ++ ?V ++ ?B) ++ level_map True bp 0 ?bv = (?S ++ ?B ++ level_map True bp 0 ?bv) ++ ?V"
  proof -
    have "dom ?V \<inter> dom (?B ++ level_map True bp 0 ?bv) = {}"
      using d set_reduce_ids [OF b(3), of ?q] by auto
    from map_add_comm [OF this] show ?thesis by (metis map_add_assoc)
  qed
  have cs: "consume_front ?q sv ((?S ++ ?V ++ ?B) ++ level_map True bp 0 ?bv) =
      (?sv, (?S ++ ?B ++ level_map True bp 0 ?bv) ++ level_map False sp 0 ?sv)"
    unfolding comm by (rule consume_front_reduce [OF b(4)]) (use d set_reduce_ids [OF b(3), of ?q] in auto)
  have both: "(?S ++ ?B ++ level_map True bp 0 ?bv) ++ level_map False sp 0 ?sv =
      side_map False (keep_level sp ?sv sells) ++ side_map True (keep_level bp ?bv buys)"
  proof -
    have "dom (level_map False sp 0 ?sv) \<inter> dom (?B ++ level_map True bp 0 ?bv) = {}"
      using d set_reduce_ids [OF b(3), of ?q] set_reduce_ids [OF b(4), of ?q] by auto
    from map_add_comm [OF this] show ?thesis by (simp, metis map_add_assoc)
  qed
  let ?ev = "trade_of (next_match_id e + 1) (system_clock io (clock_reads e)) (hd bv) (hd sv)"
  let ?e = "(publish io ?ev (e\<lparr>next_match_id := next_match_id e + 1, clock_reads := Suc (clock_reads e)\<rparr>))
     \<lparr>trades_executed := trades_executed e + 1,
      orderMap := side_map False (keep_level sp ?sv sells) ++ side_map True (keep_level bp ?bv buys),
      buyOrders := keep_level bp ?bv buys, sellOrders := keep_level sp ?sv sells\<rparr>"
  have "match_step io e = Some ?e"
    using b flat(1) cb cs both by (simp add: match_step_def Let_def)
  moreover have "view ?e = v" using flat(3) by (simp add: view_def)
  moreover have "book_ok ?e"
  proof -
    have "distinct (ids (?bv @ flatten buys @ ?sv @ flatten sells))"
      using distinct_reduce [OF b(4), of "?bv @ flatten buys" "flatten sells" ?q]
        distinct_reduce [OF b(3), of "[]" "flatten buys @ sv @ flatten sells" ?q] d by simp
    then show ?thesis
      using levels_ok_keep [of True bp bv buys ?q] levels_ok_keep [of False sp sv sells ?q] ok(1,2) b
      by (simp add: book_ok_def view_def)
  qed
  moreover have "ledger ?e = record_trade io (ledger e) p"
    unfolding ledger_step by (simp add: record_trade_def flat(2) Let_def)
  ultimately show "\<exists>e'. match_step io e = Some e' \<and> view e' = v \<and> book_ok e' \<and> ledger e' = record_trade io (ledger e) p"
    by blast
qed

subsection \<open>Matching, adding, cancelling\<close>

lemma matching_view:
  "book_ok e \<Longrightarrow> flat_match (view e) = (ps, v) \<Longrightarrow>
     book_ok (matching io e) \<and> view (matching io e) = v \<and>
     ledger (matching io e) = foldl (record_trade io) (ledger e) ps"
proof (induction io e arbitrary: ps rule: matching.induct)
  case (1 io e)
  show ?case
  proof (cases "flat_step (view e)")
    case None
    then have "match_step io e = None" by (rule match_step_view(1) [OF 1(2)])
    with 1(2,3) None show ?thesis by (simp add: matching.simps [of io e] flat_match.simps [of "view e"])
  next
    case (Some s)
    obtain p v' where s: "s = (p, v')" by (cases s)
    from match_step_view(2) [OF 1(2) Some [unfolded s], of io] obtain e' where
      e': "match_step io e = Some e'" "view e' = v'" "book_ok e'" "ledger e' = record_trade io (ledger e) p"
      by blast
    obtain qs w where q: "flat_match v' = (qs, w)" by (cases "flat_match v'")
    from 1(3) Some s q have "ps = p # qs" "v = w" by (simp_all add: flat_match.simps [of "view e"])
    with 1(1) [OF e'(1) e'(3), of qs] e' q show ?thesis by (simp add: matching.simps [of io e])
  qed
qed

lemma push_order_map:
  "levels_ok buy ls \<Longrightarrow> limit_price o' \<noteq> NaN \<Longrightarrow> distinct (OrderId o' # ids (flatten ls)) \<Longrightarrow>
     side_map buy (fst (push_order buy o' ls)) =
       (side_map buy ls)(OrderId o' \<mapsto> \<lparr>l_buy = buy, l_price = limit_price o', vector_index = snd (push_order buy o' ls)\<rparr>)"
proof (induction buy o' ls rule: push_order.induct)
  case (1 buy o')
  then show ?case by simp
next
  case (2 buy o' p vec ls)
  consider (first) "key_before buy (limit_price o') p"
    | (later) "\<not> key_before buy (limit_price o') p" "key_before buy p (limit_price o')"
    | (same) "limit_price o' = p"
    using keys_equal [of "limit_price o'" p buy] 2(2,3) by auto
  then show ?case
  proof cases
    case first
    then show ?thesis by simp
  next
    case later
    have "OrderId o' \<notin> dom (level_map buy p 0 vec)" using 2(4) by simp
    then have "(m(OrderId o' \<mapsto> loc)) ++ level_map buy p 0 vec = (m ++ level_map buy p 0 vec)(OrderId o' \<mapsto> loc)" for m loc
      by (simp add: map_add_upd_left)
    note over = this
    obtain ls' i where q: "push_order buy o' ls = (ls', i)" by (cases "push_order buy o' ls")
    with 2(1) [OF later] 2(2-4) have ih: "side_map buy ls' = (side_map buy ls)(OrderId o' \<mapsto>
        \<lparr>l_buy = buy, l_price = limit_price o', vector_index = i\<rparr>)" by auto
    have "side_map buy (fst (push_order buy o' ((p, vec) # ls))) = side_map buy ls' ++ level_map buy p 0 vec"
      "snd (push_order buy o' ((p, vec) # ls)) = i"
      using later q by simp_all
    then show ?thesis by (simp only: ih over side_map.simps)
  next
    case same
    have "distinct (ids (vec @ [o']))" using 2(4) by auto
    from level_map_append [OF this, of buy p 0] have l: "level_map buy p 0 (vec @ [o']) =
        [OrderId o' \<mapsto> \<lparr>l_buy = buy, l_price = p, vector_index = length vec\<rparr>] ++ level_map buy p 0 vec"
      by simp
    have "OrderId o' \<notin> dom (level_map buy p 0 vec)" using 2(4) by simp
    from map_add_upd_left [OF this] have over: "(m(OrderId o' \<mapsto> loc)) ++ level_map buy p 0 vec =
        (m ++ level_map buy p 0 vec)(OrderId o' \<mapsto> loc)" for m loc .
    have "push_order buy o' ((p, vec) # ls) = ((p, vec @ [o']) # ls, length vec)" using same by simp
    then show ?thesis by (simp only: fst_conv snd_conv side_map.simps l over map_add_assoc map_add_upd map_add_empty same)
  qed
qed

lemma insert_order_split: "\<exists>xs ys. os = xs @ ys \<and> insert_order buy o' os = xs @ o' # ys"
proof (induction os)
  case (Cons x os)
  then obtain xs ys where "os = xs @ ys" "insert_order buy o' os = xs @ o' # ys" by blast
  then show ?case
    by (cases "key_before buy (limit_price o') (limit_price x)")
      (auto intro: exI [of _ "[]"] exI [of _ "x # xs"])
qed simp

lemma distinct_insert_order:
  assumes "distinct (ids (as @ os @ bs))" "OrderId o' \<notin> set (ids (as @ os @ bs))"
  shows "distinct (ids (as @ insert_order buy o' os @ bs))"
proof -
  obtain xs ys where "os = xs @ ys" "insert_order buy o' os = xs @ o' # ys"
    using insert_order_split [of os buy o'] by blast
  with assms show ?thesis by auto
qed

lemma addOrder_pushed:
  assumes "book_ok e" "limit_price o' \<noteq> NaN" "OrderId o' \<notin> set (ids (fst (view e) @ snd (view e)))"
  shows "\<exists>u. addOrder io o' e = matching io u \<and> book_ok u \<and> ledger u = ledger e \<and>
     view u = (if IsBuy o' then (insert_order True o' (fst (view e)), snd (view e))
               else (fst (view e), insert_order False o' (snd (view e))))"
proof -
  have ok: "levels_ok True (buyOrders e)" "levels_ok False (sellOrders e)"
    "distinct (ids (flatten (buyOrders e) @ flatten (sellOrders e)))"
    "orderMap e = side_map False (sellOrders e) ++ side_map True (buyOrders e)"
    and new: "OrderId o' \<notin> set (ids (flatten (buyOrders e) @ flatten (sellOrders e)))"
    using assms by (simp_all add: book_ok_def view_def)
  show ?thesis
  proof (cases "IsBuy o'")
    case True
    obtain ls i where p: "push_order True o' (buyOrders e) = (ls, i)" by (cases "push_order True o' (buyOrders e)")
    have q: "levels_ok True ls" "flatten ls = insert_order True o' (flatten (buyOrders e))"
      "side_map True ls = (side_map True (buyOrders e))(OrderId o' \<mapsto> \<lparr>l_buy = True, l_price = limit_price o', vector_index = i\<rparr>)"
      using push_order_ok [OF ok(1) assms(2)] push_order_map [OF ok(1) assms(2)] p ok(3) new by auto
    have "distinct (ids (insert_order True o' (flatten (buyOrders e)) @ flatten (sellOrders e)))"
      using distinct_insert_order [of "[]" "flatten (buyOrders e)" "flatten (sellOrders e)" o' True] ok(3) new by simp
    with True p q ok show ?thesis
      by (intro exI [of _ "e\<lparr>buyOrders := ls, orderMap := (orderMap e)(OrderId o' \<mapsto>
          \<lparr>l_buy = True, l_price = limit_price o', vector_index = i\<rparr>)\<rparr>"])
        (simp add: addOrder_def book_ok_def view_def)
  next
    case False
    obtain ls i where p: "push_order False o' (sellOrders e) = (ls, i)" by (cases "push_order False o' (sellOrders e)")
    have q: "levels_ok False ls" "flatten ls = insert_order False o' (flatten (sellOrders e))"
      "side_map False ls = (side_map False (sellOrders e))(OrderId o' \<mapsto> \<lparr>l_buy = False, l_price = limit_price o', vector_index = i\<rparr>)"
      using push_order_ok [OF ok(2) assms(2)] push_order_map [OF ok(2) assms(2)] p ok(3) new by auto
    have "distinct (ids (flatten (buyOrders e) @ insert_order False o' (flatten (sellOrders e))))"
      using distinct_insert_order [of "flatten (buyOrders e)" "flatten (sellOrders e)" "[]" o' False] ok(3) new by simp
    moreover have "OrderId o' \<notin> dom (side_map True (buyOrders e))" using new by simp
    ultimately show ?thesis using False p q ok
      by (intro exI [of _ "e\<lparr>sellOrders := ls, orderMap := (orderMap e)(OrderId o' \<mapsto>
          \<lparr>l_buy = False, l_price = limit_price o', vector_index = i\<rparr>)\<rparr>"])
        (simp add: addOrder_def book_ok_def view_def map_add_upd_left)
  qed
qed

lemma addOrder_view:
  assumes "book_ok e" "limit_price o' \<noteq> NaN" "OrderId o' \<notin> set (ids (fst (view e) @ snd (view e)))"
    and "flat_add o' (view e) = (ps, v)"
  shows "book_ok (addOrder io o' e) \<and> view (addOrder io o' e) = v \<and>
    ledger (addOrder io o' e) = foldl (record_trade io) (ledger e) ps"
proof -
  obtain u where u: "addOrder io o' e = matching io u" "book_ok u" "ledger u = ledger e"
    "view u = (if IsBuy o' then (insert_order True o' (fst (view e)), snd (view e))
               else (fst (view e), insert_order False o' (snd (view e))))"
    using addOrder_pushed [OF assms(1-3), of io] by blast
  then have "flat_match (view u) = (ps, v)" using assms(4) by (simp only: flat_add_def)
  from matching_view [OF u(2) this, of io] show ?thesis by (simp only: u(1,3))
qed

subsection \<open>Cancelling\<close>

lemma level_map_at:
  "level_map buy p i xs k = Some loc \<Longrightarrow>
     \<exists>pre x post. xs = pre @ x # post \<and> OrderId x = k \<and> loc = \<lparr>l_buy = buy, l_price = p, vector_index = i + length pre\<rparr>"
proof (induction xs arbitrary: i)
  case (Cons y xs)
  show ?case
  proof (cases "OrderId y = k")
    case True
    with Cons.prems show ?thesis by (intro exI [of _ "[]"]) auto
  next
    case False
    with Cons.prems have "level_map buy p (Suc i) xs k = Some loc" by simp
    from Cons.IH [OF this] obtain pre x post where "xs = pre @ x # post" "OrderId x = k"
      "loc = \<lparr>l_buy = buy, l_price = p, vector_index = Suc i + length pre\<rparr>" by blast
    then show ?thesis by (intro exI [of _ "y # pre"]) auto
  qed
qed simp

lemma side_map_at: "side_map buy ls k = Some loc \<Longrightarrow> l_buy loc = buy \<and> (\<exists>vec. (l_price loc, vec) \<in> set ls)"
  by (induction ls rule: flatten.induct) (auto simp: map_add_Some_iff dest!: level_map_at)

lemma filter_other: "k \<notin> set (ids xs) \<Longrightarrow> filter (\<lambda>x. OrderId x \<noteq> k) xs = xs"
  by (auto simp: ids_def filter_id_conv)

lemma erase_in_side:
  "levels_ok buy ls \<Longrightarrow> distinct (ids (flatten ls)) \<Longrightarrow> set (ids (flatten ls)) \<inter> dom r = {} \<Longrightarrow>
   side_map buy ls k = Some loc \<Longrightarrow>
     \<exists>ls'. erase_in buy (l_price loc) (vector_index loc) ls ((r ++ side_map buy ls)(k := None)) = (ls', r ++ side_map buy ls') \<and>
       flatten ls' = filter (\<lambda>x. OrderId x \<noteq> k) (flatten ls) \<and> levels_ok buy ls' \<and>
       (\<forall>q. list_all (\<lambda>(p, w). key_before buy q p) ls \<longrightarrow> list_all (\<lambda>(p, w). key_before buy q p) ls')"
proof (induction ls arbitrary: r rule: flatten.induct)
  case 1
  then show ?case by simp
next
  case (2 p vec ls)
  show ?case
  proof (cases "level_map buy p 0 vec k")
    case (Some l)
    with 2(5) have l: "loc = l" by simp
    from level_map_at [OF Some] obtain pre x post where
      v: "vec = pre @ x # post" "OrderId x = k" "loc = \<lparr>l_buy = buy, l_price = p, vector_index = length pre\<rparr>"
      using l by auto
    have d: "distinct (ids (pre @ x # post))" "set (ids (pre @ x # post)) \<inter> dom (r ++ side_map buy ls) = {}"
      using 2(3,4) v(1) by auto
    from eraseAt_positions [OF d, of buy p] v
    have er: "eraseAt vec (length pre) ((r ++ (side_map buy ls ++ level_map buy p 0 vec))(k := None)) =
        (pre @ post, (r ++ side_map buy ls) ++ level_map buy p 0 (pre @ post))" by simp
    have "k \<notin> set (ids (pre @ post))" "k \<notin> set (ids (flatten ls))" using 2(3) v by auto
    then have "filter (\<lambda>x. OrderId x \<noteq> k) (flatten ((p, vec) # ls)) = (pre @ post) @ flatten ls"
      using filter_other [of k "pre @ post"] filter_other [of k "flatten ls"] v by simp
    moreover have "levels_ok buy (keep_level p (pre @ post) ls)"
      using 2(2) v(1) by (auto simp: keep_level_def)
    moreover have "erase_in buy (l_price loc) (vector_index loc) ((p, vec) # ls)
        ((r ++ side_map buy ((p, vec) # ls))(k := None)) =
        (keep_level p (pre @ post) ls, r ++ side_map buy (keep_level p (pre @ post) ls))"
      using er v(3) by simp
    moreover have "\<forall>q. list_all (\<lambda>(p, w). key_before buy q p) ((p, vec) # ls) \<longrightarrow>
        list_all (\<lambda>(p, w). key_before buy q p) (keep_level p (pre @ post) ls)"
      by (simp add: keep_level_def)
    ultimately show ?thesis by (intro exI [of _ "keep_level p (pre @ post) ls"]) (simp only: flatten_keep)
  next
    case None
    let ?V = "level_map buy p 0 vec"
    have s: "side_map buy ls k = Some loc" using 2(5) None by (simp add: map_add_Some_iff)
    then obtain w where "(l_price loc, w) \<in> set ls" using side_map_at by blast
    then have far: "key_before buy p (l_price loc)" using 2(2) by (auto simp: list_all_iff)
    have dj: "dom ?V \<inter> dom (side_map buy ls) = {}" using 2(3) by auto
    have c: "r ++ (side_map buy ls ++ ?V) = (r ++ ?V) ++ side_map buy ls"
      by (subst map_add_comm [OF dj, symmetric]) (simp only: map_add_assoc)
    have "levels_ok buy ls" "distinct (ids (flatten ls))" "set (ids (flatten ls)) \<inter> dom (r ++ ?V) = {}"
      using 2(2-4) by auto
    from 2(1) [OF this s] obtain ls' where ls':
      "erase_in buy (l_price loc) (vector_index loc) ls (((r ++ ?V) ++ side_map buy ls)(k := None)) =
         (ls', (r ++ ?V) ++ side_map buy ls')"
      "flatten ls' = filter (\<lambda>x. OrderId x \<noteq> k) (flatten ls)" "levels_ok buy ls'"
      "\<And>q. list_all (\<lambda>(p, w). key_before buy q p) ls \<Longrightarrow> list_all (\<lambda>(p, w). key_before buy q p) ls'"
      by blast
    have "dom ?V \<inter> dom (side_map buy ls') = {}"
      using 2(3) ls'(2) by (auto simp: ids_def)
    from map_add_comm [OF this] have d: "(r ++ ?V) ++ side_map buy ls' = r ++ (side_map buy ls' ++ ?V)"
      by (metis map_add_assoc)
    have "k \<notin> set (ids vec)" using None by (simp add: level_map_None)
    then have "flatten ((p, vec) # ls') = filter (\<lambda>x. OrderId x \<noteq> k) (flatten ((p, vec) # ls))"
      using ls'(2) by (simp add: filter_other)
    moreover have "levels_ok buy ((p, vec) # ls')" using ls'(3,4) 2(2) by simp
    moreover have "\<forall>q. list_all (\<lambda>(p, w). key_before buy q p) ((p, vec) # ls) \<longrightarrow>
        list_all (\<lambda>(p, w). key_before buy q p) ((p, vec) # ls')"
      using ls'(4) by simp
    moreover have "erase_in buy (l_price loc) (vector_index loc) ((p, vec) # ls)
        ((r ++ side_map buy ((p, vec) # ls))(k := None)) =
        ((p, vec) # ls', r ++ side_map buy ((p, vec) # ls'))"
      using far ls'(1) by (simp only: side_map.simps c d [symmetric] erase_in.simps) simp
    ultimately show ?thesis by blast
  qed
qed

definition without :: "int \<Rightarrow> view \<Rightarrow> view" where
  "without k v = (filter (\<lambda>x. OrderId x \<noteq> k) (fst v), filter (\<lambda>x. OrderId x \<noteq> k) (snd v))"

lemma distinct_ids_filter: "distinct (ids xs) \<Longrightarrow> distinct (ids (filter Q xs))"
  by (simp add: ids_def distinct_map_filter)

lemma cancelOrder_view:
  assumes "book_ok e"
  shows "book_ok (cancelOrder k e) \<and> view (cancelOrder k e) = without k (view e) \<and> ledger (cancelOrder k e) = ledger e"
proof -
  let ?B = "side_map True (buyOrders e)" and ?S = "side_map False (sellOrders e)"
  have ok: "levels_ok True (buyOrders e)" "levels_ok False (sellOrders e)"
    "distinct (ids (flatten (buyOrders e) @ flatten (sellOrders e)))" and m: "orderMap e = ?S ++ ?B"
    using assms by (simp_all add: book_ok_def view_def)
  have d: "distinct (ids (flatten (buyOrders e)))" "distinct (ids (flatten (sellOrders e)))"
    "set (ids (flatten (buyOrders e))) \<inter> dom ?S = {}" "set (ids (flatten (sellOrders e))) \<inter> dom ?B = {}"
    "dom ?B \<inter> dom ?S = {}"
    using ok(3) by auto
  show ?thesis
  proof (cases "orderMap e k")
    case None
    then have "k \<notin> set (ids (flatten (buyOrders e)))" "k \<notin> set (ids (flatten (sellOrders e)))"
      by (auto simp: m map_add_None side_map_None)
    with None assms show ?thesis by (simp add: cancelOrder_def without_def view_def filter_other)
  next
    case (Some loc)
    then consider (buy) "?B k = Some loc" | (sell) "?S k = Some loc" "?B k = None"
      by (auto simp: m map_add_Some_iff)
    then show ?thesis
    proof cases
      case buy
      from side_map_at [OF buy] have l: "l_buy loc" by simp
      from erase_in_side [OF ok(1) d(1,3) buy] obtain ls' where ls':
        "erase_in True (l_price loc) (vector_index loc) (buyOrders e) ((?S ++ ?B)(k := None)) = (ls', ?S ++ side_map True ls')"
        "flatten ls' = filter (\<lambda>x. OrderId x \<noteq> k) (flatten (buyOrders e))" "levels_ok True ls'" by blast
      have "k \<in> set (ids (flatten (buyOrders e)))" using buy side_map_None [of True "buyOrders e" k] by auto
      then have "k \<notin> set (ids (flatten (sellOrders e)))" using ok(3) by auto
      then have o: "filter (\<lambda>x. OrderId x \<noteq> k) (flatten (sellOrders e)) = flatten (sellOrders e)" by (rule filter_other)
      have c: "cancelOrder k e = e\<lparr>buyOrders := ls', orderMap := ?S ++ side_map True ls'\<rparr>"
        using Some l ls'(1) by (simp add: cancelOrder_def m)
      have "distinct (ids (flatten ls' @ flatten (sellOrders e)))"
        using distinct_ids_filter [OF ok(3), of "\<lambda>x. OrderId x \<noteq> k"] by (simp add: ls'(2) o)
      then show ?thesis using ls' ok(2) o by (simp add: c book_ok_def view_def without_def ledger_def)
    next
      case sell
      from side_map_at [OF sell(1)] have l: "\<not> l_buy loc" by simp
      have sw: "?S ++ ?B = ?B ++ ?S" by (rule map_add_comm) (use d(5) in blast)
      from erase_in_side [OF ok(2) d(2,4) sell(1)] obtain ls' where ls':
        "erase_in False (l_price loc) (vector_index loc) (sellOrders e) ((?S ++ ?B)(k := None)) = (ls', ?B ++ side_map False ls')"
        "flatten ls' = filter (\<lambda>x. OrderId x \<noteq> k) (flatten (sellOrders e))" "levels_ok False ls'"
        unfolding sw by blast
      have "k \<notin> set (ids (flatten (buyOrders e)))" using sell(2) by (simp add: side_map_None)
      then have o: "filter (\<lambda>x. OrderId x \<noteq> k) (flatten (buyOrders e)) = flatten (buyOrders e)" by (rule filter_other)
      have "distinct (ids (flatten (buyOrders e) @ flatten ls'))"
        using distinct_ids_filter [OF ok(3), of "\<lambda>x. OrderId x \<noteq> k"] by (simp add: ls'(2) o)
      moreover have "?B ++ side_map False ls' = side_map False ls' ++ ?B"
        by (rule map_add_comm) (use calculation in auto)
      moreover have c: "cancelOrder k e = e\<lparr>sellOrders := ls', orderMap := ?B ++ side_map False ls'\<rparr>"
        using Some l ls'(1) by (simp add: cancelOrder_def m)
      ultimately show ?thesis using ls' ok(1) o by (simp add: c book_ok_def view_def without_def ledger_def)
    qed
  qed
qed

section \<open>Every history\<close>

datatype book_op = Add order | Cancel int

fun apply_op :: "engine_io \<Rightarrow> engine \<Rightarrow> book_op \<Rightarrow> engine" where
  "apply_op io e (Add o') = addOrder io o' e"
| "apply_op io e (Cancel k) = cancelOrder k e"

text \<open>The specification: the trades of a history and the two queues it leaves.\<close>

fun flat_run :: "book_op list \<Rightarrow> view \<Rightarrow> (order \<times> order) list \<times> view" where
  "flat_run [] v = ([], v)"
| "flat_run (Add o' # ops) v =
     (let (ps, v) = flat_add o' v; (qs, v) = flat_run ops v in (ps @ qs, v))"
| "flat_run (Cancel k # ops) v = flat_run ops (without k v)"

fun added :: "book_op list \<Rightarrow> order list" where
  "added [] = []"
| "added (Add o' # ops) = o' # added ops"
| "added (Cancel k # ops) = added ops"

text \<open>No identifier is used twice, no price is a NaN.\<close>

definition history_ok :: "book_op list \<Rightarrow> bool" where
  "history_ok ops \<longleftrightarrow> distinct (ids (added ops)) \<and> list_all (\<lambda>x. limit_price x \<noteq> NaN) (added ops)"

definition view_ids :: "view \<Rightarrow> int set" where
  "view_ids v = set (ids (fst v @ snd v))"

lemma flat_match_ids: "view_ids (snd (flat_match v)) \<subseteq> view_ids v"
proof (induction v rule: flat_match.induct)
  case (1 v)
  show ?case
  proof (cases "flat_step v")
    case None
    then show ?thesis by (simp add: flat_match.simps [of v])
  next
    case (Some s)
    obtain p v' where s: "s = (p, v')" by (cases s)
    then have "view_ids v' \<subseteq> view_ids v"
      using Some set_reduce_ids by (fastforce simp: flat_step_Some view_ids_def)
    with 1 [OF Some [unfolded s] refl] Some s show ?thesis
      by (auto simp: flat_match.simps [of v] split: prod.split)
  qed
qed

lemma flat_add_ids: "view_ids (snd (flat_add o' v)) \<subseteq> insert (OrderId o') (view_ids v)"
proof -
  have "set (ids (insert_order buy o' os)) = insert (OrderId o') (set (ids os))" for buy os
    using insert_order_split [of os buy o'] by auto
  then show ?thesis
    using flat_match_ids [of "if IsBuy o' then (insert_order True o' (fst v), snd v)
      else (fst v, insert_order False o' (snd v))"]
    by (auto simp: flat_add_def view_ids_def)
qed

lemma history_refined:
  "book_ok e \<Longrightarrow> distinct (ids (added ops)) \<Longrightarrow> list_all (\<lambda>x. limit_price x \<noteq> NaN) (added ops) \<Longrightarrow>
   set (ids (added ops)) \<inter> view_ids (view e) = {} \<Longrightarrow>
     book_ok (foldl (apply_op io) e ops) \<and>
     view (foldl (apply_op io) e ops) = snd (flat_run ops (view e)) \<and>
     ledger (foldl (apply_op io) e ops) = foldl (record_trade io) (ledger e) (fst (flat_run ops (view e)))"
proof (induction ops arbitrary: e)
  case Nil
  then show ?case by simp
next
  case (Cons op ops)
  show ?case
  proof (cases op)
    case (Add o')
    obtain ps v where f: "flat_add o' (view e) = (ps, v)" by (cases "flat_add o' (view e)")
    have "OrderId o' \<notin> set (ids (fst (view e) @ snd (view e)))" "limit_price o' \<noteq> NaN"
      using Cons.prems(3,4) Add by (auto simp: view_ids_def)
    from addOrder_view [OF Cons.prems(1) this(2,1) f, of io]
    have a: "book_ok (addOrder io o' e)" "view (addOrder io o' e) = v"
      "ledger (addOrder io o' e) = foldl (record_trade io) (ledger e) ps" by auto
    have "view_ids v \<subseteq> insert (OrderId o') (view_ids (view e))" using flat_add_ids [of o' "view e"] f by simp
    then have "set (ids (added ops)) \<inter> view_ids (view (addOrder io o' e)) = {}"
      using Cons.prems(2,4) Add a(2) by auto
    with Cons.IH [OF a(1)] Cons.prems(2,3) Add a f show ?thesis by (simp split: prod.split)
  next
    case (Cancel k)
    from cancelOrder_view [OF Cons.prems(1), of k]
    have c: "book_ok (cancelOrder k e)" "view (cancelOrder k e) = without k (view e)"
      "ledger (cancelOrder k e) = ledger e" by auto
    have "view_ids (without k (view e)) \<subseteq> view_ids (view e)" by (auto simp: view_ids_def without_def ids_def)
    then have "set (ids (added ops)) \<inter> view_ids (view (cancelOrder k e)) = {}"
      using Cons.prems(4) Cancel c(2) by auto
    with Cons.IH [OF c(1)] Cons.prems(2,3) Cancel c show ?thesis by simp
  qed
qed

lemma new_engine_ok: "book_ok new_engine" "view new_engine = ([], [])" "ledger new_engine = new_engine"
  by (simp_all add: book_ok_def view_def ledger_def new_engine_def)

text \<open>
  C6. The engine's book is a price-time priority queue. Whatever history of orders and cancellations it
  is given, its levels hold, flattened, exactly the two queues the specification leaves (an order is
  queued behind all orders of its price, the best bid and the best ask trade as long as they cross, a
  cancellation takes out exactly the named order), and it has recorded exactly the specification's
  trades, in order.
\<close>

theorem book_refines_queue:
  assumes "history_ok ops" "flat_run ops ([], []) = (trades, queues)"
  shows "view (foldl (apply_op io) new_engine ops) = queues \<and>
         ledger (foldl (apply_op io) new_engine ops) = foldl (record_trade io) new_engine trades"
  using history_refined [OF new_engine_ok(1), of ops io] assms new_engine_ok
  by (simp add: history_ok_def view_ids_def)

text \<open>The position of an order in the book, read off the levels.\<close>

definition sits_at :: "engine \<Rightarrow> int \<Rightarrow> location \<Rightarrow> bool" where
  "sits_at e k loc \<longleftrightarrow>
     (\<exists>vec. (l_price loc, vec) \<in> set (if l_buy loc then buyOrders e else sellOrders e) \<and>
        vector_index loc < length vec \<and> OrderId (vec ! vector_index loc) = k)"

lemma level_map_found:
  assumes "distinct (ids xs)" "j < length xs" "OrderId (xs ! j) = k"
  shows "level_map buy p i xs k = Some \<lparr>l_buy = buy, l_price = p, vector_index = i + j\<rparr>"
proof -
  have "k \<in> set (ids xs)" using assms(2,3) by (auto simp: ids_def)
  then obtain loc where loc: "level_map buy p i xs k = Some loc" using level_map_Some by blast
  from level_map_at [OF this] obtain pre x post where
    v: "xs = pre @ x # post" "OrderId x = k" "loc = \<lparr>l_buy = buy, l_price = p, vector_index = i + length pre\<rparr>" by blast
  have "ids xs ! j = k" using assms(2,3) by (simp add: ids_def)
  moreover have "ids xs ! length pre = k" "length pre < length xs" using v(1,2) by (simp_all add: ids_def nth_append)
  ultimately have "length pre = j" using assms(1,2) nth_eq_iff_index_eq [of "ids xs" "length pre" j]
    by (simp add: ids_def)
  with loc v(3) show ?thesis by simp
qed

lemma side_map_nth:
  assumes "distinct (ids (flatten ls))"
  shows "side_map buy ls k = Some loc \<longleftrightarrow>
    l_buy loc = buy \<and> (\<exists>vec. (l_price loc, vec) \<in> set ls \<and> vector_index loc < length vec \<and>
       OrderId (vec ! vector_index loc) = k)"
  using assms
proof (induction ls rule: flatten.induct)
  case 1
  then show ?case by simp
next
  case (2 p vec ls)
  have ih: "side_map buy ls k = Some loc \<longleftrightarrow> l_buy loc = buy \<and> (\<exists>w. (l_price loc, w) \<in> set ls \<and>
      vector_index loc < length w \<and> OrderId (w ! vector_index loc) = k)"
    using 2 by simp
  have here: "level_map buy p 0 vec k = Some loc \<longleftrightarrow>
      l_buy loc = buy \<and> l_price loc = p \<and> vector_index loc < length vec \<and> OrderId (vec ! vector_index loc) = k"
  proof
    assume "level_map buy p 0 vec k = Some loc"
    from level_map_at [OF this] show "l_buy loc = buy \<and> l_price loc = p \<and> vector_index loc < length vec \<and>
        OrderId (vec ! vector_index loc) = k" by auto
  next
    assume a: "l_buy loc = buy \<and> l_price loc = p \<and> vector_index loc < length vec \<and> OrderId (vec ! vector_index loc) = k"
    have "distinct (ids vec)" using 2(2) by simp
    from level_map_found [OF this, of "vector_index loc" k buy p 0] a
    show "level_map buy p 0 vec k = Some loc" by (cases loc) simp
  qed
  have "level_map buy p 0 vec k = None \<or> side_map buy ls k = None"
    using 2(2) by (auto simp: level_map_None side_map_None)
  then show ?case using ih here by (auto simp: map_add_Some_iff)
qed

lemma book_positions:
  assumes "book_ok e"
  shows "orderMap e k = Some loc \<longleftrightarrow> sits_at e k loc"
proof -
  have d: "distinct (ids (flatten (buyOrders e)))" "distinct (ids (flatten (sellOrders e)))"
    "side_map True (buyOrders e) k = None \<or> side_map False (sellOrders e) k = None"
    using assms by (auto simp: book_ok_def view_def side_map_None)
  have "orderMap e k = Some loc \<longleftrightarrow>
      side_map True (buyOrders e) k = Some loc \<or> side_map False (sellOrders e) k = Some loc"
    using assms d(3) by (auto simp: book_ok_def map_add_Some_iff)
  then show ?thesis unfolding side_map_nth [OF d(1)] side_map_nth [OF d(2)] by (auto simp: sits_at_def)
qed

text \<open>
  C11. The recorded positions stay truthful, through every erasure that shifts a level: after any history
  of orders and cancellations, the map records a location for an identifier exactly when the order with
  that identifier sits at that position of that level, and it records nothing else.
\<close>

theorem recorded_positions_truthful:
  assumes "history_ok ops"
  shows "orderMap (foldl (apply_op io) new_engine ops) k = Some loc \<longleftrightarrow>
         sits_at (foldl (apply_op io) new_engine ops) k loc"
  using history_refined [OF new_engine_ok(1), of ops io] assms new_engine_ok
  by (intro book_positions) (simp add: history_ok_def view_ids_def)

definition sample_order :: "int \<Rightarrow> bool \<Rightarrow> rat \<Rightarrow> int \<Rightarrow> order" where
  "sample_order k buy p q =
     \<lparr>OrderId = k, quantity = q, IsBuy = buy, limit_price = Fin p, t0 = 10, t1 = 20, seqNo = k\<rparr>"

definition sample_history :: "book_op list" where
  "sample_history =
     [Add (sample_order 1 True 100 10), Add (sample_order 2 True 100 5), Add (sample_order 3 True 99 5),
      Cancel 1, Add (sample_order 4 False 99 7)]"

definition sample_io :: engine_io where
  "sample_io = \<lparr>system_clock = (\<lambda>n. 1000 + int n), publishes = (\<lambda>evs ev. True)\<rparr>"

lemma sample_history_ok: "history_ok sample_history"
  by (simp add: history_ok_def sample_history_def sample_order_def)

lemma sample_flat: "flat_run sample_history ([], []) =
   ([(sample_order 2 True 100 5, sample_order 4 False 99 7),
     (sample_order 3 True 99 5, sample_order 4 False 99 2)], ([sample_order 3 True 99 3], []))"
  by (simp add: sample_history_def sample_order_def flat_add_def flat_match.simps flat_step_def reduce_def
      without_def key_before_def)

theorem book_refines_queue_witness:
  "view (foldl (apply_op sample_io) new_engine sample_history) = ([sample_order 3 True 99 3], [])"
  using book_refines_queue [OF sample_history_ok sample_flat, of sample_io] by blast

theorem recorded_positions_truthful_witness:
  "orderMap (foldl (apply_op sample_io) new_engine sample_history) 3 =
     Some \<lparr>l_buy = True, l_price = Fin 99, vector_index = 0\<rparr>"
proof -
  have "sits_at (foldl (apply_op sample_io) new_engine sample_history) 3
      \<lparr>l_buy = True, l_price = Fin 99, vector_index = 0\<rparr>"
    by (simp add: sample_history_def sample_order_def sample_io_def new_engine_def addOrder_def
        matching.simps match_step_def publish_def trade_of_def consume_front_def eraseAt_def keep_level_def
        cancelOrder_def key_before_def sits_at_def Let_def)
  then show ?thesis using recorded_positions_truthful [OF sample_history_ok] by blast
qed

end
