(* ===== verification/EngineTrades.thy ===== *)
theory EngineTrades
  imports EngineBook ScoringVerdict
begin

text \<open>
  What the engine publishes satisfies the contract the scoring worker checks. Between orders the book is
  uncrossed; an order that crosses is the taker of every trade it brings about, at the prices of the
  resting orders, best first. From this follow the price, time and numbering rules of \<open>legal_from\<close>.
\<close>

section \<open>The two sides alike\<close>

definition side :: "bool \<Rightarrow> 'a \<Rightarrow> 'a \<Rightarrow> 'a \<times> 'a" where
  "side buy mine theirs = (if buy then (mine, theirs) else (theirs, mine))"

text \<open>A bid and an ask are apart when the bid is below the ask.\<close>

lemma flat_step_side:
  "flat_step (side buy (x # xs) (y # ys)) =
     (if key_before (\<not> buy) (limit_price x) (limit_price y) then None
      else Some (side buy x y,
        side buy (reduce (min (quantity x) (quantity y)) (x # xs)) (reduce (min (quantity x) (quantity y)) (y # ys))))"
  by (simp add: flat_step_def side_def key_before_def Let_def min.commute)

lemma flat_step_none [simp]: "flat_step (side buy xs []) = None" "flat_step (side buy [] ys) = None"
  by (simp_all add: flat_step_def side_def split: list.split)

definition mine :: "bool \<Rightarrow> view \<Rightarrow> order list" where
  "mine buy v = (if buy then fst v else snd v)"

lemma mine_side [simp]: "mine buy (side buy xs ys) = xs" "mine (\<not> buy) (side buy xs ys) = ys"
  by (simp_all add: mine_def side_def)

lemma side_mine: "side buy (mine buy v) (mine (\<not> buy) v) = v"
  by (simp add: mine_def side_def)

lemma flat_add_side:
  "flat_add o' v = flat_match (side (IsBuy o') (insert_order (IsBuy o') o' (mine (IsBuy o') v)) (mine (\<not> IsBuy o') v))"
  by (simp add: flat_add_def side_def mine_def)

section \<open>Books between orders\<close>

definition order_ok :: "order \<Rightarrow> bool" where
  "order_ok x \<longleftrightarrow>
     0 < OrderId x \<and> OrderId x < 2 ^ 31 \<and> 0 < quantity x \<and> quantity x < 2 ^ 31 \<and>
     is_finite (limit_price x) \<and> float_ok (limit_price x) \<and> flt (Fin 0) (limit_price x) \<and>
     0 < t0 x \<and> t0 x \<le> t1 x \<and> t1 x < 2 ^ 63"

definition queue_ok :: "bool \<Rightarrow> order list \<Rightarrow> bool" where
  "queue_ok buy xs \<longleftrightarrow>
     list_all order_ok xs \<and> sorted_wrt (\<lambda>x y. \<not> key_before buy (limit_price y) (limit_price x)) xs"

definition apart :: "bool \<Rightarrow> order list \<Rightarrow> order list \<Rightarrow> bool" where
  "apart buy xs ys \<longleftrightarrow> (\<forall>x \<in> set xs. \<forall>y \<in> set ys. key_before (\<not> buy) (limit_price x) (limit_price y))"

definition good :: "bool \<Rightarrow> order list \<Rightarrow> order list \<Rightarrow> bool" where
  "good buy xs ys \<longleftrightarrow> queue_ok buy xs \<and> queue_ok (\<not> buy) ys \<and> apart buy xs ys \<and> distinct (ids (xs @ ys))"

lemma key_before_flip: "key_before (\<not> buy) p q \<longleftrightarrow> key_before buy q p"
  by (simp add: key_before_def)

lemma good_swap: "good (\<not> buy) ys xs \<longleftrightarrow> good buy xs ys"
  by (auto simp: good_def apart_def key_before_flip)

lemma ok_not_nan: "order_ok x \<Longrightarrow> limit_price x \<noteq> NaN"
  by (auto simp: order_ok_def)

lemma not_before_trans:
  "p \<noteq> NaN \<Longrightarrow> q \<noteq> NaN \<Longrightarrow> r \<noteq> NaN \<Longrightarrow> \<not> key_before buy q p \<Longrightarrow> \<not> key_before buy r q \<Longrightarrow> \<not> key_before buy r p"
  using keys_equal key_before_trans by metis

lemma before_not_before_trans:
  "p \<noteq> NaN \<Longrightarrow> q \<noteq> NaN \<Longrightarrow> r \<noteq> NaN \<Longrightarrow> key_before buy p q \<Longrightarrow> \<not> key_before buy r q \<Longrightarrow> key_before buy p r"
  using keys_equal key_before_trans by metis

lemma queue_ok_Cons:
  "queue_ok buy (x # xs) \<longleftrightarrow>
     order_ok x \<and> queue_ok buy xs \<and> (\<forall>y \<in> set xs. \<not> key_before buy (limit_price y) (limit_price x))"
  by (auto simp: queue_ok_def)

lemma queue_ok_insert:
  assumes "queue_ok buy xs" "order_ok x"
  shows "queue_ok buy (insert_order buy x xs)"
  using assms(1)
proof (induction xs)
  case Nil
  with assms(2) show ?case by (simp add: queue_ok_def)
next
  case (Cons y ys)
  have set: "set (insert_order buy x ys) = insert x (set ys)"
    using insert_order_split [of ys buy x] by auto
  show ?case
  proof (cases "key_before buy (limit_price x) (limit_price y)")
    case True
    have "\<not> key_before buy (limit_price z) (limit_price x)" if "z \<in> set (y # ys)" for z
    proof -
      have n: "limit_price x \<noteq> NaN" "limit_price y \<noteq> NaN" "limit_price z \<noteq> NaN"
        using Cons.prems assms(2) that by (auto simp: queue_ok_def list_all_iff ok_not_nan)
      have "\<not> key_before buy (limit_price z) (limit_price y)"
        using Cons.prems that by (auto simp: queue_ok_Cons)
      with before_not_before_trans [OF n(1) n(2) n(3) True] key_before_asym show ?thesis by blast
    qed
    with True Cons.prems assms(2) show ?thesis by (simp add: queue_ok_Cons)
  next
    case False
    with Cons set show ?thesis by (auto simp: queue_ok_Cons)
  qed
qed

lemma insert_top:
  "\<forall>y \<in> set xs. key_before buy (limit_price x) (limit_price y) \<Longrightarrow> insert_order buy x xs = x # xs"
  by (cases xs) auto

section \<open>One trade\<close>

definition side_id :: "bool \<Rightarrow> trade_event \<Rightarrow> int" where
  "side_id buy ev = (if buy then buy_order_id ev else sell_order_id ev)"

text \<open>The price rule without tolerance: an order trades at prices that do not get better for it.\<close>

definition exact_step :: "trade_event \<Rightarrow> trade_event \<Rightarrow> bool" where
  "exact_step prev ev \<longleftrightarrow>
     (\<forall>s. side_id s ev = side_id s prev \<longrightarrow> side_id (\<not> s) ev \<noteq> side_id (\<not> s) prev \<longrightarrow>
        \<not> key_before (\<not> s) (price ev) (price prev))"

lemma exact_step_ok:
  assumes "exact_step prev ev" "float_ok (price prev)" "is_finite (price prev)" "is_finite (price ev)"
  shows "price_step_ok prev ev"
proof -
  obtain p q where p: "price prev = Fin p" "price ev = Fin q" "float_ok (Fin p)"
    using assms(2-4) by (cases "price prev"; cases "price ev") auto
  obtain c where c: "PRICE_EPSILON = Fin c" "0 \<le> c" by (rule that [OF PRICE_EPSILON_value]) simp
  have "\<not> flt (Fin q) (fsub (Fin p) (Fin c))" if "\<not> q < p"
    using to_f64_le_ok [OF p(3), of "p - c"] c(2) that
    by (cases "to_f64 (p - c)") (auto simp: fsub_def)
  moreover have "\<not> flt (fadd (Fin p) (Fin c)) (Fin q)" if "\<not> p < q"
    using to_f64_ge_ok [OF p(3), of "p + c"] c(2) that
    by (cases "to_f64 (p + c)") auto
  moreover have "\<not> q < p" if "buy_order_id ev = buy_order_id prev" "sell_order_id ev \<noteq> sell_order_id prev"
    using assms(1) that p(1,2) by (auto simp: exact_step_def side_id_def key_before_def dest: spec [of _ True])
  moreover have "\<not> p < q" if "sell_order_id ev = sell_order_id prev" "buy_order_id ev \<noteq> buy_order_id prev"
    using assms(1) that p(1,2) by (auto simp: exact_step_def side_id_def key_before_def dest: spec [of _ False])
  ultimately show ?thesis by (auto simp: price_step_ok_def p c(1) simp del: fadd.simps)
qed

definition clock_ok :: "engine_io \<Rightarrow> bool" where
  "clock_ok io \<longleftrightarrow> mono (system_clock io) \<and> (\<forall>k. 0 < system_clock io k \<and> system_clock io k < 2 ^ 63)"

definition met :: "bool \<Rightarrow> order \<Rightarrow> order \<Rightarrow> int \<Rightarrow> int \<Rightarrow> trade_event" where
  "met buy x y m t2 = trade_of m t2 (fst (side buy x y)) (snd (side buy x y))"

text \<open>The newer order is the taker; the price is the older one's.\<close>

lemma met_fields:
  assumes "order_ok x" "order_ok y" "seqNo y < seqNo x" "0 \<le> m" "m < 2 ^ 64" "0 < t2" "t2 < 2 ^ 63"
  shows "match_id (met buy x y m t2) = m" "side_id buy (met buy x y m t2) = OrderId x"
    "side_id (\<not> buy) (met buy x y m t2) = OrderId y" "t0_ns (met buy x y m t2) = t0 x"
    "t1_ns (met buy x y m t2) = t1 x" "t2_ns (met buy x y m t2) = t2" "price (met buy x y m t2) = limit_price y"
    "qty (met buy x y m t2) = min (quantity x) (quantity y)"
  using assms
  by (auto simp: met_def trade_of_def side_def side_id_def order_ok_def to_u64_def to_u32_def min_def)

lemma met_well_formed:
  assumes "order_ok x" "order_ok y" "seqNo y < seqNo x" "0 \<le> m" "m < 2 ^ 64" "t1 x \<le> t2" "t2 < 2 ^ 63"
    and "OrderId x \<noteq> OrderId y"
  shows "well_formed_trade (met buy x y m t2)" "event_fits (met buy x y m t2)"
proof -
  have "0 < t2" using assms(1,6) by (simp add: order_ok_def)
  note f = met_fields [OF assms(1-5) this assms(7), of buy]
  have i: "{buy_order_id (met buy x y m t2), sell_order_id (met buy x y m t2)} = {OrderId x, OrderId y}"
    "buy_order_id (met buy x y m t2) \<noteq> sell_order_id (met buy x y m t2)"
    using f(2,3) assms(8) by (auto simp: side_id_def split: if_splits)
  have o: "OrderId x \<noteq> 0" "OrderId y \<noteq> 0" "OrderId x < 2 ^ 31" "OrderId y < 2 ^ 31" "0 < OrderId x" "0 < OrderId y"
    "0 < min (quantity x) (quantity y)" "min (quantity x) (quantity y) < 2 ^ 31"
    "is_finite (limit_price y)" "flt (Fin 0) (limit_price y)" "float_ok (limit_price y)"
    "0 < t0 x" "t0 x \<le> t1 x" "t1 x < 2 ^ 63"
    using assms(1,2) by (auto simp: order_ok_def)
  then have b: "buy_order_id (met buy x y m t2) \<noteq> 0" "sell_order_id (met buy x y m t2) \<noteq> 0"
    "u64 (buy_order_id (met buy x y m t2))" "u64 (sell_order_id (met buy x y m t2))"
    using i(1) by (auto simp: doubleton_eq_iff u64_def)
  show "well_formed_trade (met buy x y m t2)"
    using f i(2) b o assms(6) \<open>0 < t2\<close> by (simp add: well_formed_trade_def)
  show "event_fits (met buy x y m t2)"
    using f b(3,4) o assms(4-7) \<open>0 < t2\<close> by (simp add: event_fits_def u64_def u32_def)
qed

section \<open>The trades of one order\<close>

fun trades :: "engine_io \<Rightarrow> int \<Rightarrow> nat \<Rightarrow> (order \<times> order) list \<Rightarrow> trade_event list" where
  "trades io n r [] = []"
| "trades io n r (p # ps) =
     trade_of (n + 1) (system_clock io r) (fst p) (snd p) # trades io (n + 1) (Suc r) ps"

text \<open>What the orders still in a queue must obey of the last trade.\<close>

definition obeys :: "trade_event option \<Rightarrow> bool \<Rightarrow> order list \<Rightarrow> bool" where
  "obeys p s xs \<longleftrightarrow>
     (case p of None \<Rightarrow> True
      | Some prev \<Rightarrow>
          (\<forall>x \<in> set xs. OrderId x = side_id s prev \<longrightarrow> \<not> key_before (\<not> s) (limit_price x) (price prev)))"

definition last_of :: "trade_event option \<Rightarrow> trade_event list \<Rightarrow> trade_event option" where
  "last_of p evs = (if evs = [] then p else Some (last evs))"

lemma last_of_Cons [simp]: "last_of p (e # evs) = last_of (Some e) evs"
  by (simp add: last_of_def)

lemma last_of_Nil [simp]: "last_of p [] = p"
  by (simp add: last_of_def)

lemma apart_stops: "apart buy xs ys \<Longrightarrow> flat_match (side buy xs ys) = ([], side buy xs ys)"
proof -
  assume "apart buy xs ys"
  then have "flat_step (side buy xs ys) = None"
    by (cases xs; cases ys) (simp_all add: flat_step_side apart_def)
  then show ?thesis by (simp add: flat_match.simps [of "side buy xs ys"])
qed

lemma queue_ok_reduce:
  "queue_ok buy (x # xs) \<Longrightarrow> 0 < q \<Longrightarrow> q \<le> quantity x \<Longrightarrow> queue_ok buy (reduce q (x # xs))"
  by (auto simp: queue_ok_Cons reduce_def order_ok_def)

text \<open>Where a queue stands when matching ends, and what it still obeys.\<close>

definition settled :: "bool \<Rightarrow> trade_event option \<Rightarrow> view \<Rightarrow> bool" where
  "settled buy p v \<longleftrightarrow>
     good buy (mine buy v) (mine (\<not> buy) v) \<and> obeys p buy (mine buy v) \<and> obeys p (\<not> buy) (mine (\<not> buy) v)"

lemma settled_swap: "settled (\<not> buy) p v = settled buy p v"
  using good_swap [of buy "mine (\<not> buy) v" "mine buy v"] by (auto simp: settled_def)

text \<open>The state of the tape before a trade: what follows must continue it.\<close>

definition tape_at :: "engine_io \<Rightarrow> int \<Rightarrow> nat \<Rightarrow> trade_event option \<Rightarrow> bool" where
  "tape_at io n r p \<longleftrightarrow>
     (case p of None \<Rightarrow> True
      | Some prev \<Rightarrow> match_id prev = n \<and> t2_ns prev \<le> system_clock io r \<and> float_ok (price prev) \<and> is_finite (price prev))"

lemma first_trade:
  assumes "clock_ok io" "order_ok x" "order_ok y" "seqNo y < seqNo x" "OrderId x \<noteq> OrderId y"
    and "0 \<le> n" "n + 1 < 2 ^ 64" "t1 x \<le> system_clock io r" "tape_at io n r p"
    and "case p of None \<Rightarrow> True | Some prev \<Rightarrow>
       (OrderId x = side_id buy prev \<longrightarrow> \<not> key_before (\<not> buy) (limit_price y) (price prev)) \<and>
       (OrderId y = side_id (\<not> buy) prev \<longrightarrow> \<not> key_before buy (limit_price y) (price prev))"
  shows "well_formed_trade (met buy x y (n + 1) (system_clock io r)) \<and>
         event_fits (met buy x y (n + 1) (system_clock io r)) \<and>
         (case p of None \<Rightarrow> 0 \<le> t2_ns (met buy x y (n + 1) (system_clock io r))
          | Some prev \<Rightarrow> follows prev (met buy x y (n + 1) (system_clock io r))) \<and>
         tape_at io (n + 1) (Suc r) (Some (met buy x y (n + 1) (system_clock io r)))"
proof -
  let ?t = "system_clock io r" and ?e = "met buy x y (n + 1) (system_clock io r)"
  have t: "0 < ?t" "?t < 2 ^ 63" "?t \<le> system_clock io (Suc r)"
    using assms(1) by (auto simp: clock_ok_def mono_def)
  have n: "0 \<le> n + 1" using assms(6) by simp
  note f = met_fields [OF assms(2-4) n assms(7) t(1,2), of buy]
  note w = met_well_formed [OF assms(2-4) n assms(7,8) t(2) assms(5), of buy]
  have "follows prev ?e" if p: "p = Some prev" for prev
  proof -
    have "exact_step prev ?e"
      unfolding exact_step_def
    proof (intro allI impI)
      fix s assume s: "side_id s ?e = side_id s prev" "side_id (\<not> s) ?e \<noteq> side_id (\<not> s) prev"
      show "\<not> key_before (\<not> s) (price ?e) (price prev)"
      proof (cases "s = buy")
        case True
        with s f assms(10) p show ?thesis by simp
      next
        case False
        then have "s = (\<not> buy)" by blast
        with s f assms(10) p show ?thesis by simp
      qed
    qed
    with exact_step_ok assms(9) p w(1) have "price_step_ok prev ?e"
      by (auto simp: tape_at_def well_formed_trade_def)
    with f(1,6) assms(9) p show ?thesis by (simp add: follows_def tape_at_def)
  qed
  moreover have "tape_at io (n + 1) (Suc r) (Some ?e)"
    using f w t(3) by (simp add: tape_at_def well_formed_trade_def event_fits_def)
  ultimately show ?thesis using w t(1) f(6) by (cases p) auto
qed

lemma good_Cons:
  assumes "good buy xs ys" "order_ok x" "OrderId x \<notin> set (ids (xs @ ys))"
    and "\<forall>z \<in> set xs. \<not> key_before buy (limit_price z) (limit_price x)"
    and "case ys of [] \<Rightarrow> True | y # _ \<Rightarrow> key_before (\<not> buy) (limit_price x) (limit_price y)"
  shows "good buy (x # xs) ys"
proof -
  have "key_before (\<not> buy) (limit_price x) (limit_price z)" if "z \<in> set ys" for z
  proof (cases ys)
    case (Cons y zs)
    have n: "limit_price x \<noteq> NaN" "limit_price y \<noteq> NaN" "limit_price z \<noteq> NaN"
      using assms(1,2) that Cons by (auto simp: good_def queue_ok_def list_all_iff ok_not_nan)
    have "\<not> key_before (\<not> buy) (limit_price z) (limit_price y)"
      using assms(1) that Cons by (auto simp: good_def queue_ok_Cons)
    with before_not_before_trans [OF n] assms(5) Cons show ?thesis by simp
  qed (use that in simp)
  with assms show ?thesis by (auto simp: good_def queue_ok_Cons apart_def)
qed

lemma good_tail: "good buy xs (y # ys) \<Longrightarrow> good buy xs ys"
  by (auto simp: good_def queue_ok_Cons apart_def)

lemma good_reduced:
  assumes "good buy xs (y # ys)" "0 < q" "q \<le> quantity y"
  shows "good buy xs (reduce q (y # ys))"
  using assms queue_ok_reduce [of "\<not> buy" y ys q] by (auto simp: good_def apart_def reduce_def)

text \<open>
  The taker: on top of its queue, fresh, newer than every order, and not hindered by the last trade.
\<close>

definition taker :: "bool \<Rightarrow> trade_event option \<Rightarrow> order \<Rightarrow> order list \<Rightarrow> order list \<Rightarrow> bool" where
  "taker buy p x xs ys \<longleftrightarrow>
     order_ok x \<and> OrderId x \<notin> set (ids (xs @ ys)) \<and> (\<forall>z \<in> set (xs @ ys). seqNo z < seqNo x) \<and>
     (\<forall>z \<in> set xs. \<not> key_before buy (limit_price z) (limit_price x)) \<and>
     (case p of None \<Rightarrow> True
      | Some prev \<Rightarrow> (OrderId x = side_id buy prev \<longrightarrow>
          (\<forall>y \<in> set ys. \<not> key_before (\<not> buy) (limit_price y) (price prev))))"

lemma obeys_Some: "obeys (Some e) s xs \<longleftrightarrow> (\<forall>x \<in> set xs. OrderId x = side_id s e \<longrightarrow> \<not> key_before (\<not> s) (limit_price x) (price e))"
  by (simp add: obeys_def)

lemma sweep:
  assumes "clock_ok io"
  shows "good buy xs ys \<Longrightarrow> taker buy p x xs ys \<Longrightarrow> obeys p buy (x # xs) \<Longrightarrow> obeys p (\<not> buy) ys \<Longrightarrow>
    0 \<le> n \<Longrightarrow> tape_at io n r p \<Longrightarrow> t1 x \<le> system_clock io r \<Longrightarrow>
    flat_match (side buy (x # xs) ys) = (ps, v) \<Longrightarrow> n + int (length ps) < 2 ^ 64 \<Longrightarrow>
      legal_from p (trades io n r ps) \<and> list_all event_fits (trades io n r ps) \<and>
      settled buy (last_of p (trades io n r ps)) v \<and>
      tape_at io (n + int (length ps)) (r + length ps) (last_of p (trades io n r ps))"
proof (induction ys arbitrary: x n r p ps)
  case Nil
  then have "ps = []" "v = side buy (x # xs) []" by (simp_all add: flat_match.simps [of "side buy (x # xs) []"])
  moreover have "good buy (x # xs) []" using Nil by (intro good_Cons) (auto simp: taker_def)
  ultimately show ?case using Nil by (simp add: settled_def)
next
  case (Cons y ys)
  note t = Cons.prems(2) [unfolded taker_def]
  show ?case
  proof (cases "key_before (\<not> buy) (limit_price x) (limit_price y)")
    case True
    then have "ps = []" "v = side buy (x # xs) (y # ys)"
      using Cons.prems(8) by (simp_all add: flat_match.simps [of "side buy (x # xs) (y # ys)"] flat_step_side)
    moreover have "good buy (x # xs) (y # ys)"
      using True t by (intro good_Cons [OF Cons.prems(1)]) auto
    ultimately show ?thesis using Cons.prems by (simp add: settled_def)
  next
    case cross: False
    let ?q = "min (quantity x) (quantity y)" and ?t = "system_clock io r"
    let ?e = "met buy x y (n + 1) ?t"
    have y: "order_ok y" "OrderId x \<noteq> OrderId y" "seqNo y < seqNo x" "\<forall>z \<in> set ys. OrderId z \<noteq> OrderId y"
      "\<forall>z \<in> set xs. OrderId z \<noteq> OrderId x" "\<forall>z \<in> set xs. OrderId z \<noteq> OrderId y"
      "\<forall>z \<in> set ys. \<not> key_before (\<not> buy) (limit_price z) (limit_price y)"
      using Cons.prems(1) t by (auto simp: good_def queue_ok_Cons dest: id_in)
    have q: "0 < ?q" "?q \<le> quantity x" "?q \<le> quantity y" using y(1) t by (auto simp: order_ok_def)
    obtain qs where m: "flat_match (side buy (reduce ?q (x # xs)) (reduce ?q (y # ys))) = (qs, v)" "ps = side buy x y # qs"
      using Cons.prems(8) cross
      by (auto simp: flat_match.simps [of "side buy (x # xs) (y # ys)"] flat_step_side split: prod.splits)
    have ev: "trades io n r ps = ?e # trades io (n + 1) (Suc r) qs" by (simp add: m(2) met_def)
    have lim: "n + 1 < 2 ^ 64" "n + 1 + int (length qs) < 2 ^ 64" using Cons.prems(9) m(2) by simp_all
    have "case p of None \<Rightarrow> True | Some prev \<Rightarrow>
       (OrderId x = side_id buy prev \<longrightarrow> \<not> key_before (\<not> buy) (limit_price y) (price prev)) \<and>
       (OrderId y = side_id (\<not> buy) prev \<longrightarrow> \<not> key_before buy (limit_price y) (price prev))"
      using t Cons.prems(4) by (auto simp: obeys_def split: option.splits)
    from first_trade [OF assms _ y(1,3,2) Cons.prems(5) lim(1) Cons.prems(7,6) this] t
    have one: "well_formed_trade ?e" "event_fits ?e" "tape_at io (n + 1) (Suc r) (Some ?e)"
      "case p of None \<Rightarrow> 0 \<le> t2_ns ?e | Some prev \<Rightarrow> follows prev ?e" by auto
    have tt: "0 < ?t" "?t < 2 ^ 63" "?t \<le> system_clock io (Suc r)"
      using assms by (auto simp: clock_ok_def mono_def)
    have e: "side_id buy ?e = OrderId x" "side_id (\<not> buy) ?e = OrderId y" "price ?e = limit_price y"
      using met_fields [OF _ y(1,3) _ lim(1) tt(1,2), of buy] t Cons.prems(5) by simp_all
    show ?thesis
    proof (cases "quantity x = ?q")
      case True
      let ?ys = "reduce ?q (y # ys)"
      have g: "good buy xs ?ys" using Cons.prems(1) q(1,3) by (rule good_reduced)
      have "reduce ?q (x # xs) = xs" using True by (simp add: reduce_def)
      then have v: "qs = []" "v = side buy xs ?ys" using m(1) apart_stops [of buy xs ?ys] g by (auto simp: good_def)
      have "obeys (Some ?e) buy xs" using e(1) y(5) by (auto simp: obeys_Some)
      moreover have "obeys (Some ?e) (\<not> buy) ?ys" using e(2,3) y(4) by (auto simp: obeys_Some reduce_def)
      ultimately show ?thesis using g one ev v m(2) by (simp add: settled_def)
    next
      case False
      let ?x = "x\<lparr>quantity := quantity x - ?q\<rparr>"
      have x: "reduce ?q (x # xs) = ?x # xs" "reduce ?q (y # ys) = ys" "0 < quantity ?x"
        using False q by (auto simp: reduce_def min_def split: if_splits)
      have "taker buy (Some ?e) ?x xs ys"
        using t x(3) q(1) e y(7) by (auto simp: taker_def order_ok_def)
      moreover have "obeys (Some ?e) buy (?x # xs)"
        using e(1,3) y(5) cross by (auto simp: obeys_Some)
      moreover have "obeys (Some ?e) (\<not> buy) ys" using e(2) y(4) by (auto simp: obeys_Some)
      moreover have "t1 ?x \<le> system_clock io (Suc r)" using Cons.prems(7) tt(3) by simp
      ultimately show ?thesis
        using Cons.IH [of "Some ?e" ?x "n + 1" "Suc r" qs] good_tail [OF Cons.prems(1)] one ev lim m x
          Cons.prems(5)
        by (simp add: algebra_simps split: option.splits)
    qed
  qed
qed

section \<open>A whole order\<close>

lemma obeys_insert:
  assumes "obeys p s xs" "case p of None \<Rightarrow> True | Some prev \<Rightarrow> OrderId x \<noteq> side_id s prev"
  shows "obeys p s (insert_order s x xs)"
proof -
  have "set (insert_order s x xs) = insert x (set xs)" using insert_order_split [of xs s x] by auto
  with assms show ?thesis by (auto simp: obeys_def split: option.splits)
qed

text \<open>A fresh, newer order: what it brings about continues the tape and leaves the book settled.\<close>

lemma add_legal:
  assumes "clock_ok io" "settled True p v" "order_ok x" "OrderId x \<notin> view_ids v"
    and "\<forall>z \<in> set (fst v @ snd v). seqNo z < seqNo x"
    and "case p of None \<Rightarrow> True | Some prev \<Rightarrow> OrderId x \<noteq> buy_order_id prev \<and> OrderId x \<noteq> sell_order_id prev"
    and "0 \<le> n" "tape_at io n r p" "t1 x \<le> system_clock io r" "flat_add x v = (ps, v')" "n + int (length ps) < 2 ^ 64"
  shows "legal_from p (trades io n r ps) \<and> list_all event_fits (trades io n r ps) \<and>
    settled True (last_of p (trades io n r ps)) v' \<and>
    tape_at io (n + int (length ps)) (r + length ps) (last_of p (trades io n r ps))"
proof -
  let ?b = "IsBuy x" and ?xs = "mine (IsBuy x) v" and ?ys = "mine (\<not> IsBuy x) v"
  have s: "settled ?b p v" using assms(2) settled_swap [of True p v] by (cases ?b) simp_all
  then have g: "good ?b ?xs ?ys" and ob: "obeys p ?b ?xs" "obeys p (\<not> ?b) ?ys" by (simp_all add: settled_def)
  have fresh: "OrderId x \<notin> set (ids (?xs @ ?ys))" "\<forall>z \<in> set (?xs @ ?ys). seqNo z < seqNo x"
    using assms(4,5) by (auto simp: mine_def view_ids_def split: if_splits)
  have new: "case p of None \<Rightarrow> True | Some prev \<Rightarrow> OrderId x \<noteq> side_id s prev" for s
    using assms(6) by (auto simp: side_id_def split: option.splits)
  have nan: "limit_price z \<noteq> NaN" if "z \<in> set ?xs \<or> z \<in> set ?ys \<or> z = x" for z
    using g that assms(3) by (auto simp: good_def queue_ok_def list_all_iff ok_not_nan)
  show ?thesis
  proof (cases "\<exists>y zs. ?ys = y # zs \<and> \<not> key_before (\<not> ?b) (limit_price x) (limit_price y)")
    case True
    then obtain y zs where y: "?ys = y # zs" "\<not> key_before (\<not> ?b) (limit_price x) (limit_price y)" by blast
    have top: "\<forall>z \<in> set ?xs. key_before ?b (limit_price x) (limit_price z)"
    proof
      fix z assume z: "z \<in> set ?xs"
      have "key_before (\<not> ?b) (limit_price z) (limit_price y)" using g z y(1) by (auto simp: good_def apart_def)
      from before_not_before_trans [OF nan nan nan this y(2)] z y(1)
      show "key_before ?b (limit_price x) (limit_price z)" by (simp add: key_before_flip)
    qed
    then have "flat_match (side ?b (x # ?xs) ?ys) = (ps, v')"
      using assms(10) insert_top [OF top] by (simp add: flat_add_side)
    moreover have "taker ?b p x ?xs ?ys"
      using assms(3) fresh top new [of ?b] key_before_asym by (auto simp: taker_def split: option.splits)
    moreover have "obeys p ?b (x # ?xs)" using ob(1) new [of ?b] by (auto simp: obeys_def split: option.splits)
    ultimately have "legal_from p (trades io n r ps) \<and> list_all event_fits (trades io n r ps) \<and>
        settled ?b (last_of p (trades io n r ps)) v' \<and>
        tape_at io (n + int (length ps)) (r + length ps) (last_of p (trades io n r ps))"
      using sweep [OF assms(1) g _ _ ob(2) assms(7-9) _ assms(11)] by blast
    then show ?thesis using settled_swap [of True] by (cases ?b) simp_all
  next
    case False
    let ?is = "insert_order ?b x ?xs"
    have set: "set ?is = insert x (set ?xs)" using insert_order_split [of ?xs ?b x] by auto
    have "key_before (\<not> ?b) (limit_price x) (limit_price z)" if z: "z \<in> set ?ys" for z
    proof -
      obtain y zs where y: "?ys = y # zs" using z by (cases ?ys) auto
      with False have "key_before (\<not> ?b) (limit_price x) (limit_price y)" by blast
      moreover have "\<not> key_before (\<not> ?b) (limit_price z) (limit_price y)"
        using g z y by (auto simp: good_def queue_ok_Cons)
      ultimately show ?thesis using before_not_before_trans [OF nan nan nan] y z by auto
    qed
    then have ap: "apart ?b ?is ?ys" using g set by (auto simp: good_def apart_def)
    then have m: "ps = []" "v' = side ?b ?is ?ys" using assms(10) apart_stops [OF ap] by (simp_all add: flat_add_side)
    have "distinct (ids (?is @ ?ys))"
      using distinct_insert_order [of "[]" ?xs ?ys x ?b] g fresh(1) by (simp add: good_def)
    moreover have "queue_ok ?b ?is" using g assms(3) by (intro queue_ok_insert) (auto simp: good_def)
    ultimately have "good ?b ?is ?ys" using g ap by (auto simp: good_def)
    moreover have "obeys p ?b ?is" by (rule obeys_insert [OF ob(1) new])
    ultimately have "settled ?b p v'" using ob(2) m(2) by (simp add: settled_def)
    then have "settled True p v'" using settled_swap [of True p v'] by (cases ?b) simp_all
    with m(1) assms(8) show ?thesis by simp
  qed
qed

end
