(* ===== verification/EngineVerdict.thy ===== *)
theory EngineVerdict
  imports EngineTrades
begin

text \<open>
  From orders to the verdict: the engine processes a sequence of orders, publishes its trades, and the
  scoring worker reads them. While the queue to the Kafka thread takes every event, the worker finds
  nothing to object to; one refused event between two that get through is a disqualification.
\<close>

section \<open>The tape\<close>

lemma foldl_record:
  assumes "publishes io = (\<lambda>evs ev. True)"
  shows "foldl (record_trade io) e ps =
    e\<lparr>events := events e @ trades io (next_match_id e) (clock_reads e) ps,
      next_match_id := next_match_id e + int (length ps), clock_reads := clock_reads e + length ps,
      trades_executed := trades_executed e + int (length ps)\<rparr>"
proof (induction ps arbitrary: e)
  case (Cons p ps)
  then show ?case by (simp add: record_trade_def publish_def assms Let_def)
qed simp

lemma length_trades [simp]: "length (trades io n r ps) = length ps"
  by (induction ps arbitrary: n r) auto

lemma last_of_append: "last_of p (xs @ ys) = last_of (last_of p xs) ys"
  by (simp add: last_of_def)

section \<open>Whose orders\<close>

definition tags :: "order list \<Rightarrow> (int \<times> int) set" where
  "tags xs = (\<lambda>z. (OrderId z, seqNo z)) ` set xs"

lemma tags_simps [simp]: "tags [] = {}" "tags (x # xs) = insert (OrderId x, seqNo x) (tags xs)"
  "tags (xs @ ys) = tags xs \<union> tags ys"
  by (auto simp: tags_def)

lemma tags_reduce: "xs \<noteq> [] \<Longrightarrow> tags (reduce q xs) \<subseteq> tags xs"
  by (cases xs) (auto simp: reduce_def)

lemma flat_match_tags:
  "flat_match v = (ps, v') \<Longrightarrow>
     tags (fst v' @ snd v') \<subseteq> tags (fst v @ snd v) \<and> tags (map fst ps @ map snd ps) \<subseteq> tags (fst v @ snd v)"
proof (induction v arbitrary: ps rule: flat_match.induct)
  case (1 v)
  show ?case
  proof (cases "flat_step v")
    case None
    with 1(2) show ?thesis by (simp add: flat_match.simps [of v])
  next
    case (Some s)
    obtain p w where s: "s = (p, w)" by (cases s)
    obtain qs where q: "flat_match w = (qs, v')" "ps = p # qs"
      using 1(2) Some s by (auto simp: flat_match.simps [of v] split: prod.splits)
    obtain b bs a as where v: "v = (b # bs, a # as)" "p = (b, a)"
      "w = (reduce (min (quantity b) (quantity a)) (b # bs), reduce (min (quantity b) (quantity a)) (a # as))"
      using Some s by (auto simp: flat_step_Some)
    have "tags (fst w @ snd w) \<subseteq> tags (fst v @ snd v)"
      using tags_reduce [of "b # bs"] tags_reduce [of "a # as"] v by fastforce
    with 1(1) [OF Some [unfolded s] refl q(1)] q(2) v show ?thesis by auto
  qed
qed

lemma flat_add_tags:
  assumes "flat_add x v = (ps, v')"
  shows "tags (fst v' @ snd v') \<subseteq> insert (OrderId x, seqNo x) (tags (fst v @ snd v))"
    "tags (map fst ps @ map snd ps) \<subseteq> insert (OrderId x, seqNo x) (tags (fst v @ snd v))"
proof -
  have "tags (insert_order s x xs) = insert (OrderId x, seqNo x) (tags xs)" for s xs
    using insert_order_split [of xs s x] by auto
  with flat_match_tags [OF assms [unfolded flat_add_def]]
  show "tags (fst v' @ snd v') \<subseteq> insert (OrderId x, seqNo x) (tags (fst v @ snd v))"
    "tags (map fst ps @ map snd ps) \<subseteq> insert (OrderId x, seqNo x) (tags (fst v @ snd v))"
    by (auto split: if_splits)
qed

lemma trades_ids:
  assumes "ev \<in> set (trades io n r ps)" "tags (map fst ps @ map snd ps) \<subseteq> tags os" "list_all order_ok os"
  shows "buy_order_id ev \<in> set (ids os)" "sell_order_id ev \<in> set (ids os)"
proof -
  have "\<exists>p \<in> set ps. buy_order_id ev = to_u64 (OrderId (fst p)) \<and> sell_order_id ev = to_u64 (OrderId (snd p))"
    using assms(1) by (induction ps arbitrary: n r) (auto simp: trade_of_def Let_def)
  then obtain b a where p: "(b, a) \<in> set ps" "buy_order_id ev = to_u64 (OrderId b)" "sell_order_id ev = to_u64 (OrderId a)"
    by auto
  then have "(OrderId b, seqNo b) \<in> tags os" "(OrderId a, seqNo a) \<in> tags os"
    using assms(2) by (force simp: tags_def)+
  then obtain x y where x: "x \<in> set os" "OrderId x = OrderId b" and y: "y \<in> set os" "OrderId y = OrderId a"
    by (auto simp: tags_def)
  then have "to_u64 (OrderId b) = OrderId x" "to_u64 (OrderId a) = OrderId y"
    using assms(3) by (auto simp: list_all_iff order_ok_def to_u64_def)
  then show "buy_order_id ev \<in> set (ids os)" "sell_order_id ev \<in> set (ids os)"
    using p x(1) y(1) id_in by metis+
qed

section \<open>A session of the engine\<close>

definition orders_ok :: "order list \<Rightarrow> bool" where
  "orders_ok os \<longleftrightarrow> list_all order_ok os \<and> distinct (ids os) \<and> sorted_wrt (\<lambda>x y. seqNo x < seqNo y) os"

text \<open>Each order was received by the gateway before the engine's clock reading that follows.\<close>

fun arrives :: "engine_io \<Rightarrow> engine \<Rightarrow> order list \<Rightarrow> bool" where
  "arrives io e [] \<longleftrightarrow> True"
| "arrives io e (x # xs) \<longleftrightarrow> t1 x \<le> system_clock io (clock_reads e) \<and> arrives io (process_order io e x) xs"

definition session :: "engine_io \<Rightarrow> order list \<Rightarrow> engine \<Rightarrow> bool" where
  "session io os e \<longleftrightarrow>
     book_ok e \<and> settled True (last_of None (events e)) (view e) \<and> legal_from None (events e) \<and>
     list_all event_fits (events e) \<and> 0 \<le> next_match_id e \<and>
     tape_at io (next_match_id e) (clock_reads e) (last_of None (events e)) \<and>
     tags (fst (view e) @ snd (view e)) \<subseteq> tags os \<and>
     (\<forall>ev \<in> set (events e). buy_order_id ev \<in> set (ids os) \<and> sell_order_id ev \<in> set (ids os))"

lemma session_new: "session io [] new_engine"
  using new_engine_ok
  by (simp add: session_def settled_def good_def queue_ok_def apart_def obeys_def mine_def tape_at_def)
    (simp add: new_engine_def tape_at_def obeys_def)

lemma tape_at_later: "clock_ok io \<Longrightarrow> tape_at io n r p \<Longrightarrow> tape_at io n (Suc r) p"
proof -
  assume c: "clock_ok io" and t: "tape_at io n r p"
  have "system_clock io r \<le> system_clock io (Suc r)" using c by (auto simp: clock_ok_def mono_def)
  with t show ?thesis by (auto simp: tape_at_def split: option.splits)
qed

lemma process_order_fields:
  assumes "publishes io = (\<lambda>evs ev. True)" "ledger (addOrder io x e) = foldl (record_trade io) (ledger e) ps"
  shows "events (process_order io e x) = events e @ trades io (next_match_id e) (clock_reads e) ps"
    "next_match_id (process_order io e x) = next_match_id e + int (length ps)"
    "clock_reads (process_order io e x) = Suc (clock_reads e + length ps)"
proof -
  have l: "events (ledger u) = events u" "next_match_id (ledger u) = next_match_id u" "clock_reads (ledger u) = clock_reads u" for u
    by simp_all
  from arg_cong [OF assms(2), of events] arg_cong [OF assms(2), of next_match_id] arg_cong [OF assms(2), of clock_reads]
  show "events (process_order io e x) = events e @ trades io (next_match_id e) (clock_reads e) ps"
    "next_match_id (process_order io e x) = next_match_id e + int (length ps)"
    "clock_reads (process_order io e x) = Suc (clock_reads e + length ps)"
    by (simp_all add: process_order_def foldl_record [OF assms(1)] Let_def)
qed

lemma view_process [simp]: "view (process_order io e x) = view (addOrder io x e)"
  "book_ok (process_order io e x) = book_ok (addOrder io x e)"
  by (simp_all add: process_order_def view_def book_ok_def Let_def)

lemma session_step:
  assumes "session io os e" "publishes io = (\<lambda>evs ev. True)" "clock_ok io" "orders_ok (os @ [x])"
    and "t1 x \<le> system_clock io (clock_reads e)" "next_match_id (process_order io e x) < 2 ^ 64"
  shows "session io (os @ [x]) (process_order io e x)"
proof -
  note s = assms(1) [unfolded session_def]
  obtain ps v where f: "flat_add x (view e) = (ps, v)" by (cases "flat_add x (view e)")
  have x: "order_ok x" "OrderId x \<notin> set (ids os)" "\<forall>z \<in> set os. seqNo z < seqNo x" "list_all order_ok (os @ [x])"
    using assms(4) by (auto simp: orders_ok_def sorted_wrt_append)
  have tagged: "OrderId z \<in> set (ids os) \<and> seqNo z < seqNo x" if "z \<in> set (fst (view e) @ snd (view e))" for z
  proof -
    have "(OrderId z, seqNo z) \<in> tags (fst (view e) @ snd (view e))" using that by (auto simp: tags_def)
    with s have "(OrderId z, seqNo z) \<in> tags os" by blast
    then obtain y where "y \<in> set os" "OrderId z = OrderId y" "seqNo z = seqNo y" by (auto simp: tags_def)
    with x(3) id_in [of y os] show ?thesis by auto
  qed
  then have fresh: "OrderId x \<notin> view_ids (view e)" "\<forall>z \<in> set (fst (view e) @ snd (view e)). seqNo z < seqNo x"
    using x(2) by (auto simp: view_ids_def ids_def)
  have other: "case last_of None (events e) of None \<Rightarrow> True
      | Some prev \<Rightarrow> OrderId x \<noteq> buy_order_id prev \<and> OrderId x \<noteq> sell_order_id prev"
    using s x(2) by (auto simp: last_of_def)
  from addOrder_view [OF _ ok_not_nan [OF x(1)] fresh(1) [unfolded view_ids_def] f, of io] s
  have a: "book_ok (addOrder io x e)" "view (addOrder io x e) = v"
    "ledger (addOrder io x e) = foldl (record_trade io) (ledger e) ps" by auto
  note p = process_order_fields [OF assms(2) a(3)]
  have lim: "next_match_id e + int (length ps) < 2 ^ 64" using assms(6) p(2) by simp
  have legal: "legal_from (last_of None (events e)) (trades io (next_match_id e) (clock_reads e) ps)"
    "list_all event_fits (trades io (next_match_id e) (clock_reads e) ps)"
    "settled True (last_of (last_of None (events e)) (trades io (next_match_id e) (clock_reads e) ps)) v"
    "tape_at io (next_match_id e + int (length ps)) (clock_reads e + length ps)
       (last_of (last_of None (events e)) (trades io (next_match_id e) (clock_reads e) ps))"
    using add_legal [OF assms(3) _ x(1) fresh other _ _ assms(5) f lim] s by auto
  have t: "tags (fst v @ snd v) \<subseteq> tags (os @ [x])" "tags (map fst ps @ map snd ps) \<subseteq> tags (os @ [x])"
    using flat_add_tags [OF f] s by auto
  have "legal_from None (events (process_order io e x))"
    using legal(1) s by (simp add: p(1) legal_from_append last_of_def)
  moreover have "\<forall>ev \<in> set (events (process_order io e x)). buy_order_id ev \<in> set (ids (os @ [x])) \<and> sell_order_id ev \<in> set (ids (os @ [x]))"
  proof
    fix ev assume "ev \<in> set (events (process_order io e x))"
    then consider "ev \<in> set (events e)" | "ev \<in> set (trades io (next_match_id e) (clock_reads e) ps)"
      by (auto simp: p(1))
    then show "buy_order_id ev \<in> set (ids (os @ [x])) \<and> sell_order_id ev \<in> set (ids (os @ [x]))"
    proof cases
      case 1
      with s show ?thesis by auto
    next
      case 2
      from trades_ids [OF this t(2) x(4)] show ?thesis by blast
    qed
  qed
  ultimately show ?thesis
    using legal(2-4) t(1) s a(1,2) tape_at_later [OF assms(3)]
    by (simp add: session_def p last_of_append)
qed

lemma match_step_grows: "match_step io e = Some e' \<Longrightarrow> next_match_id e \<le> next_match_id e'"
  by (auto simp: match_step_def Let_def split: list.splits if_splits prod.splits)

lemma match_ids_grow: "next_match_id e \<le> next_match_id (process_orders io xs e)"
proof -
  have m: "next_match_id e \<le> next_match_id (matching io e)" for e
  proof (induction io e rule: matching.induct)
    case (1 io e)
    show ?case
    proof (cases "match_step io e")
      case (Some e')
      with order_trans [OF match_step_grows [OF Some] 1 [OF Some]] show ?thesis
        by (simp add: matching.simps [of io e])
    qed (simp add: matching.simps [of io e])
  qed
  have "next_match_id e \<le> next_match_id (process_order io e x)" for e x
    using m by (auto simp: process_order_def addOrder_def Let_def split: prod.split intro: order_trans [OF _ m])
  then show ?thesis
    by (induction xs arbitrary: e) (auto simp: process_orders_def intro: order_trans)
qed

lemma session_run:
  "session io os e \<Longrightarrow> publishes io = (\<lambda>evs ev. True) \<Longrightarrow> clock_ok io \<Longrightarrow> orders_ok (os @ xs) \<Longrightarrow>
   arrives io e xs \<Longrightarrow> next_match_id (process_orders io xs e) < 2 ^ 64 \<Longrightarrow>
     session io (os @ xs) (process_orders io xs e)"
proof (induction xs arbitrary: os e)
  case Nil
  then show ?case by (simp add: process_orders_def)
next
  case (Cons x xs)
  have run: "process_orders io (x # xs) e = process_orders io xs (process_order io e x)"
    by (simp add: process_orders_def)
  have "next_match_id (process_order io e x) < 2 ^ 64"
    using match_ids_grow [of "process_order io e x" io xs] Cons.prems(6) run by simp
  moreover have "orders_ok (os @ [x])" using Cons.prems(4) by (auto simp: orders_ok_def sorted_wrt_append)
  ultimately have "session io (os @ [x]) (process_order io e x)"
    using session_step [OF Cons.prems(1-3)] Cons.prems(5) by simp
  from Cons.IH [OF this Cons.prems(2,3)] Cons.prems(4-6) run show ?case by simp
qed

text \<open>Every trade was either published or counted as dropped.\<close>

definition tallied :: "engine \<Rightarrow> bool" where
  "tallied e \<longleftrightarrow>
     int (length (events e)) + trade_events_dropped e = next_match_id e \<and> trades_executed e = next_match_id e \<and>
     0 \<le> trade_events_dropped e"

lemma tallied_step: "tallied e \<Longrightarrow> match_step io e = Some e' \<Longrightarrow> tallied e'"
  by (auto simp: match_step_def publish_def tallied_def Let_def split: list.splits if_splits prod.splits)

lemma tallied_matching: "tallied e \<Longrightarrow> tallied (matching io e)"
proof (induction io e rule: matching.induct)
  case (1 io e)
  then show ?case by (auto simp: matching.simps [of io e] intro: tallied_step split: option.split)
qed

lemma tallied_orders: "tallied e \<Longrightarrow> tallied (process_orders io os e)"
proof (induction os arbitrary: e)
  case (Cons x xs)
  have "tallied (addOrder io x e)"
    unfolding addOrder_def Let_def
    by (rule tallied_matching) (use Cons.prems in \<open>auto simp: tallied_def split: prod.split\<close>)
  then have "tallied (process_order io e x)" by (simp add: process_order_def tallied_def Let_def)
  from Cons.IH [OF this] show ?case by (simp add: process_orders_def)
qed (simp add: process_orders_def)

lemma tallied_new: "tallied new_engine"
  by (simp add: tallied_def new_engine_def)

text \<open>
  Every trade takes an order off the book, so there are no more trades than orders; and there are fewer
  orders than identifiers.
\<close>

definition resting :: "engine \<Rightarrow> nat" where
  "resting e = length (concat (map snd (buyOrders e))) + length (concat (map snd (sellOrders e)))"

lemma match_step_resting:
  assumes "match_step io e = Some e'"
  shows "int (resting e') + next_match_id e' \<le> int (resting e) + next_match_id e"
proof -
  obtain bp bv buys sp sv sells where
    b: "buyOrders e = (bp, bv) # buys" "sellOrders e = (sp, sv) # sells" "\<not> flt bp sp"
    using assms by (auto simp: match_step_def split: list.splits if_splits)
  have k: "length (concat (map snd (keep_level p v ls))) = length v + length (concat (map snd ls))" for p v ls
    by (simp add: keep_level_def)
  show ?thesis
  proof (cases "bv = [] \<or> sv = []")
    case True
    with assms b have "e' = e\<lparr>buyOrders := keep_level bp bv buys, sellOrders := keep_level sp sv sells\<rparr>"
      by (simp add: match_step_def)
    with b show ?thesis by (simp add: resting_def k)
  next
    case False
    let ?q = "min (quantity (hd bv)) (quantity (hd sv))"
    let ?e = "publish io (trade_of (next_match_id e + 1) (system_clock io (clock_reads e)) (hd bv) (hd sv))
        (e\<lparr>next_match_id := next_match_id e + 1, clock_reads := Suc (clock_reads e)\<rparr>)"
    obtain bv' m where bv': "consume_front ?q bv (orderMap ?e) = (bv', m)"
      by (cases "consume_front ?q bv (orderMap ?e)")
    obtain sv' m' where sv': "consume_front ?q sv m = (sv', m')" by (cases "consume_front ?q sv m")
    have n: "next_match_id ?e = next_match_id e + 1" by (simp add: publish_def)
    have e': "buyOrders e' = keep_level bp bv' buys" "sellOrders e' = keep_level sp sv' sells"
      "next_match_id e' = next_match_id e + 1"
      using assms b False bv' sv' n by (auto simp: match_step_def Let_def)
    have "length bv' + length sv' < length bv + length sv"
      using consume_front_length [of bv ?q "orderMap ?e"] consume_front_length [of sv ?q m] False bv' sv'
      by (auto simp: min_def split: if_splits)
    with b e' show ?thesis by (simp add: resting_def k)
  qed
qed

lemma matching_resting: "int (resting (matching io e)) + next_match_id (matching io e) \<le> int (resting e) + next_match_id e"
proof (induction io e rule: matching.induct)
  case (1 io e)
  show ?case
  proof (cases "match_step io e")
    case (Some e')
    with order_trans [OF 1 [OF Some] match_step_resting [OF Some]] show ?thesis by (simp add: matching.simps [of io e])
  qed (simp add: matching.simps [of io e])
qed

lemma push_order_resting: "length (concat (map snd (fst (push_order buy x ls)))) = Suc (length (concat (map snd ls)))"
  by (induction buy x ls rule: push_order.induct) (auto split: prod.splits)

lemma process_order_resting:
  "int (resting (process_order io e x)) + next_match_id (process_order io e x) \<le> int (resting e) + next_match_id e + 1"
proof -
  have "int (resting (addOrder io x e)) + next_match_id (addOrder io x e) \<le> int (resting e) + next_match_id e + 1"
    unfolding addOrder_def Let_def
    using push_order_resting [of True x "buyOrders e"] push_order_resting [of False x "sellOrders e"]
    by (intro order_trans [OF matching_resting]) (auto simp: resting_def split: prod.split)
  then show ?thesis by (simp add: process_order_def resting_def Let_def)
qed

lemma trades_bounded: "next_match_id (process_orders io os e) \<le> int (resting e) + next_match_id e + int (length os)"
proof (induction os arbitrary: e)
  case (Cons x xs)
  from order_trans [OF Cons [of "process_order io e x"]] process_order_resting [of io e x] show ?case
    by (simp add: process_orders_def)
qed (simp add: process_orders_def)

lemma orders_few: "orders_ok os \<Longrightarrow> length os < 2 ^ 31"
proof -
  assume o: "orders_ok os"
  then have "set (ids os) \<subseteq> {0<..<2 ^ 31}" "distinct (ids os)"
    by (auto simp: orders_ok_def order_ok_def list_all_iff ids_def)
  moreover from this have "card (set (ids os)) \<le> card {0<..<2 ^ 31 :: int}" by (intro card_mono) auto
  ultimately show ?thesis by (simp add: distinct_card [of "ids os"]) (simp add: ids_def)
qed

lemma few_trades:
  assumes "orders_ok os"
  shows "next_match_id (process_orders io os new_engine) < 2 ^ 31"
    "length (events (process_orders io os new_engine)) < 2 ^ 31"
proof -
  have "resting new_engine = 0" "next_match_id new_engine = 0" by (simp_all add: resting_def new_engine_def)
  with trades_bounded [of io os new_engine] orders_few [OF assms]
  show n: "next_match_id (process_orders io os new_engine) < 2 ^ 31" by simp
  have "tallied (process_orders io os new_engine)" by (rule tallied_orders [OF tallied_new])
  with n show "length (events (process_orders io os new_engine)) < 2 ^ 31" by (simp add: tallied_def)
qed

lemma session_all:
  "orders_ok os \<Longrightarrow> arrives io new_engine os \<Longrightarrow> clock_ok io \<Longrightarrow> publishes io = (\<lambda>evs ev. True) \<Longrightarrow>
   session io os (process_orders io os new_engine)"
  using session_run [OF session_new, of io os] few_trades(1) [of os io] by simp


lemma engine_scored:
  assumes "orders_ok os" "arrives io new_engine os" "clock_ok io" "publishes io = (\<lambda>evs ev. True)"
    and "concat batches = events (process_orders io os new_engine)" "redis_fails ev = (\<lambda>_ _. None)"
  shows "snd (worker_main ev a window (map (\<lambda>b. Payload (concat (map trade_event_wire b))) batches)) = Running"
proof -
  have "session io os (process_orders io os new_engine)" by (rule session_all [OF assms(1-4)])
  then have "legal_from None (concat batches)" "list_all event_fits (concat batches)"
    by (simp_all add: session_def assms(5))
  with worker_main_verdict [OF assms(6), of batches a window] few_trades(2) [OF assms(1), of io] assms(5)
  show ?thesis by simp
qed


text \<open>Two bids, a partial fill, and an order that takes the rest and the next price level.\<close>

definition sample_orders :: "order list" where
  "sample_orders = [sample_order 1 True 101 10, sample_order 2 True 100 5, sample_order 3 False 101 4,
     sample_order 4 False 100 9]"

text \<open>A clock that stops at 1100.\<close>

definition steady_io :: engine_io where
  "steady_io = \<lparr>system_clock = (\<lambda>n. 1000 + int (min n 100)), publishes = (\<lambda>evs ev. True)\<rparr>"

lemmas engine_eval = sample_orders_def sample_order_def steady_io_def new_engine_def process_orders_def
  process_order_def addOrder_def match_step_def publish_def trade_of_def consume_front_def
  eraseAt_def keep_level_def key_before_def

lemma sample_orders_ok: "orders_ok sample_orders"
  using float_ok_of_int [of 100] float_ok_of_int [of 101]
  by (simp add: orders_ok_def sample_orders_def sample_order_def order_ok_def ids_def)

lemma steady_clock_ok: "clock_ok steady_io"
  by (auto simp: clock_ok_def steady_io_def mono_def)

lemma sample_arrives: "arrives steady_io new_engine sample_orders"
  by (simp add: engine_eval matching.simps Let_def)



section \<open>Refused events\<close>

text \<open>
  C19. A dropped event disqualifies the contestant. The engine numbers its trades before it offers them to
  the queue of the Kafka thread, so whatever the orders: when the first and the latest trade got through
  but the queue, being full, refused one in between, the worker that reads the published trades ends with
  a disqualification, although the engine broke no rule.
\<close>

theorem dropped_event_disqualifies:
  assumes "e = process_orders io os new_engine" "0 < trade_events_dropped e"
    and "events e \<noteq> []" "match_id (hd (events e)) = 1" "match_id (last (events e)) = next_match_id e"
    and "list_all event_fits (events e)" "int (length (events e)) \<le> 2 ^ 53"
    and "concat batches = events e" "redis_fails ev = (\<lambda>_ _. None)"
  shows "snd (worker_main ev a window (map (\<lambda>b. Payload (concat (map trade_event_wire b))) batches)) = Returned"
proof -
  have "tallied e" using tallied_orders [OF tallied_new] assms(1) by simp
  then have "int (length (events e)) < next_match_id e" using assms(2) by (simp add: tallied_def)
  moreover have "match_id (last (events e)) = match_id (hd (events e)) + int (length (events e) - 1)"
    if "legal_from None (events e)"
    using legal_match_ids [OF that, of "length (events e) - 1"] assms(3) by (simp add: last_conv_nth hd_conv_nth)
  ultimately have "\<not> legal_from None (concat batches)"
    using assms(3,4,5,8) by (cases "events e") auto
  with worker_main_verdict [OF assms(9), of batches a window] assms(6,7,8) show ?thesis by simp
qed

text \<open>The queue refuses the second of the three trades.\<close>

definition refusing_io :: engine_io where
  "refusing_io = \<lparr>system_clock = (\<lambda>n. 1000 + int (min n 100)), publishes = (\<lambda>evs ev. match_id ev \<noteq> 2)\<rparr>"

lemma refused_tape:
  "events (process_orders refusing_io sample_orders new_engine) =
     [\<lparr>match_id = 1, buy_order_id = 1, sell_order_id = 3, t0_ns = 10, t1_ns = 20, t2_ns = 1002,
        price = Fin 101, qty = 4\<rparr>,
      \<lparr>match_id = 3, buy_order_id = 2, sell_order_id = 4, t0_ns = 10, t1_ns = 20, t2_ns = 1005,
        price = Fin 100, qty = 3\<rparr>]"
  "trade_events_dropped (process_orders refusing_io sample_orders new_engine) = 1"
  "next_match_id (process_orders refusing_io sample_orders new_engine) = 3"
  by (simp_all add: engine_eval refusing_io_def matching.simps Let_def to_u64_def to_u32_def)

theorem dropped_event_disqualifies_witness:
  "snd (worker_main quiet_env sample_args (Fin 10)
     [Payload (concat (map trade_event_wire (events (process_orders refusing_io sample_orders new_engine))))]) = Returned"
  using dropped_event_disqualifies [OF refl, of refusing_io sample_orders
      "[events (process_orders refusing_io sample_orders new_engine)]" quiet_env sample_args "Fin 10"]
    float_ok_of_int [of 100] float_ok_of_int [of 101]
  by (simp add: refused_tape event_fits_def u64_def u32_def) (simp add: quiet_env_def)

end
