(* ===== verification/GatewayVerdict.thy ===== *)
theory GatewayVerdict
  imports GatewayOrders EngineVerdict
begin

text \<open>
  From the bots' sockets to the verdict: the bytes of any number of bots, interleaved and cut in any way,
  become orders, the orders trades, and the trades pass the scoring worker.
\<close>

section \<open>The orders taken\<close>

fun orders_from :: "gateway_io \<Rightarrow> int \<Rightarrow> nat \<Rightarrow> order_message list \<Rightarrow> order list" where
  "orders_from io s r [] = []"
| "orders_from io s r (m # ms) = fst (order_of m (gateway_clock io r) s) # orders_from io (s + 1) (Suc r) ms"

lemma taken_orders:
  "enqueues io = (\<lambda>_ _. True) \<Longrightarrow>
     incoming (foldl (take_message io) q ms) = incoming q @ orders_from io (order_seq q) (gateway_reads q) ms"
  by (induction ms arbitrary: q) (simp_all add: take_message_def order_of_def new_order_def Let_def)

text \<open>Messages whose fields the conversions of \<open>Order\<close> keep.\<close>

definition message_ok :: "order_message \<Rightarrow> bool" where
  "message_ok m \<longleftrightarrow>
     0 < order_id m \<and> order_id m < 2 ^ 31 \<and> 0 < msg_qty m \<and> msg_qty m < 2 ^ 31 \<and>
     is_finite (msg_price m) \<and> float_ok (msg_price m) \<and> flt (Fin 0) (msg_price m) \<and>
     0 < timestamp_ns m \<and> timestamp_ns m < 2 ^ 63"

lemma to_int32_id: "0 < n \<Longrightarrow> n < 2 ^ 31 \<Longrightarrow> to_int32 n = n"
  by (simp add: to_int32_def)

lemma to_int64_id: "0 < n \<Longrightarrow> n < 2 ^ 63 \<Longrightarrow> to_int64 n = n"
  by (simp add: to_int64_def)

lemma order_of_ok:
  "message_ok m \<Longrightarrow> fst (order_of m now s) =
     \<lparr>OrderId = order_id m, quantity = msg_qty m, IsBuy = is_buy (msg_side m), limit_price = msg_price m,
      t0 = timestamp_ns m, t1 = now, seqNo = s + 1\<rparr>"
  by (simp add: order_of_def new_order_def message_ok_def to_int32_id to_int64_id)

lemma orders_from_ok:
  "list_all message_ok ms \<Longrightarrow> list_all (\<lambda>x. t0 x \<le> t1 x \<and> t1 x < 2 ^ 63) (orders_from io s r ms) \<Longrightarrow>
     list_all order_ok (orders_from io s r ms) \<and> map OrderId (orders_from io s r ms) = map order_id ms \<and>
     sorted_wrt (\<lambda>x y. seqNo x < seqNo y) (orders_from io s r ms) \<and>
     (\<forall>x \<in> set (orders_from io s r ms). s < seqNo x)"
proof (induction ms arbitrary: s r)
  case (Cons m ms)
  have m: "message_ok m" "list_all message_ok ms" using Cons.prems(1) by simp_all
  have p: "timestamp_ns m \<le> gateway_clock io r" "gateway_clock io r < 2 ^ 63"
    "list_all (\<lambda>x. t0 x \<le> t1 x \<and> t1 x < 2 ^ 63) (orders_from io (s + 1) (Suc r) ms)"
    using Cons.prems(2) by (simp_all add: order_of_ok [OF m(1)])
  have "order_ok (fst (order_of m (gateway_clock io r) s))"
    using m(1) p(1,2) by (simp add: order_of_ok [OF m(1)]) (simp add: order_ok_def message_ok_def)
  with Cons.IH [OF m(2) p(3)] show ?case by (auto simp: order_of_ok [OF m(1)])
qed simp

section \<open>Traders\<close>

text \<open>Bots the fleet numbers from one, within their range of identifiers, asking for sane orders.\<close>

definition trader_ok :: "client \<Rightarrow> bool" where
  "trader_ok c \<longleftrightarrow> 0 < c_id c \<and> c_id c \<le> 2000 \<and> length (c_calls c) \<le> 1000000 \<and>
     list_all (\<lambda>k. 0 < call_qty k \<and> call_qty k < 2 ^ 31 \<and> is_finite (call_price k) \<and>
       flt (Fin 0) (call_price k) \<and> float_ok (call_price k) \<and>
       0 < at_ns (call_env k) \<and> at_ns (call_env k) < 2 ^ 63) (c_calls c)"

definition fleet_ok :: "(int \<Rightarrow> client option) \<Rightarrow> bool" where
  "fleet_ok clients \<longleftrightarrow> (\<forall>fd c. clients fd = Some c \<longrightarrow> trader_ok c) \<and>
     (\<forall>fd fd' c c'. clients fd = Some c \<longrightarrow> clients fd' = Some c' \<longrightarrow> fd \<noteq> fd' \<longrightarrow> c_id c \<noteq> c_id c')"

lemma sent_by_ids: "map (\<lambda>x. order_id (snd x)) (sent_by k cs) = map (\<lambda>i. k + 1 + int i) [0..<length cs]"
proof (induction cs arbitrary: k)
  case (Cons c cs)
  have "[0..<length (c # cs)] = 0 # map Suc [0..<length cs]" by (simp add: upt_conv_Cons map_Suc_upt del: upt_Suc)
  with Cons show ?case by (simp add: call_message_def comp_def algebra_simps del: upt_Suc)
qed simp

lemma client_ids: "map order_id (client_sent c) = map (\<lambda>i. c_id c * 1000000 + 1 + int i) [0..<length (c_calls c)]"
  using sent_by_ids [of "c_id c * 1000000" "c_calls c"] by (simp add: client_sent_def comp_def)

lemma client_id_range:
  assumes "trader_ok c" "m \<in> set (client_sent c)"
  shows "c_id c * 1000000 < order_id m \<and> order_id m \<le> c_id c * 1000000 + 1000000"
proof -
  have "order_id m \<in> set (map order_id (client_sent c))" using assms(2) by simp
  then obtain i where "i < length (c_calls c)" "order_id m = c_id c * 1000000 + 1 + int i"
    unfolding client_ids by auto
  with assms(1) show ?thesis by (auto simp: trader_ok_def)
qed

lemma client_sent_ok:
  assumes "trader_ok c" "m \<in> set (client_sent c)"
  shows "message_ok m"
proof -
  have call: "\<exists>k \<in> set cs. \<exists>j. m = call_message j k" if "(a, m) \<in> set (sent_by n cs)" for a n cs
    using that by (induction cs arbitrary: n) auto
  obtain a where "(a, m) \<in> set (sent_by (c_id c * 1000000) (c_calls c))"
    using assms(2) by (auto simp: client_sent_def)
  from call [OF this] obtain k j where k: "k \<in> set (c_calls c)" "m = call_message j k" by blast
  with assms(1) client_id_range [OF assms] show ?thesis
    by (auto simp: trader_ok_def message_ok_def call_message_def list_all_iff)
qed

lemma distinct_owned:
  assumes "\<And>fd. distinct (map f (owned fd logged))"
    and "\<And>fd fd' x y. x \<in> set (owned fd logged) \<Longrightarrow> y \<in> set (owned fd' logged) \<Longrightarrow> fd \<noteq> fd' \<Longrightarrow> f x \<noteq> f y"
  shows "distinct (map (\<lambda>z. f (snd z)) logged)"
  using assms
proof (induction logged)
  case (Cons z logged)
  obtain k x where z: "z = (k, x)" by (cases z)
  have "distinct (map f (owned fd logged))" for fd using Cons.prems(1) [of fd] z by (auto split: if_splits)
  moreover have "f x \<noteq> f y" if "x \<in> set (owned fd logged)" "y \<in> set (owned fd' logged)" "fd \<noteq> fd'" for fd fd' x y
    using Cons.prems(2) [of x fd y fd'] that z by auto
  ultimately have "distinct (map (\<lambda>z. f (snd z)) logged)" by (rule Cons.IH)
  moreover have "f x \<noteq> f y" if "(j, y) \<in> set logged" for j y
  proof -
    have y: "y \<in> set (owned j logged)" using that by (force simp: owned_def)
    show ?thesis
    proof (cases "j = k")
      case True
      with Cons.prems(1) [of k] z y show ?thesis by force
    next
      case False
      with Cons.prems(2) [of x k y j] z y show ?thesis by simp
    qed
  qed
  then have "f x \<notin> (\<lambda>z. f (snd z)) ` set logged" by force
  ultimately show ?case by (simp add: z)
qed simp

lemma fleet_orders_ok:
  assumes "fleet_ok clients" "interleaves clients logged"
    and "list_all (\<lambda>x. t0 x \<le> t1 x \<and> t1 x < 2 ^ 63) (orders_from io s r (map snd logged))"
  shows "orders_ok (orders_from io s r (map snd logged))"
proof -
  have own: "\<exists>c. clients fd = Some c \<and> trader_ok c \<and> prefix (owned fd logged) (client_sent c)"
    if "owned fd logged \<noteq> []" for fd
    using assms(1,2) that by (fastforce simp: fleet_ok_def interleaves_def dest: spec [of _ fd] split: option.splits)
  have mem: "\<exists>c. clients fd = Some c \<and> trader_ok c \<and> x \<in> set (client_sent c)" if "x \<in> set (owned fd logged)" for fd x
  proof -
    have "owned fd logged \<noteq> []" using that by auto
    from own [OF this] that show ?thesis by (auto dest: set_mono_prefix)
  qed
  have "distinct (map order_id (owned fd logged))" for fd
  proof (cases "owned fd logged = []")
    case False
    then obtain c where "prefix (owned fd logged) (client_sent c)" using own by blast
    then have "prefix (map order_id (owned fd logged)) (map order_id (client_sent c))" by (rule map_mono_prefix)
    moreover have "distinct (map order_id (client_sent c))"
      unfolding client_ids by (simp add: distinct_map inj_on_def)
    ultimately show ?thesis by (auto simp: prefix_def)
  qed simp
  moreover have "order_id x \<noteq> order_id y"
    if "x \<in> set (owned fd logged)" "y \<in> set (owned fd' logged)" "fd \<noteq> fd'" for fd fd' x y
  proof -
    from mem [OF that(1)] mem [OF that(2)] obtain c c' where c: "clients fd = Some c" "trader_ok c"
      "x \<in> set (client_sent c)" "clients fd' = Some c'" "trader_ok c'" "y \<in> set (client_sent c')" by blast
    with assms(1) that(3) have "c_id c \<noteq> c_id c'" by (auto simp: fleet_ok_def)
    with client_id_range [OF c(2,3)] client_id_range [OF c(5,6)] show ?thesis by (cases "c_id c < c_id c'") auto
  qed
  ultimately have "distinct (map (\<lambda>z. order_id (snd z)) logged)" by (rule distinct_owned)
  moreover have "list_all message_ok (map snd logged)"
  proof -
    have "message_ok x" if "(fd, x) \<in> set logged" for fd x
    proof -
      have "x \<in> set (owned fd logged)" using that by (force simp: owned_def)
      from mem [OF this] client_sent_ok show ?thesis by blast
    qed
    then show ?thesis by (auto simp: list_all_iff)
  qed
  from orders_from_ok [OF this assms(3)]
  have "list_all order_ok (orders_from io s r (map snd logged))"
    "map OrderId (orders_from io s r (map snd logged)) = map order_id (map snd logged)"
    "sorted_wrt (\<lambda>x y. seqNo x < seqNo y) (orders_from io s r (map snd logged))" by blast+
  ultimately show ?thesis by (simp add: orders_ok_def ids_def comp_def)
qed


section \<open>Two bots that trade\<close>

definition sample_call :: "char \<Rightarrow> int \<Rightarrow> int \<Rightarrow> order_call" where
  "sample_call sd q p =
     \<lparr>call_env = \<lparr>at_ns = 50, attempts = [], write_ok = True, frame_mask = [1, 2, 3, 4]\<rparr>, call_side = sd,
      call_qty = q, call_price = Fin (of_int p)\<rparr>"

definition sample_client :: "int \<Rightarrow> char \<Rightarrow> client" where
  "sample_client i sd =
     \<lparr>c_id = i, c_host = ''engine'', c_port = 8080, c_rand = replicate 16 (word_of_int i),
      c_calls = [sample_call sd 10 100, sample_call sd 5 101]\<rparr>"

definition sample_clients :: "int \<Rightarrow> client option" where
  "sample_clients = [5 \<mapsto> sample_client 1 CHR ''B'', 6 \<mapsto> sample_client 2 CHR ''S'']"

text \<open>The first bot's bytes arrive in two pieces, the second's between them.\<close>

definition sample_reads :: "(int \<times> bytes) list" where
  "sample_reads =
     (let w = wire (client_bot (sample_client 1 CHR ''B''))
      in [(5, take 100 w), (6, wire (client_bot (sample_client 2 CHR ''S''))), (5, drop 100 w)])"

definition sample_gateway_io :: gateway_io where
  "sample_gateway_io = \<lparr>gateway_clock = (\<lambda>n. 100 + int (min n 50)), enqueues = (\<lambda>_ _. True)\<rparr>"

lemma sample_clients_ok: "fleet_ok sample_clients" "client_ok (sample_client i sd) \<longleftrightarrow> 0 \<le> i \<and> i * 1000000 + 2 < 2 ^ 64"
  using float_ok_of_int [of 100] float_ok_of_int [of 101]
  by (auto simp: fleet_ok_def sample_clients_def trader_ok_def sample_client_def sample_call_def client_ok_def
      call_ok_def split: if_splits)

lemma sample_arriving: "arriving sample_clients sample_reads"
proof -
  have "bytes_from fd sample_reads =
      (if fd = 5 then wire (client_bot (sample_client 1 CHR ''B''))
       else if fd = 6 then wire (client_bot (sample_client 2 CHR ''S'')) else [])" for fd
    by (simp add: sample_reads_def bytes_from_def Let_def)
  then show ?thesis by (auto simp: arriving_def sample_clients_def sample_clients_ok(2))
qed

lemma late_engine: "\<forall>x \<in> set os. \<forall>k. t1 x \<le> system_clock io k \<Longrightarrow> arrives io e os"
  by (induction os arbitrary: e) auto

lemma sample_punctual:
  assumes "x \<in> set (incoming (orders_in (foldl (handle_read sample_gateway_io) new_gateway sample_reads)))"
  shows "t0 x = 50 \<and> 100 \<le> t1 x \<and> t1 x \<le> 150"
proof -
  from arriving_orders [OF sample_arriving, of sample_gateway_io] obtain logged where l:
    "orders_in (foldl (handle_read sample_gateway_io) new_gateway sample_reads) =
       foldl (take_message sample_gateway_io) (orders_in new_gateway) (map snd logged)"
    "interleaves sample_clients logged" by blast
  have "timestamp_ns m = 50" if "(fd, m) \<in> set logged" for fd m
  proof -
    have "m \<in> set (owned fd logged)" using that by (force simp: owned_def)
    with l(2) obtain c where "sample_clients fd = Some c" "m \<in> set (client_sent c)"
      by (fastforce simp: interleaves_def dest: spec [of _ fd] set_mono_prefix split: option.splits)
    then show ?thesis
      by (auto simp: sample_clients_def client_sent_def sample_client_def sample_call_def call_message_def split: if_splits)
  qed
  then have m: "\<forall>m \<in> set (map snd logged). timestamp_ns m = 50" by auto
  have times: "t0 y = 50 \<and> 100 \<le> t1 y \<and> t1 y \<le> 150"
    if "\<forall>m \<in> set ms. timestamp_ns m = 50" "y \<in> set (orders_from sample_gateway_io s r ms)" for ms y s r
    using that
    by (induction ms arbitrary: s r)
      (auto simp: order_of_def new_order_def to_int64_def sample_gateway_io_def)
  have "enqueues sample_gateway_io = (\<lambda>_ _. True)" by (simp add: sample_gateway_io_def)
  from taken_orders [OF this, of "orders_in new_gateway" "map snd logged"] assms
  have "x \<in> set (orders_from sample_gateway_io 0 0 (map snd logged))"
    unfolding l(1) by (simp add: new_gateway_def)
  from times [OF m this] show ?thesis .
qed


end
