(* ===== verification/Queues.thy ===== *)
theory Queues
  imports Prelude "HOL-Library.Word" "HOL-Library.Sublist"
begin

text \<open>
  The ring buffer between the matching thread and the Kafka thread, \<^verbatim>\<open>matching-engine/SPSCQueue.h\<close>:
  construction, \<open>tryPush\<close>, \<open>tryPop\<close> and \<open>approxSize\<close> on 64-bit counters that wrap around, first as
  operations that run alone, then as a step relation in which the accesses of the two threads interleave.
  The locale \<open>bounded_fifo\<close> is the interface of a queue of limited size.
\<close>

unbundle bit_operations_syntax

section \<open>Ring arithmetic\<close>

lemma pow2_nat: "0 < n \<Longrightarrow> n AND (n - 1) = 0 \<Longrightarrow> \<exists>k. n = 2 ^ k" for n :: nat
proof (induction n rule: less_induct)
  case (less n)
  show ?case
  proof (cases "even n")
    case True
    then obtain m where m: "n = 2 * m" by blast
    with less.prems have pos: "0 < m" by simp
    then have "n div 2 = m" "(n - 1) div 2 = m - 1" using m by simp_all
    then have "n AND (n - 1) = 2 * (m AND (m - 1))" using True by (simp add: and_nat_rec [of n])
    then have "m AND (m - 1) = 0" using less.prems(2) by simp
    from less.IH [OF _ pos this] m pos obtain k where "m = 2 ^ k" by auto
    with m show ?thesis by (intro exI [of _ "Suc k"]) simp
  next
    case False
    then obtain m where m: "n = 2 * m + 1" by (metis oddE)
    then have "n div 2 = m" "(n - 1) div 2 = m" "even (n - 1)" by simp_all
    then have "n AND (n - 1) = 2 * (m AND m)" by (simp add: and_nat_rec [of n])
    with less.prems m have "n = 2 ^ 0" by simp
    then show ?thesis by blast
  qed
qed

lemma slot_of_nat: "k \<le> 64 \<Longrightarrow> unat ((word_of_nat n :: 64 word) AND mask k) = n mod 2 ^ k"
proof -
  assume k: "k \<le> 64"
  have "unat ((word_of_nat n :: 64 word) AND mask k) = take_bit (min k 64) n"
    by (simp only: take_bit_eq_mask [symmetric] unsigned_take_bit_eq unsigned_of_nat take_bit_take_bit) simp
  then show ?thesis using k by (simp add: take_bit_eq_mod)
qed

lemma word_of_unat: "word_of_nat (unat w) = (w :: 64 word)"
  by simp

lemma slots_differ:
  assumes "i < j" "j < i + n"
  shows "i mod n \<noteq> j mod (n :: nat)"
proof
  assume "i mod n = j mod n"
  then have "n dvd j - i" using assms(1) by (metis mod_eq_dvd_iff_nat less_imp_le)
  with assms show False by (auto dest: dvd_imp_le)
qed

section \<open>The interface\<close>

locale bounded_fifo =
  fixes contents :: "'q \<Rightarrow> 'a list"
    and ok :: "'q \<Rightarrow> bool"
    and push :: "'a \<Rightarrow> 'q \<Rightarrow> bool \<times> 'q"
    and pop :: "'q \<Rightarrow> 'a option \<times> 'q"
    and room :: nat
  assumes push_full: "ok q \<Longrightarrow> length (contents q) = room \<Longrightarrow> push v q = (False, q)"
    and push_room: "ok q \<Longrightarrow> length (contents q) < room \<Longrightarrow>
      \<exists>q'. push v q = (True, q') \<and> ok q' \<and> contents q' = contents q @ [v]"
    and pop_empty: "ok q \<Longrightarrow> contents q = [] \<Longrightarrow> pop q = (None, q)"
    and pop_first: "ok q \<Longrightarrow> contents q = x # xs \<Longrightarrow> \<exists>q'. pop q = (Some x, q') \<and> ok q' \<and> contents q' = xs"
    and within: "ok q \<Longrightarrow> length (contents q) \<le> room"
begin

text \<open>A history of pushes (\<open>Some\<close>) and pops; what it took in and gave out.\<close>

fun run :: "'a option list \<Rightarrow> 'q \<Rightarrow> 'a list \<times> 'a list \<times> 'q" where
  "run [] q = ([], [], q)"
| "run (Some v # ops) q =
     (let (b, q) = push v q; (ins, outs, q) = run ops q in (if b then v # ins else ins, outs, q))"
| "run (None # ops) q =
     (let (r, q) = pop q; (ins, outs, q) = run ops q
      in (ins, case r of None \<Rightarrow> outs | Some v \<Rightarrow> v # outs, q))"

lemma push_keeps:
  "ok q \<Longrightarrow> push v q = (b, q') \<Longrightarrow>
     ok q' \<and> contents q' = (if b then contents q @ [v] else contents q) \<and> (b \<longleftrightarrow> length (contents q) < room)"
  using push_full [of q v] push_room [of q v] within [of q] by (cases "length (contents q) = room") auto

lemma pop_keeps:
  "ok q \<Longrightarrow> pop q = (r, q') \<Longrightarrow>
     ok q' \<and> (case r of None \<Rightarrow> contents q = [] \<and> q' = q | Some v \<Rightarrow> contents q = v # contents q')"
  using pop_empty [of q] pop_first [of q] by (cases "contents q") fastforce+

lemma run_fifo:
  "ok q \<Longrightarrow> run ops q = (ins, outs, q') \<Longrightarrow> ok q' \<and> contents q @ ins = outs @ contents q'"
proof (induction ops q arbitrary: ins outs rule: run.induct)
  case (2 v ops q)
  obtain b q1 where p: "push v q = (b, q1)" by (cases "push v q")
  obtain ins1 outs1 q2 where r: "run ops q1 = (ins1, outs1, q2)" by (cases "run ops q1")
  from push_keeps [OF 2(2) p] 2(1) [OF p [symmetric] refl, of ins1 outs1] 2(3) p r show ?case
    by (auto split: if_splits)
next
  case (3 ops q)
  obtain x q1 where p: "pop q = (x, q1)" by (cases "pop q")
  obtain ins1 outs1 q2 where r: "run ops q1 = (ins1, outs1, q2)" by (cases "run ops q1")
  from pop_keeps [OF 3(2) p] 3(1) [OF p [symmetric] refl, of ins1 outs1] 3(3) p r show ?case
    by (auto split: option.splits)
qed simp

end

section \<open>The queue of one producer and one consumer\<close>

record 'a spsc =
  capacity :: "64 word"
  q_mask :: "64 word"
  q_buffer :: "'a list"
  q_head :: "64 word"
  q_tail :: "64 word"

text \<open>The constructor throws \<open>invalid_argument\<close> (None); \<open>d\<close> is what the new buffer holds.\<close>

definition new_spsc :: "'a \<Rightarrow> 64 word \<Rightarrow> 'a spsc option" where
  "new_spsc d cap =
     (if cap < 2 \<or> cap AND (cap - 1) \<noteq> 0 then None
      else Some \<lparr>capacity = cap, q_mask = cap - 1, q_buffer = replicate (unat cap) d, q_head = 0, q_tail = 0\<rparr>)"

definition tryPush :: "'a \<Rightarrow> 'a spsc \<Rightarrow> bool \<times> 'a spsc" where
  "tryPush v q =
     (let head = q_head q; nxt = head + 1
      in if nxt - q_tail q > capacity q then (False, q)
         else (True, q\<lparr>q_buffer := (q_buffer q)[unat (head AND q_mask q) := v], q_head := nxt\<rparr>))"

definition tryPop :: "'a spsc \<Rightarrow> 'a option \<times> 'a spsc" where
  "tryPop q =
     (let tail = q_tail q
      in if tail = q_head q then (None, q)
         else (Some (q_buffer q ! unat (tail AND q_mask q)), q\<lparr>q_tail := tail + 1\<rparr>))"

definition approxSize :: "'a spsc \<Rightarrow> 64 word" where
  "approxSize q = q_head q - q_tail q"

text \<open>The items between the counters.\<close>

definition spsc_contents :: "'a spsc \<Rightarrow> 'a list" where
  "spsc_contents q =
     map (\<lambda>i. q_buffer q ! unat ((q_tail q + word_of_nat i) AND q_mask q)) [0..<unat (approxSize q)]"

text \<open>The counters are the low 64 bits of \<open>t\<close> pops and \<open>t + length items\<close> pushes.\<close>

definition holds :: "nat \<Rightarrow> nat \<Rightarrow> 'a list \<Rightarrow> 'a spsc \<Rightarrow> bool" where
  "holds k t items q \<longleftrightarrow> 1 \<le> k \<and> k \<le> 63 \<and> capacity q = word_of_nat (2 ^ k) \<and> q_mask q = mask k \<and>
     length (q_buffer q) = 2 ^ k \<and> q_tail q = word_of_nat t \<and> q_head q = word_of_nat (t + length items) \<and>
     length items \<le> 2 ^ k \<and> (\<forall>i < length items. q_buffer q ! ((t + i) mod 2 ^ k) = items ! i)"

lemma small_diff: "n < 2 ^ 64 \<Longrightarrow> unat (word_of_nat (t + n) - word_of_nat t :: 64 word) = n"
  by (simp add: unsigned_of_nat take_bit_nat_eq_self)

lemma holds_bound: "holds k t items q \<Longrightarrow> 2 ^ k \<le> (2 ^ 63 :: nat) \<and> length items \<le> 2 ^ 63"
proof -
  assume h: "holds k t items q"
  then have "(2 :: nat) ^ k \<le> 2 ^ 63" by (intro power_increasing) (auto simp: holds_def)
  with h show ?thesis by (auto simp: holds_def)
qed

lemma holds_size: "holds k t items q \<Longrightarrow> unat (approxSize q) = length items"
  using holds_bound [of k t items q] small_diff [of "length items" t] by (auto simp: approxSize_def holds_def)

lemma holds_contents:
  assumes "holds k t items q"
  shows "spsc_contents q = items"
proof (rule nth_equalityI)
  show "length (spsc_contents q) = length items" using holds_size [OF assms] by (simp add: spsc_contents_def)
next
  fix i assume "i < length (spsc_contents q)"
  then have i: "i < length items" using holds_size [OF assms] by (simp add: spsc_contents_def)
  have "unat ((word_of_nat t + word_of_nat i) AND mask k :: 64 word) = (t + i) mod 2 ^ k"
    using slot_of_nat [of k "t + i"] assms by (simp add: holds_def)
  with assms i holds_size [OF assms] show "spsc_contents q ! i = items ! i"
    by (simp add: spsc_contents_def holds_def)
qed

lemma full_test:
  assumes "holds k t items q"
  shows "q_head q + 1 - q_tail q > capacity q \<longleftrightarrow> length items = 2 ^ k"
proof -
  have b: "2 ^ k \<le> (2 ^ 63 :: nat)" "length items \<le> 2 ^ k" using holds_bound [OF assms] assms by (auto simp: holds_def)
  then have "Suc (length items) < 2 ^ 64" by simp
  then have "unat (q_head q + 1 - q_tail q) = Suc (length items)"
    using small_diff [of "Suc (length items)" t] assms by (simp add: holds_def add.commute add.left_commute)
  moreover have "unat (capacity q) = 2 ^ k"
    using b(1) assms by (simp add: holds_def unsigned_of_nat take_bit_nat_eq_self del: of_nat_power)
  ultimately show ?thesis using b(2) by (auto simp: word_less_nat_alt)
qed

lemma tryPush_holds:
  assumes "holds k t items q" "length items < 2 ^ k"
  shows "\<exists>q'. tryPush v q = (True, q') \<and> holds k t (items @ [v]) q'"
proof -
  have slot: "unat (q_head q AND q_mask q) = (t + length items) mod 2 ^ k"
    using slot_of_nat [of k "t + length items"] assms(1) by (simp add: holds_def)
  have "(q_buffer q)[(t + length items) mod 2 ^ k := v] ! ((t + i) mod 2 ^ k) = (items @ [v]) ! i"
    if "i < Suc (length items)" for i
  proof (cases "i = length items")
    case True
    then show ?thesis using assms(1) by (simp add: holds_def)
  next
    case False
    with that have i: "i < length items" by simp
    have "(t + i) mod 2 ^ k \<noteq> (t + length items) mod 2 ^ k"
      by (rule slots_differ) (use i assms(2) in auto)
    with i assms(1) show ?thesis by (simp add: holds_def nth_append)
  qed
  with assms full_test [OF assms(1)] show ?thesis
    by (simp add: tryPush_def slot Let_def) (simp add: holds_def add.commute add.left_commute)
qed

lemma tryPop_holds:
  assumes "holds k t (x # xs) q"
  shows "\<exists>q'. tryPop q = (Some x, q') \<and> holds k (Suc t) xs q'"
proof -
  have "unat (approxSize q) \<noteq> 0" using holds_size [OF assms] by simp
  then have ne: "q_tail q \<noteq> q_head q" by (auto simp: approxSize_def)
  have "unat (q_tail q AND q_mask q) = t mod 2 ^ k" using slot_of_nat [of k t] assms by (simp add: holds_def)
  moreover have "q_buffer q ! (t mod 2 ^ k) = x" using assms by (auto simp: holds_def dest: spec [of _ 0])
  moreover have "\<forall>i < length xs. q_buffer q ! ((Suc t + i) mod 2 ^ k) = xs ! i"
    using assms by (auto simp: holds_def dest: spec [of _ "Suc _"])
  ultimately show ?thesis using assms ne by (simp add: tryPop_def Let_def) (simp add: holds_def add.commute)
qed

definition spsc_ok :: "nat \<Rightarrow> 'a spsc \<Rightarrow> bool" where
  "spsc_ok k q \<longleftrightarrow> (\<exists>t. holds k t (spsc_contents q) q)"

lemma spsc_okI: "holds k t items q \<Longrightarrow> spsc_ok k q \<and> spsc_contents q = items"
  using holds_contents by (auto simp: spsc_ok_def)

interpretation spsc: bounded_fifo spsc_contents "spsc_ok k" tryPush tryPop "2 ^ k" for k
proof
  fix q :: "'a spsc" and v
  assume "spsc_ok k q"
  then obtain t where h: "holds k t (spsc_contents q) q" by (auto simp: spsc_ok_def)
  show "length (spsc_contents q) \<le> 2 ^ k" using h by (simp add: holds_def)
  show "tryPush v q = (False, q)" if "length (spsc_contents q) = 2 ^ k"
    using full_test [OF h] that by (simp add: tryPush_def Let_def)
  show "\<exists>q'. tryPush v q = (True, q') \<and> spsc_ok k q' \<and> spsc_contents q' = spsc_contents q @ [v]"
    if "length (spsc_contents q) < 2 ^ k"
    using tryPush_holds [OF h that, of v] spsc_okI by blast
  show "tryPop q = (None, q)" if "spsc_contents q = []"
    using h that by (simp add: holds_def tryPop_def)
  show "\<exists>q'. tryPop q = (Some x, q') \<and> spsc_ok k q' \<and> spsc_contents q' = xs" if "spsc_contents q = x # xs" for x xs
    using tryPop_holds [OF h [unfolded that]] spsc_okI by blast
qed

text \<open>Exactly the powers of two are accepted, and give an empty queue.\<close>

lemma new_spsc_ok: "new_spsc d cap = Some q \<Longrightarrow> \<exists>k. unat cap = 2 ^ k \<and> holds k 0 [] q"
proof -
  assume n: "new_spsc d cap = Some q"
  then have c: "2 \<le> cap" "cap AND (cap - 1) = 0"
    and q: "q = \<lparr>capacity = cap, q_mask = cap - 1, q_buffer = replicate (unat cap) d, q_head = 0, q_tail = 0\<rparr>"
    by (auto simp: new_spsc_def split: if_splits)
  have two: "2 \<le> unat cap" using c(1) by (simp add: word_le_nat_alt)
  then have "cap \<noteq> 0" by auto
  then have "unat (cap - 1) = unat cap - 1" by (rule unat_minus_one)
  then have "unat cap AND (unat cap - 1) = 0" using arg_cong [OF c(2), of unat] by (simp add: unsigned_and_eq)
  with two pow2_nat [of "unat cap"] obtain k where k: "unat cap = 2 ^ k" by auto
  have "(2 :: nat) ^ k < 2 ^ 64" using unsigned_less [of cap, where ?'a = nat] k by simp
  then have "k < 64" by (simp only: power_strict_increasing_iff)
  moreover have "1 \<le> k" using two k by (cases k) auto
  moreover have cap: "cap = word_of_nat (2 ^ k)" by (simp only: k [symmetric] word_of_unat)
  moreover have "cap - 1 = mask k" by (simp add: cap mask_eq_exp_minus_1)
  ultimately show ?thesis using k by (intro exI [of _ k]) (simp add: holds_def q)
qed

end
