(* ===== verification/QueueThreads.thy ===== *)
theory QueueThreads
  imports Queues
begin

text \<open>
  The two threads on the ring buffer of \<^verbatim>\<open>SPSCQueue.h\<close>. Each atomic access is a step; the matching
  thread pushes, the Kafka thread pops, and their steps interleave in any order. A thread knows its own
  counter and may read the other's late: an acquire load yields any value between the one read before and
  the current one, and what was written to the buffer before a counter was released is seen by whoever
  acquired that value.
\<close>

section \<open>Steps\<close>

datatype 'a producer_pc = PIdle | PTry 'a | PRoom 'a | PStored 'a

datatype 'a consumer_pc = CIdle | CReady | CTaken 'a

record 'a threads =
  ring :: "'a spsc"
  producer :: "'a producer_pc"
  consumer :: "'a consumer_pc"
  tail_seen :: "64 word"
  head_seen :: "64 word"
  pushed :: "'a list"
  popped :: "'a list"

definition threads_on :: "'a spsc \<Rightarrow> 'a threads" where
  "threads_on q = \<lparr>ring = q, producer = PIdle, consumer = CIdle, tail_seen = 0, head_seen = 0, pushed = [], popped = []\<rparr>"

definition late :: "64 word \<Rightarrow> 64 word \<Rightarrow> 64 word \<Rightarrow> bool" where
  "late seen now w \<longleftrightarrow> w - seen \<le> now - seen"

inductive spsc_step :: "'a threads \<Rightarrow> 'a threads \<Rightarrow> bool" where
  push_call: "producer s = PIdle \<Longrightarrow> spsc_step s (s\<lparr>producer := PTry v\<rparr>)"
| push_full: "producer s = PTry v \<Longrightarrow> late (tail_seen s) (q_tail (ring s)) w \<Longrightarrow>
    q_head (ring s) + 1 - w > capacity (ring s) \<Longrightarrow> spsc_step s (s\<lparr>producer := PIdle, tail_seen := w\<rparr>)"
| push_room: "producer s = PTry v \<Longrightarrow> late (tail_seen s) (q_tail (ring s)) w \<Longrightarrow>
    \<not> q_head (ring s) + 1 - w > capacity (ring s) \<Longrightarrow> spsc_step s (s\<lparr>producer := PRoom v, tail_seen := w\<rparr>)"
| push_write: "producer s = PRoom v \<Longrightarrow>
    spsc_step s (s\<lparr>producer := PStored v, ring := (ring s)\<lparr>q_buffer :=
      (q_buffer (ring s))[unat (q_head (ring s) AND q_mask (ring s)) := v]\<rparr>\<rparr>)"
| push_release: "producer s = PStored v \<Longrightarrow>
    spsc_step s (s\<lparr>producer := PIdle, ring := (ring s)\<lparr>q_head := q_head (ring s) + 1\<rparr>, pushed := pushed s @ [v]\<rparr>)"
| pop_empty: "consumer s = CIdle \<Longrightarrow> late (head_seen s) (q_head (ring s)) w \<Longrightarrow> q_tail (ring s) = w \<Longrightarrow>
    spsc_step s (s\<lparr>head_seen := w\<rparr>)"
| pop_ready: "consumer s = CIdle \<Longrightarrow> late (head_seen s) (q_head (ring s)) w \<Longrightarrow> q_tail (ring s) \<noteq> w \<Longrightarrow>
    spsc_step s (s\<lparr>consumer := CReady, head_seen := w\<rparr>)"
| pop_read: "consumer s = CReady \<Longrightarrow>
    spsc_step s (s\<lparr>consumer := CTaken (q_buffer (ring s) ! unat (q_tail (ring s) AND q_mask (ring s)))\<rparr>)"
| pop_release: "consumer s = CTaken v \<Longrightarrow>
    spsc_step s (s\<lparr>consumer := CIdle, ring := (ring s)\<lparr>q_tail := q_tail (ring s) + 1\<rparr>, popped := popped s @ [v]\<rparr>)"

inductive reachable_threads :: "'a \<Rightarrow> 64 word \<Rightarrow> 'a threads \<Rightarrow> bool" for d cap where
  created: "new_spsc d cap = Some q \<Longrightarrow> reachable_threads d cap (threads_on q)"
| stepped: "reachable_threads d cap s \<Longrightarrow> spsc_step s s' \<Longrightarrow> reachable_threads d cap s'"

section \<open>The invariant\<close>

text \<open>\<open>a\<close> and \<open>b\<close>: how many pops the producer and how many pushes the consumer have seen.\<close>

definition producer_ok :: "nat \<Rightarrow> nat \<Rightarrow> 'a threads \<Rightarrow> bool" where
  "producer_ok k a s \<longleftrightarrow>
     (case producer s of
        PIdle \<Rightarrow> True
      | PTry v \<Rightarrow> True
      | PRoom v \<Rightarrow> length (pushed s) < a + 2 ^ k
      | PStored v \<Rightarrow> length (pushed s) < a + 2 ^ k \<and> q_buffer (ring s) ! (length (pushed s) mod 2 ^ k) = v)"

definition consumer_ok :: "nat \<Rightarrow> 'a list \<Rightarrow> 'a threads \<Rightarrow> bool" where
  "consumer_ok b items s \<longleftrightarrow>
     (case consumer s of
        CIdle \<Rightarrow> True
      | CReady \<Rightarrow> length (popped s) < b
      | CTaken v \<Rightarrow> length (popped s) < b \<and> items \<noteq> [] \<and> hd items = v)"

definition threads_ok :: "nat \<Rightarrow> nat \<Rightarrow> nat \<Rightarrow> 'a list \<Rightarrow> 'a threads \<Rightarrow> bool" where
  "threads_ok k a b items s \<longleftrightarrow>
     holds k (length (popped s)) items (ring s) \<and> pushed s = popped s @ items \<and>
     tail_seen s = word_of_nat a \<and> a \<le> length (popped s) \<and> length (pushed s) \<le> a + 2 ^ k \<and>
     head_seen s = word_of_nat b \<and> length (popped s) \<le> b \<and> b \<le> length (pushed s) \<and>
     producer_ok k a s \<and> consumer_ok b items s"

lemmas pcs_ok = threads_ok_def producer_ok_def consumer_ok_def

lemma late_nat:
  assumes "late (word_of_nat a) (word_of_nat n) w" "a \<le> n" "n - a < 2 ^ 64"
  shows "\<exists>j. a \<le> j \<and> j \<le> n \<and> w = word_of_nat j"
proof -
  have "unat (word_of_nat n - word_of_nat a :: 64 word) = n - a"
    using small_diff [of "n - a" a] assms(2,3) by simp
  then have "unat (w - word_of_nat a) \<le> n - a" using assms(1) by (simp add: late_def word_le_nat_alt)
  moreover have "w = word_of_nat (a + unat (w - word_of_nat a))"
    by (simp only: of_nat_add word_of_unat) simp
  ultimately show ?thesis using assms(2) by (intro exI [of _ "a + unat (w - word_of_nat a)"]) simp
qed

lemma room_test:
  assumes "holds k t items q" "a \<le> t" "t + length items \<le> a + 2 ^ k"
  shows "q_head q + 1 - word_of_nat a > capacity q \<longleftrightarrow> t + length items = a + 2 ^ k"
proof -
  let ?n = "t + length items - a"
  have b: "2 ^ k \<le> (2 ^ 63 :: nat)" using holds_bound [OF assms(1)] by simp
  then have "Suc ?n < 2 ^ 64" using assms(3) by simp
  then have "unat (word_of_nat (a + Suc ?n) - word_of_nat a :: 64 word) = Suc ?n" by (rule small_diff)
  moreover have "q_head q + 1 = word_of_nat (a + Suc ?n)" using assms(1,2) by (simp add: holds_def)
  ultimately have "unat (q_head q + 1 - word_of_nat a) = Suc ?n" by (simp only:)
  moreover have "unat (capacity q) = 2 ^ k"
    using b assms(1) by (simp add: holds_def unsigned_of_nat take_bit_nat_eq_self del: of_nat_power)
  ultimately show ?thesis using assms(2,3) by (auto simp: word_less_nat_alt)
qed

lemma holds_write:
  assumes "holds k t items q" "length items < 2 ^ k"
  shows "holds k t items (q\<lparr>q_buffer := (q_buffer q)[unat (q_head q AND q_mask q) := v]\<rparr>)"
    "(q_buffer q)[unat (q_head q AND q_mask q) := v] ! ((t + length items) mod 2 ^ k) = v"
proof -
  have slot: "unat (q_head q AND q_mask q) = (t + length items) mod 2 ^ k"
    using slot_of_nat [of k "t + length items"] assms(1) by (simp add: holds_def)
  have "(t + length items) mod 2 ^ k \<noteq> (t + i) mod 2 ^ k" if "i < length items" for i
    by (rule slots_differ [THEN not_sym]) (use that assms(2) in auto)
  with assms show "holds k t items (q\<lparr>q_buffer := (q_buffer q)[unat (q_head q AND q_mask q) := v]\<rparr>)"
    unfolding slot by (auto simp: holds_def)
  show "(q_buffer q)[unat (q_head q AND q_mask q) := v] ! ((t + length items) mod 2 ^ k) = v"
    unfolding slot using assms(1) by (simp add: holds_def)
qed

lemma holds_release:
  assumes "holds k t items q" "length items < 2 ^ k" "q_buffer q ! ((t + length items) mod 2 ^ k) = v"
  shows "holds k t (items @ [v]) (q\<lparr>q_head := q_head q + 1\<rparr>)"
  using assms by (auto simp: holds_def nth_append less_Suc_eq add.commute)

lemma holds_take:
  assumes "holds k t (x # xs) q"
  shows "holds k (Suc t) xs (q\<lparr>q_tail := q_tail q + 1\<rparr>)" "q_buffer q ! unat (q_tail q AND q_mask q) = x"
proof -
  show "holds k (Suc t) xs (q\<lparr>q_tail := q_tail q + 1\<rparr>)"
    using assms by (auto simp: holds_def add.commute dest: spec [of _ "Suc _"])
  have "unat (q_tail q AND q_mask q) = t mod 2 ^ k" using slot_of_nat [of k t] assms by (simp add: holds_def)
  with assms show "q_buffer q ! unat (q_tail q AND q_mask q) = x" by (auto simp: holds_def dest: spec [of _ 0])
qed

lemma threads_step:
  assumes "spsc_step s s'" "threads_ok k a b items s"
  shows "\<exists>a b items. threads_ok k a b items s'"
proof -
  let ?t = "length (popped s)" and ?h = "length (pushed s)"
  note ok = assms(2) [unfolded threads_ok_def]
  have h: "holds k ?t items (ring s)" and ht: "?h = ?t + length items"
    and seen: "a \<le> ?t" "?h \<le> a + 2 ^ k" "?t \<le> b" "b \<le> ?h"
    and pc: "producer_ok k a s" using ok by auto
  have big: "2 ^ k \<le> (2 ^ 63 :: nat)" using holds_bound [OF h] by simp
  have tail: "\<exists>j. a \<le> j \<and> j \<le> ?t \<and> w = word_of_nat j" if "late (tail_seen s) (q_tail (ring s)) w" for w
  proof (rule late_nat)
    show "late (word_of_nat a) (word_of_nat ?t) w" using that ok by (simp add: holds_def)
    show "?t - a < 2 ^ 64" using seen ht big by simp
  qed (use seen in simp)
  have head: "\<exists>j. b \<le> j \<and> j \<le> ?h \<and> w = word_of_nat j" if "late (head_seen s) (q_head (ring s)) w" for w
  proof (rule late_nat)
    show "late (word_of_nat b) (word_of_nat ?h) w" using that ok by (simp add: holds_def)
    show "?h - b < 2 ^ 64" using seen ht big by simp
  qed (use seen in simp)
  show ?thesis
    using assms(1)
  proof cases
    case (push_call v)
    have "threads_ok k a b items s'" using push_call ok by (auto simp: pcs_ok split: consumer_pc.split)
    then show ?thesis by blast
  next
    case (push_full v w)
    obtain j where "a \<le> j" "j \<le> ?t" "w = word_of_nat j" using tail push_full by blast
    then have "threads_ok k j b items s'" using push_full ok by (auto simp: pcs_ok split: consumer_pc.split)
    then show ?thesis by blast
  next
    case (push_room v w)
    obtain j where j: "a \<le> j" "j \<le> ?t" "w = word_of_nat j" using tail push_room by blast
    have l: "?t + length items \<le> j + 2 ^ k" using seen ht j(1) by simp
    from room_test [OF h j(2) l] push_room(4) j(3) l have "?h < j + 2 ^ k" using ht by auto
    then have "threads_ok k j b items s'" using push_room j ok by (auto simp: pcs_ok split: consumer_pc.split)
    then show ?thesis by blast
  next
    case (push_write v)
    then have "?h < a + 2 ^ k" using pc by (simp add: producer_ok_def)
    then have l: "length items < 2 ^ k" using seen ht by simp
    let ?q = "(ring s)\<lparr>q_buffer := (q_buffer (ring s))[unat (q_head (ring s) AND q_mask (ring s)) := v]\<rparr>"
    have s': "s' = s\<lparr>producer := PStored v, ring := ?q\<rparr>" by (fact push_write(1))
    have p: "producer_ok k a s'"
      using holds_write(2) [OF h l, of v] \<open>?h < a + 2 ^ k\<close> ht by (simp add: producer_ok_def s')
    have c: "consumer_ok b items s'" using ok by (simp add: consumer_ok_def s' split: consumer_pc.splits)
    have "threads_ok k a b items s'"
      unfolding threads_ok_def using ok p c holds_write(1) [OF h l, of v] seen [unfolded ht] by (simp add: s')
    then show ?thesis by blast
  next
    case (push_release v)
    then have r: "?h < a + 2 ^ k" "q_buffer (ring s) ! ((?t + length items) mod 2 ^ k) = v"
      using pc ht by (simp_all add: producer_ok_def)
    then have l: "length items < 2 ^ k" using seen ht by simp
    let ?q = "(ring s)\<lparr>q_head := q_head (ring s) + 1\<rparr>"
    have s': "s' = s\<lparr>producer := PIdle, ring := ?q, pushed := pushed s @ [v]\<rparr>" by (fact push_release(1))
    have p: "producer_ok k a s'" by (simp add: producer_ok_def s')
    have c: "consumer_ok b (items @ [v]) s'" using ok by (auto simp: consumer_ok_def s' split: consumer_pc.splits)
    have "threads_ok k a b (items @ [v]) s'"
      unfolding threads_ok_def using ok p c holds_release [OF h l r(2)] seen [unfolded ht] r(1) [unfolded ht] by (simp add: s')
    then show ?thesis by blast
  next
    case (pop_empty w)
    obtain j where "b \<le> j" "j \<le> ?h" "w = word_of_nat j" using head pop_empty by blast
    then have "threads_ok k a j items s'" using pop_empty ok by (auto simp: pcs_ok split: producer_pc.split)
    then show ?thesis by blast
  next
    case (pop_ready w)
    obtain j where j: "b \<le> j" "j \<le> ?h" "w = word_of_nat j" using head pop_ready by blast
    have "?t \<noteq> j" using pop_ready(4) j(3) h by (auto simp: holds_def)
    then have "threads_ok k a j items s'" using pop_ready j ok seen by (auto simp: pcs_ok split: producer_pc.split)
    then show ?thesis by blast
  next
    case pop_read
    then have "?t < b" using ok by (simp add: consumer_ok_def)
    then obtain x xs where i: "items = x # xs" using seen(4) ht by (cases items) auto
    have "threads_ok k a b items s'"
      using holds_take(2) [OF h [unfolded i]] pop_read ok i \<open>?t < b\<close> by (auto simp: pcs_ok split: producer_pc.split)
    then show ?thesis by blast
  next
    case (pop_release v)
    then obtain xs where i: "items = v # xs" using ok by (cases items) (auto simp: consumer_ok_def)
    have "threads_ok k a b xs s'"
      using holds_take(1) [OF h [unfolded i]] pop_release ok i by (auto simp: pcs_ok split: producer_pc.split)
    then show ?thesis by blast
  qed
qed

lemma threads_created: "new_spsc d cap = Some q \<Longrightarrow> \<exists>k. unat cap = 2 ^ k \<and> threads_ok k 0 0 [] (threads_on q)"
  using new_spsc_ok [of d cap q] by (auto simp: threads_ok_def threads_on_def producer_ok_def consumer_ok_def)

lemma threads_reachable:
  "reachable_threads d cap s \<Longrightarrow> \<exists>k a b items. unat cap = 2 ^ k \<and> threads_ok k a b items s"
proof (induction rule: reachable_threads.induct)
  case (created q)
  from threads_created [OF this] obtain k where "unat cap = 2 ^ k" "threads_ok k 0 0 [] (threads_on q)" by blast
  then show ?case by (intro exI conjI)
next
  case (stepped s s')
  then obtain k a b items where "unat cap = 2 ^ k" "threads_ok k a b items s" by blast
  with threads_step [OF stepped(2)] show ?case by blast
qed

text \<open>
  C13. The queue between the matching thread and the Kafka thread is first in, first out, and free of
  races, in every interleaving of the two threads' accesses, however late each sees the other's counter,
  and when the 64-bit counters wrap around: what has been popped is a prefix of what has been pushed, at
  most \<open>capacity\<close> items lie between, and the producer never writes the slot the consumer is about to read.
\<close>

theorem spsc_threads_safe:
  assumes "reachable_threads d cap s"
  shows "prefix (popped s) (pushed s) \<and> length (pushed s) \<le> length (popped s) + unat cap \<and>
         (\<forall>v. producer s = PRoom v \<longrightarrow> consumer s = CReady \<longrightarrow>
            unat (q_head (ring s) AND q_mask (ring s)) \<noteq> unat (q_tail (ring s) AND q_mask (ring s)))"
proof -
  obtain k a b items where k: "unat cap = 2 ^ k" and ok: "threads_ok k a b items s"
    using threads_reachable [OF assms] by blast
  then have h: "holds k (length (popped s)) items (ring s)" and p: "pushed s = popped s @ items"
    by (simp_all add: threads_ok_def)
  have "unat (q_head (ring s) AND q_mask (ring s)) = (length (popped s) + length items) mod 2 ^ k"
    "unat (q_tail (ring s) AND q_mask (ring s)) = length (popped s) mod 2 ^ k"
    using slot_of_nat [of k "length (popped s) + length items"] slot_of_nat [of k "length (popped s)"] h
    by (simp_all add: holds_def)
  moreover have "(length (popped s) + length items) mod 2 ^ k \<noteq> length (popped s) mod 2 ^ k"
    if "producer s = PRoom v" "consumer s = CReady" for v
    by (rule slots_differ [THEN not_sym])
      (use ok p that in \<open>auto simp: threads_ok_def producer_ok_def consumer_ok_def\<close>)
  ultimately show ?thesis using p h k by (auto simp: holds_def)
qed

text \<open>A queue of two: one item in and out, a second written while the consumer looks again.\<close>

theorem spsc_threads_safe_witness:
  "\<exists>s. reachable_threads (0 :: int) 2 s \<and> popped s = [] \<and> pushed s = [7] \<and> prefix (popped s) (pushed s)"
proof -
  obtain q where q: "new_spsc (0 :: int) 2 = Some q" by (simp add: new_spsc_def)
  then have f: "q_head q = 0" "q_tail q = 0" "capacity q = 2" by (auto simp: new_spsc_def)
  note r0 = reachable_threads.created [OF q]
  have "spsc_step (threads_on q) ((threads_on q)\<lparr>producer := PTry 7\<rparr>)"
    by (rule spsc_step.push_call) (simp add: threads_on_def)
  note r1 = reachable_threads.stepped [OF r0 this]
  have "spsc_step ((threads_on q)\<lparr>producer := PTry 7\<rparr>) ((threads_on q)\<lparr>producer := PTry 7\<rparr>\<lparr>producer := PRoom 7, tail_seen := 0\<rparr>)"
    by (rule spsc_step.push_room) (simp_all add: threads_on_def late_def f)
  note r2 = reachable_threads.stepped [OF r1 this]
  note r3 = reachable_threads.stepped [OF r2 spsc_step.push_write [of _ 7]]
  note r4 = reachable_threads.stepped [OF r3 spsc_step.push_release [of _ 7]]
  from r4 spsc_threads_safe [OF r4] show ?thesis by (fastforce simp: threads_on_def)
qed

end
