(* ===== verification/ManyProducers.thy ===== *)
theory ManyProducers
  imports Queues
begin

text \<open>
  The queue of the incoming orders, \<^verbatim>\<open>matching-engine/MPSCQueue.h\<close>: any number of producers claim a position
  by compare-and-exchange, write its cell and release its sequence number; one consumer reads and recycles
  the cells. Each atomic access is a step, the steps of all threads interleave, and a load may yield an
  earlier value than the current one: a smaller one, as sequence numbers and positions only grow.
\<close>

section \<open>Steps\<close>

record 'a cell =
  sequence :: "64 word"
  cell_data :: 'a

record 'a mpsc =
  buffer_mask :: "64 word"
  cells :: "'a cell list"
  enqueue_pos :: "64 word"
  dequeue_pos :: "64 word"

definition new_mpsc :: "'a \<Rightarrow> 64 word \<Rightarrow> 'a mpsc option" where
  "new_mpsc d cap =
     (if cap < 2 \<or> cap AND (cap - 1) \<noteq> 0 then None
      else Some \<lparr>buffer_mask = cap - 1,
        cells = map (\<lambda>i. \<lparr>sequence = word_of_nat i, cell_data = d\<rparr>) [0..<unat cap],
        enqueue_pos = 0, dequeue_pos = 0\<rparr>)"

definition slot :: "'a mpsc \<Rightarrow> 64 word \<Rightarrow> nat" where
  "slot q pos = unat (pos AND buffer_mask q)"

definition cell_at :: "'a mpsc \<Rightarrow> 64 word \<Rightarrow> 'a cell" where
  "cell_at q pos = cells q ! slot q pos"

definition set_cell :: "64 word \<Rightarrow> 'a cell \<Rightarrow> 'a mpsc \<Rightarrow> 'a mpsc" where
  "set_cell pos c q = q\<lparr>cells := (cells q)[slot q pos := c]\<rparr>"

text \<open>A thread in \<open>enqueue\<close>, with the value it brings and the position it holds; the consumer in \<open>dequeue\<close>.\<close>

datatype 'a enqueuer = EOut | ECalled 'a | EAt 'a "64 word" | EClaim 'a "64 word" | EOwn 'a "64 word" | EStored 'a "64 word"

datatype 'a dequeuer = DOut | DReady | DTaken 'a | DPassed 'a "64 word"

record 'a crowd =
  queue :: "'a mpsc"
  enqueuers :: "nat \<Rightarrow> 'a enqueuer"
  dequeuer :: "'a dequeuer"
  claimed :: "'a list"
  taken :: "'a list"

definition crowd_on :: "'a mpsc \<Rightarrow> 'a crowd" where
  "crowd_on q = \<lparr>queue = q, enqueuers = (\<lambda>i. EOut), dequeuer = DOut, claimed = [], taken = []\<rparr>"

text \<open>The difference of two counters as the code computes it, in signed integers.\<close>

definition dif :: "64 word \<Rightarrow> 64 word \<Rightarrow> int" where
  "dif seq pos = sint seq - sint pos"

definition become :: "nat \<Rightarrow> 'a enqueuer \<Rightarrow> 'a crowd \<Rightarrow> 'a crowd" where
  "become i e s = s\<lparr>enqueuers := (enqueuers s)(i := e)\<rparr>"

inductive mpsc_step :: "'a crowd \<Rightarrow> 'a crowd \<Rightarrow> bool" where
  e_call: "enqueuers s i = EOut \<Longrightarrow> mpsc_step s (become i (ECalled v) s)"
| e_load: "enqueuers s i = ECalled v \<Longrightarrow> pos \<le> enqueue_pos (queue s) \<Longrightarrow> mpsc_step s (become i (EAt v pos) s)"
| e_ours: "enqueuers s i = EAt v pos \<Longrightarrow> seq \<le> sequence (cell_at (queue s) pos) \<Longrightarrow> dif seq pos = 0 \<Longrightarrow>
    mpsc_step s (become i (EClaim v pos) s)"
| e_full: "enqueuers s i = EAt v pos \<Longrightarrow> seq \<le> sequence (cell_at (queue s) pos) \<Longrightarrow> dif seq pos < 0 \<Longrightarrow>
    mpsc_step s (become i EOut s)"
| e_behind: "enqueuers s i = EAt v pos \<Longrightarrow> seq \<le> sequence (cell_at (queue s) pos) \<Longrightarrow> 0 < dif seq pos \<Longrightarrow>
    mpsc_step s (become i (ECalled v) s)"
| e_claim: "enqueuers s i = EClaim v pos \<Longrightarrow> enqueue_pos (queue s) = pos \<Longrightarrow>
    mpsc_step s ((become i (EOwn v pos) s)\<lparr>queue := (queue s)\<lparr>enqueue_pos := pos + 1\<rparr>, claimed := claimed s @ [v]\<rparr>)"
| e_lost: "enqueuers s i = EClaim v pos \<Longrightarrow> pos' \<le> enqueue_pos (queue s) \<Longrightarrow> mpsc_step s (become i (EAt v pos') s)"
| e_write: "enqueuers s i = EOwn v pos \<Longrightarrow>
    mpsc_step s ((become i (EStored v pos) s)\<lparr>queue := set_cell pos ((cell_at (queue s) pos)\<lparr>cell_data := v\<rparr>) (queue s)\<rparr>)"
| e_release: "enqueuers s i = EStored v pos \<Longrightarrow>
    mpsc_step s ((become i EOut s)\<lparr>queue := set_cell pos ((cell_at (queue s) pos)\<lparr>sequence := pos + 1\<rparr>) (queue s)\<rparr>)"
| d_empty: "dequeuer s = DOut \<Longrightarrow> seq \<le> sequence (cell_at (queue s) (dequeue_pos (queue s))) \<Longrightarrow>
    dif seq (dequeue_pos (queue s) + 1) \<noteq> 0 \<Longrightarrow> mpsc_step s s"
| d_ready: "dequeuer s = DOut \<Longrightarrow> seq \<le> sequence (cell_at (queue s) (dequeue_pos (queue s))) \<Longrightarrow>
    dif seq (dequeue_pos (queue s) + 1) = 0 \<Longrightarrow> mpsc_step s (s\<lparr>dequeuer := DReady\<rparr>)"
| d_read: "dequeuer s = DReady \<Longrightarrow>
    mpsc_step s (s\<lparr>dequeuer := DTaken (cell_data (cell_at (queue s) (dequeue_pos (queue s))))\<rparr>)"
| d_pass: "dequeuer s = DTaken v \<Longrightarrow>
    mpsc_step s (s\<lparr>dequeuer := DPassed v (dequeue_pos (queue s)),
      queue := (queue s)\<lparr>dequeue_pos := dequeue_pos (queue s) + 1\<rparr>\<rparr>)"
| d_release: "dequeuer s = DPassed v pos \<Longrightarrow>
    mpsc_step s (s\<lparr>dequeuer := DOut, taken := taken s @ [v],
      queue := set_cell pos ((cell_at (queue s) pos)\<lparr>sequence := pos + buffer_mask (queue s) + 1\<rparr>) (queue s)\<rparr>)"

inductive reachable_crowd :: "'a \<Rightarrow> 64 word \<Rightarrow> 'a crowd \<Rightarrow> bool" for d cap where
  created: "new_mpsc d cap = Some q \<Longrightarrow> reachable_crowd d cap (crowd_on q)"
| stepped: "reachable_crowd d cap s \<Longrightarrow> mpsc_step s s' \<Longrightarrow> reachable_crowd d cap s'"

section \<open>The invariant\<close>

text \<open>
  Positions as natural numbers, below the width of the signed difference. Between what was taken and the
  capacity beyond it, every position has a slot of its own: claimed and being written, full, or free.
\<close>

definition seq_at :: "'a mpsc \<Rightarrow> nat \<Rightarrow> nat" where
  "seq_at q p = unat (sequence (cell_at q (word_of_nat p)))"

definition data_at :: "'a mpsc \<Rightarrow> nat \<Rightarrow> 'a" where
  "data_at q p = cell_data (cell_at q (word_of_nat p))"

definition mpsc_shape :: "nat \<Rightarrow> 'a mpsc \<Rightarrow> bool" where
  "mpsc_shape k q \<longleftrightarrow> 1 \<le> k \<and> k \<le> 62 \<and> buffer_mask q = mask k \<and> length (cells q) = 2 ^ k"

fun owns :: "'a enqueuer \<Rightarrow> nat \<Rightarrow> bool" where
  "owns (EOwn v pos) p \<longleftrightarrow> unat pos = p"
| "owns (EStored v pos) p \<longleftrightarrow> unat pos = p"
| "owns _ p \<longleftrightarrow> False"

fun enqueuer_ok :: "'a crowd \<Rightarrow> 'a enqueuer \<Rightarrow> bool" where
  "enqueuer_ok s (EAt v pos) \<longleftrightarrow> unat pos \<le> length (claimed s)"
| "enqueuer_ok s (EClaim v pos) \<longleftrightarrow> unat pos \<le> length (claimed s) \<and> unat pos \<le> seq_at (queue s) (unat pos)"
| "enqueuer_ok s (EOwn v pos) \<longleftrightarrow>
     length (taken s) \<le> unat pos \<and> unat pos < length (claimed s) \<and> claimed s ! unat pos = v \<and>
     seq_at (queue s) (unat pos) = unat pos"
| "enqueuer_ok s (EStored v pos) \<longleftrightarrow>
     length (taken s) \<le> unat pos \<and> unat pos < length (claimed s) \<and> claimed s ! unat pos = v \<and>
     seq_at (queue s) (unat pos) = unat pos \<and> data_at (queue s) (unat pos) = v"
| "enqueuer_ok s _ \<longleftrightarrow> True"

definition ready_at :: "'a crowd \<Rightarrow> nat \<Rightarrow> bool" where
  "ready_at s p \<longleftrightarrow> p < length (claimed s) \<and> seq_at (queue s) p = Suc p \<and> data_at (queue s) p = claimed s ! p"

fun dequeuer_ok :: "'a crowd \<Rightarrow> 'a dequeuer \<Rightarrow> bool" where
  "dequeuer_ok s DOut \<longleftrightarrow> unat (dequeue_pos (queue s)) = length (taken s)"
| "dequeuer_ok s DReady \<longleftrightarrow> unat (dequeue_pos (queue s)) = length (taken s) \<and> ready_at s (length (taken s))"
| "dequeuer_ok s (DTaken v) \<longleftrightarrow> unat (dequeue_pos (queue s)) = length (taken s) \<and>
     ready_at s (length (taken s)) \<and> claimed s ! length (taken s) = v"
| "dequeuer_ok s (DPassed v pos) \<longleftrightarrow> unat (dequeue_pos (queue s)) = Suc (length (taken s)) \<and>
     unat pos = length (taken s) \<and> ready_at s (length (taken s)) \<and> claimed s ! length (taken s) = v"

definition claims_ok :: "'a crowd \<Rightarrow> bool" where
  "claims_ok s \<longleftrightarrow>
     (\<forall>p. length (taken s) \<le> p \<and> p < length (claimed s) \<longrightarrow> ready_at s p \<or> (\<exists>i. owns (enqueuers s i) p))"

definition free_ok :: "nat \<Rightarrow> 'a crowd \<Rightarrow> bool" where
  "free_ok k s \<longleftrightarrow> (\<forall>p. length (claimed s) \<le> p \<and> p < length (taken s) + 2 ^ k \<longrightarrow> seq_at (queue s) p = p)"

definition crowd_ok :: "nat \<Rightarrow> 'a crowd \<Rightarrow> bool" where
  "crowd_ok k s \<longleftrightarrow>
     mpsc_shape k (queue s) \<and> unat (enqueue_pos (queue s)) = length (claimed s) \<and>
     length (claimed s) \<le> length (taken s) + 2 ^ k \<and> prefix (taken s) (claimed s) \<and>
     claims_ok s \<and> free_ok k s \<and> (\<forall>i. enqueuer_ok s (enqueuers s i)) \<and> dequeuer_ok s (dequeuer s) \<and>
     (\<forall>i j p. owns (enqueuers s i) p \<longrightarrow> owns (enqueuers s j) p \<longrightarrow> i = j)"

section \<open>Slots\<close>

lemma slot_unat: "mpsc_shape k q \<Longrightarrow> slot q pos = unat pos mod 2 ^ k"
  using slot_of_nat [of k "unat pos"] by (simp add: mpsc_shape_def slot_def)

lemma slot_nat: "mpsc_shape k q \<Longrightarrow> slot q (word_of_nat p) = p mod 2 ^ k"
  using slot_of_nat [of k p] by (simp add: mpsc_shape_def slot_def)

lemma set_cell_keeps [simp]:
  "mpsc_shape k (set_cell pos c q) = mpsc_shape k q" "buffer_mask (set_cell pos c q) = buffer_mask q"
  "enqueue_pos (set_cell pos c q) = enqueue_pos q" "dequeue_pos (set_cell pos c q) = dequeue_pos q"
  by (simp_all add: set_cell_def mpsc_shape_def)

lemma cell_at_set:
  assumes "mpsc_shape k q"
  shows "cell_at (set_cell pos c q) (word_of_nat p) =
    (if p mod 2 ^ k = unat pos mod 2 ^ k then c else cell_at q (word_of_nat p))"
proof -
  have "slot (set_cell pos c q) (word_of_nat p) = p mod 2 ^ k" using slot_nat [of k "set_cell pos c q"] assms by simp
  moreover have "p mod 2 ^ k < length (cells q)" using assms by (simp add: mpsc_shape_def)
  ultimately show ?thesis
    using slot_nat [OF assms, of p] slot_unat [OF assms, of pos] by (simp add: cell_at_def) (simp add: set_cell_def)
qed

lemma seq_at_set:
  "mpsc_shape k q \<Longrightarrow> seq_at (set_cell pos c q) p =
     (if p mod 2 ^ k = unat pos mod 2 ^ k then unat (sequence c) else seq_at q p)"
  by (simp add: seq_at_def cell_at_set)

lemma data_at_set:
  "mpsc_shape k q \<Longrightarrow> data_at (set_cell pos c q) p =
     (if p mod 2 ^ k = unat pos mod 2 ^ k then cell_data c else data_at q p)"
  by (simp add: data_at_def cell_at_set)

lemma at_unat: "sequence (cell_at q pos) = word_of_nat (seq_at q (unat pos))" "cell_data (cell_at q pos) = data_at q (unat pos)"
  by (simp_all add: seq_at_def data_at_def)

lemma at_moved [simp]:
  "seq_at (q\<lparr>enqueue_pos := n\<rparr>) = seq_at q" "seq_at (q\<lparr>dequeue_pos := n\<rparr>) = seq_at q"
  "data_at (q\<lparr>enqueue_pos := n\<rparr>) = data_at q" "data_at (q\<lparr>dequeue_pos := n\<rparr>) = data_at q"
  "mpsc_shape k (q\<lparr>enqueue_pos := n\<rparr>) = mpsc_shape k q" "mpsc_shape k (q\<lparr>dequeue_pos := n\<rparr>) = mpsc_shape k q"
  by (auto simp: seq_at_def data_at_def cell_at_def slot_def mpsc_shape_def)

text \<open>Two positions less than the capacity apart have different slots.\<close>

lemma same_slot: "p mod n = r mod n \<Longrightarrow> p < r + n \<Longrightarrow> r < p + n \<Longrightarrow> p = (r :: nat)"
  using slots_differ [of p r n] slots_differ [of r p n] by (metis linorder_neqE_nat)

lemma dif_zero: "dif seq pos = 0 \<longleftrightarrow> seq = pos"
  by (auto simp: dif_def dest: arg_cong [where f = "word_of_int :: int \<Rightarrow> 64 word"])

section \<open>Every step keeps it\<close>

lemma become_simps [simp]:
  "queue (become i e s) = queue s" "claimed (become i e s) = claimed s" "taken (become i e s) = taken s"
  "dequeuer (become i e s) = dequeuer s" "enqueuers (become i e s) = (enqueuers s)(i := e)"
  by (simp_all add: become_def)

lemma ready_at_cong: "queue s' = queue s \<Longrightarrow> claimed s' = claimed s \<Longrightarrow> ready_at s' p = ready_at s p"
  by (simp add: ready_at_def)

lemma enqueuer_ok_cong:
  "queue s' = queue s \<Longrightarrow> claimed s' = claimed s \<Longrightarrow> taken s' = taken s \<Longrightarrow> enqueuer_ok s' e = enqueuer_ok s e"
  by (cases e) simp_all

lemma dequeuer_ok_cong:
  "queue s' = queue s \<Longrightarrow> claimed s' = claimed s \<Longrightarrow> taken s' = taken s \<Longrightarrow> dequeuer_ok s' e = dequeuer_ok s e"
  by (cases e) (simp_all add: ready_at_def)

lemma become_ok:
  assumes "crowd_ok k s" "enqueuer_ok s e" "\<And>p. owns e p \<longleftrightarrow> owns (enqueuers s i) p"
  shows "crowd_ok k (become i e s)"
proof -
  have o: "owns (enqueuers (become i e s) j) p = owns (enqueuers s j) p" for j p using assms(3) by simp
  have "enqueuer_ok (become i e s) (enqueuers (become i e s) j)" for j
    using assms(1,2) enqueuer_ok_cong [of "become i e s" s] by (simp add: crowd_ok_def)
  moreover have "dequeuer_ok (become i e s) (dequeuer (become i e s))"
    using assms(1) dequeuer_ok_cong [of "become i e s" s] by (simp add: crowd_ok_def)
  moreover have "claims_ok (become i e s)" "free_ok k (become i e s)"
    using assms(1) o by (simp_all add: crowd_ok_def claims_ok_def free_ok_def ready_at_def)
  ultimately show ?thesis using assms(1) o by (simp add: crowd_ok_def del: fun_upd_apply)
qed

lemma seq_at_mod: "mpsc_shape k q \<Longrightarrow> p mod 2 ^ k = r mod 2 ^ k \<Longrightarrow> seq_at q p = seq_at q r"
  by (simp add: seq_at_def cell_at_def slot_nat)

lemma data_at_mod: "mpsc_shape k q \<Longrightarrow> p mod 2 ^ k = r mod 2 ^ k \<Longrightarrow> data_at q p = data_at q r"
  by (simp add: data_at_def cell_at_def slot_nat)

lemma owned:
  assumes "crowd_ok k s" "owns (enqueuers s i) p"
  shows "\<not> ready_at s p" "length (taken s) \<le> p" "p < length (claimed s)" "seq_at (queue s) p = p"
proof -
  have "enqueuer_ok s (enqueuers s i)" using assms(1) by (simp add: crowd_ok_def)
  then show "\<not> ready_at s p" "length (taken s) \<le> p" "p < length (claimed s)" "seq_at (queue s) p = p"
    using assms(2) by (cases "enqueuers s i"; auto simp: ready_at_def)+
qed

text \<open>A producer that may claim finds room, and the position free.\<close>

lemma claim_free:
  assumes "crowd_ok k s" "enqueuers s i = EClaim v pos" "enqueue_pos (queue s) = pos"
  shows "length (claimed s) < length (taken s) + 2 ^ k" "seq_at (queue s) (length (claimed s)) = length (claimed s)"
proof -
  note ok = assms(1) [unfolded crowd_ok_def]
  have n: "unat pos = length (claimed s)" and shape: "mpsc_shape k (queue s)" using ok assms(3) by auto
  have "enqueuer_ok s (EClaim v pos)" using ok assms(2) by metis
  then have saw: "length (claimed s) \<le> seq_at (queue s) (length (claimed s))" using n by simp
  have two: "2 \<le> (2 :: nat) ^ k" using shape power_increasing [of 1 k "2 :: nat"] by (simp add: mpsc_shape_def)
  show room: "length (claimed s) < length (taken s) + 2 ^ k"
  proof (rule ccontr)
    assume "\<not> ?thesis"
    then have full: "length (claimed s) = length (taken s) + 2 ^ k" using ok by simp
    then have "ready_at s (length (taken s)) \<or> (\<exists>j. owns (enqueuers s j) (length (taken s)))"
      using ok two by (simp add: claims_ok_def)
    then have "seq_at (queue s) (length (taken s)) \<le> Suc (length (taken s))"
      using owned(4) [OF assms(1)] by (auto simp: ready_at_def)
    moreover have "seq_at (queue s) (length (claimed s)) = seq_at (queue s) (length (taken s))"
      by (rule seq_at_mod [OF shape]) (simp add: full)
    ultimately show False using saw full two by simp
  qed
  show "seq_at (queue s) (length (claimed s)) = length (claimed s)" using ok room by (simp add: free_ok_def)
qed

lemma claim_ok:
  assumes "crowd_ok k s" "enqueuers s i = EClaim v pos" "enqueue_pos (queue s) = pos"
    and "s' = (become i (EOwn v pos) s)\<lparr>queue := (queue s)\<lparr>enqueue_pos := pos + 1\<rparr>, claimed := claimed s @ [v]\<rparr>"
    and "length (claimed s') < 2 ^ 63"
  shows "crowd_ok k s'"
proof -
  note ok = assms(1) [unfolded crowd_ok_def] and free = claim_free [OF assms(1-3)]
  have n: "unat pos = length (claimed s)" and m: "length (taken s) \<le> length (claimed s)"
    using ok assms(3) by (auto dest: prefix_length_le)
  have next_pos: "unat (pos + 1) = Suc (length (claimed s))"
    using n assms(4,5) by (simp add: unat_word_ariths)
  have s': "queue s' = (queue s)\<lparr>enqueue_pos := pos + 1\<rparr>" "claimed s' = claimed s @ [v]" "taken s' = taken s"
    "dequeuer s' = dequeuer s" "enqueuers s' = (enqueuers s)(i := EOwn v pos)" by (simp_all add: assms(4))
  have r: "ready_at s' p = ready_at s p" if "p < length (claimed s)" for p
    using that by (simp add: ready_at_def s' nth_append)
  have kept: "owns (enqueuers s' j) p \<longleftrightarrow> (if j = i then p = length (claimed s) else owns (enqueuers s j) p)" for j p
    using n by (auto simp: s')
  have none: "\<not> owns (enqueuers s i) p" for p by (simp add: assms(2))
  have "claims_ok s'"
    unfolding claims_ok_def
  proof (intro allI impI)
    fix p assume p: "length (taken s') \<le> p \<and> p < length (claimed s')"
    show "ready_at s' p \<or> (\<exists>j. owns (enqueuers s' j) p)"
    proof (cases "p = length (claimed s)")
      case True
      then have "owns (enqueuers s' i) p" by (simp add: kept)
      then show ?thesis by blast
    next
      case False
      then have less: "p < length (claimed s)" using p by (simp add: s')
      with ok p have "ready_at s p \<or> (\<exists>j. owns (enqueuers s j) p)" by (simp add: claims_ok_def s')
      then show ?thesis using r [OF less] kept none by metis
    qed
  qed
  moreover have "free_ok k s'" using ok by (simp add: free_ok_def s')
  moreover have "enqueuer_ok s' (enqueuers s' j)" for j
  proof (cases "j = i")
    case True
    then show ?thesis using n m free(2) by (simp add: s' nth_append)
  next
    case False
    have "enqueuer_ok s (enqueuers s j)" using ok by blast
    with False show ?thesis by (cases "enqueuers s j") (auto simp: s' nth_append)
  qed
  moreover have "dequeuer_ok s' (dequeuer s')"
    using ok r by (cases "dequeuer s") (auto simp: s' nth_append ready_at_def)
  moreover have "j = l" if "owns (enqueuers s' j) p" "owns (enqueuers s' l) p" for j l p
    using that ok owned(3) [OF assms(1)] unfolding kept by (metis less_irrefl)
  ultimately show ?thesis using ok free(1) next_pos by (simp add: crowd_ok_def s' del: fun_upd_apply)
qed

lemma ready_atD: "ready_at s p \<Longrightarrow> p < length (claimed s)"
  by (simp add: ready_at_def)

lemma slot_apart:
  assumes "crowd_ok k s" "length (taken s) \<le> p" "p < length (taken s) + 2 ^ k" "length (taken s) \<le> r"
    "r < length (taken s) + 2 ^ k" "p \<noteq> r"
  shows "p mod 2 ^ k \<noteq> r mod 2 ^ k"
  using same_slot [of p "2 ^ k" r] assms(2-6) by auto

lemma write_ok:
  assumes "crowd_ok k s" "enqueuers s i = EOwn v pos"
    and "s' = (become i (EStored v pos) s)\<lparr>queue := set_cell pos ((cell_at (queue s) pos)\<lparr>cell_data := v\<rparr>) (queue s)\<rparr>"
  shows "crowd_ok k s'"
proof -
  note ok = assms(1) [unfolded crowd_ok_def]
  have mine: "owns (enqueuers s i) (unat pos)" by (simp add: assms(2))
  note own = owned [OF assms(1) mine]
  have shape: "mpsc_shape k (queue s)" and n: "length (claimed s) \<le> length (taken s) + 2 ^ k" using ok by auto
  have s': "claimed s' = claimed s" "taken s' = taken s" "dequeuer s' = dequeuer s"
    "enqueuers s' = (enqueuers s)(i := EStored v pos)"
    "queue s' = set_cell pos ((cell_at (queue s) pos)\<lparr>cell_data := v\<rparr>) (queue s)" by (simp_all add: assms(3))
  have seq: "seq_at (queue s') p = seq_at (queue s) p" for p
    using seq_at_mod [OF shape, of p "unat pos"] by (simp add: s' seq_at_set [OF shape]) (simp add: seq_at_def)
  have data: "data_at (queue s') p = (if p mod 2 ^ k = unat pos mod 2 ^ k then v else data_at (queue s) p)" for p
    by (simp add: s' data_at_set [OF shape])
  have other: "data_at (queue s') p = data_at (queue s) p"
    if "length (taken s) \<le> p" "p < length (claimed s)" "p \<noteq> unat pos" for p
    using slot_apart [OF assms(1), of p "unat pos"] that own n by (simp add: data)
  have r: "ready_at s' p = ready_at s p" if "length (taken s) \<le> p" "p < length (claimed s)" for p
    using other [OF that] own(4) by (cases "p = unat pos") (simp_all add: ready_at_def s'(1) seq)
  have kept: "owns (enqueuers s' j) p = owns (enqueuers s j) p" for j p
    by (simp add: s' assms(2))
  have "claims_ok s'" using ok r by (simp add: claims_ok_def s'(1,2) kept)
  moreover have "free_ok k s'" using ok by (simp add: free_ok_def s'(1,2) seq)
  moreover have "enqueuer_ok s' (enqueuers s' j)" for j
  proof (cases "j = i")
    case True
    have "enqueuer_ok s (EOwn v pos)" using ok assms(2) by metis
    then show ?thesis using True by (simp add: s'(1,2,4) seq data)
  next
    case False
    have "enqueuer_ok s (enqueuers s j)" using ok by blast
    moreover have "\<not> owns (enqueuers s j) (unat pos)" using False mine ok by blast
    ultimately show ?thesis using False other by (cases "enqueuers s j") (auto simp: s'(1,2,4) seq)
  qed
  moreover have "dequeuer_ok s' (dequeuer s')"
    using ok r [OF order_refl] by (cases "dequeuer s") (auto simp: s' ready_at_def)
  ultimately show ?thesis using ok by (simp add: crowd_ok_def kept) (simp add: s')
qed

lemma release_ok:
  assumes "crowd_ok k s" "enqueuers s i = EStored v pos" "length (claimed s) < 2 ^ 63"
    and "s' = (become i EOut s)\<lparr>queue := set_cell pos ((cell_at (queue s) pos)\<lparr>sequence := pos + 1\<rparr>) (queue s)\<rparr>"
  shows "crowd_ok k s'"
proof -
  note ok = assms(1) [unfolded crowd_ok_def]
  have mine: "owns (enqueuers s i) (unat pos)" by (simp add: assms(2))
  note own = owned [OF assms(1) mine]
  have shape: "mpsc_shape k (queue s)" and n: "length (claimed s) \<le> length (taken s) + 2 ^ k" using ok by auto
  have stored: "enqueuer_ok s (EStored v pos)" using ok assms(2) by metis
  have up: "unat (pos + 1) = Suc (unat pos)" using own(3) assms(3) by (simp add: unat_word_ariths)
  have s': "claimed s' = claimed s" "taken s' = taken s" "dequeuer s' = dequeuer s"
    "enqueuers s' = (enqueuers s)(i := EOut)"
    "queue s' = set_cell pos ((cell_at (queue s) pos)\<lparr>sequence := pos + 1\<rparr>) (queue s)" by (simp_all add: assms(4))
  have dq: "dequeue_pos (queue s') = dequeue_pos (queue s)" by (simp add: s')
  have data: "data_at (queue s') p = data_at (queue s) p" for p
    using data_at_mod [OF shape, of p "unat pos"] by (simp add: s' data_at_set [OF shape]) (simp add: data_at_def)
  have seq: "seq_at (queue s') p = (if p mod 2 ^ k = unat pos mod 2 ^ k then Suc (unat pos) else seq_at (queue s) p)" for p
    by (simp add: s' seq_at_set [OF shape] up)
  have other: "seq_at (queue s') p = seq_at (queue s) p"
    if "length (taken s) \<le> p" "p < length (taken s) + 2 ^ k" "p \<noteq> unat pos" for p
    using slot_apart [OF assms(1), of p "unat pos"] that own n by (simp add: seq)
  have grows: "seq_at (queue s) p \<le> seq_at (queue s') p" for p
    using seq_at_mod [OF shape, of p "unat pos"] own(4) by (simp add: seq)
  have r: "ready_at s' p = (p = unat pos \<or> ready_at s p)" if "length (taken s) \<le> p" "p < length (claimed s)" for p
    using other [OF that(1)] that n stored by (cases "p = unat pos") (auto simp: ready_at_def s'(1) data seq [of "unat pos"])
  have kept: "owns (enqueuers s' j) p = (j \<noteq> i \<and> owns (enqueuers s j) p)" for j p
    by (simp add: s')
  have only: "p = unat pos" if "owns (enqueuers s i) p" for p using that by (simp add: assms(2))
  have "claims_ok s'"
    unfolding claims_ok_def s'(1,2)
  proof (intro allI impI)
    fix p assume p: "length (taken s) \<le> p \<and> p < length (claimed s)"
    with ok have "ready_at s p \<or> (\<exists>j. owns (enqueuers s j) p)" by (simp add: claims_ok_def)
    with p r [of p] only kept show "ready_at s' p \<or> (\<exists>j. owns (enqueuers s' j) p)" by metis
  qed
  moreover have "free_ok k s'" using ok own(2,3) other by (simp add: free_ok_def s'(1,2))
  moreover have "enqueuer_ok s' (enqueuers s' j)" for j
  proof (cases "j = i")
    case False
    have "enqueuer_ok s (enqueuers s j)" using ok by blast
    moreover have "\<not> owns (enqueuers s j) (unat pos)" using False mine ok by blast
    ultimately show ?thesis using False other n grows
      by (cases "enqueuers s j") (auto simp: s'(1,2,4) data intro: order_trans)
  qed (simp add: s'(4))
  moreover have "ready_at s' (length (taken s))" if "ready_at s (length (taken s))"
    using that r [OF order_refl] ready_atD [OF that] by blast
  then have "dequeuer_ok s' (dequeuer s')" using ok dq by (cases "dequeuer s") (simp_all add: s'(1-3))
  moreover have "j = l" if "owns (enqueuers s' j) p" "owns (enqueuers s' l) p" for j l p
    using that ok unfolding kept by blast
  ultimately show ?thesis using ok by (simp add: crowd_ok_def s'(1,2)) (simp add: s'(5))
qed

text \<open>The consumer moves on without touching a cell.\<close>

lemma consumer_ok:
  assumes "crowd_ok k s" "queue s' = (queue s)\<lparr>dequeue_pos := pos\<rparr>" "enqueuers s' = enqueuers s"
    "claimed s' = claimed s" "taken s' = taken s" "dequeuer_ok s' (dequeuer s')"
  shows "crowd_ok k s'"
proof -
  have "enqueuer_ok s' e = enqueuer_ok s e" for e using assms(2-5) by (cases e) simp_all
  then show ?thesis using assms by (simp add: crowd_ok_def claims_ok_def free_ok_def ready_at_def)
qed

lemma next_ready:
  assumes "crowd_ok k s" "unat (dequeue_pos (queue s)) = length (taken s)" "length (claimed s) + 2 ^ k < 2 ^ 63"
    and "seq \<le> sequence (cell_at (queue s) (dequeue_pos (queue s)))" "dif seq (dequeue_pos (queue s) + 1) = 0"
  shows "ready_at s (length (taken s))"
proof -
  note ok = assms(1) [unfolded crowd_ok_def]
  have m: "length (taken s) \<le> length (claimed s)" using ok by (auto dest: prefix_length_le)
  have seq: "seq = dequeue_pos (queue s) + 1" using assms(5) by (simp only: dif_zero)
  have "unat (dequeue_pos (queue s) + 1) = Suc (length (taken s))"
    using assms(2,3) m by (simp add: unat_word_ariths)
  moreover have "unat seq \<le> seq_at (queue s) (length (taken s))"
    using assms(4) by (simp add: word_le_nat_alt seq_at_def assms(2) [symmetric])
  ultimately have saw: "Suc (length (taken s)) \<le> seq_at (queue s) (length (taken s))" by (simp add: seq)
  have "length (taken s) < length (claimed s)"
  proof (rule ccontr)
    assume "\<not> ?thesis"
    then have "seq_at (queue s) (length (taken s)) = length (taken s)" using ok m by (simp add: free_ok_def)
    with saw show False by simp
  qed
  then have "ready_at s (length (taken s)) \<or> (\<exists>i. owns (enqueuers s i) (length (taken s)))"
    using ok by (simp add: claims_ok_def)
  with owned(4) [OF assms(1)] saw show ?thesis by force
qed

lemma recycle_ok:
  assumes "crowd_ok k s" "dequeuer s = DPassed v pos" "length (claimed s) + 2 ^ k < 2 ^ 63"
    and "s' = s\<lparr>dequeuer := DOut, taken := taken s @ [v],
      queue := set_cell pos ((cell_at (queue s) pos)\<lparr>sequence := pos + buffer_mask (queue s) + 1\<rparr>) (queue s)\<rparr>"
  shows "crowd_ok k s'"
proof -
  note ok = assms(1) [unfolded crowd_ok_def]
  have shape: "mpsc_shape k (queue s)" and n: "length (claimed s) \<le> length (taken s) + 2 ^ k" using ok by auto
  have "dequeuer_ok s (DPassed v pos)" using ok assms(2) by metis
  then have pos: "unat pos = length (taken s)" and ready: "ready_at s (length (taken s))"
    and dq: "unat (dequeue_pos (queue s)) = Suc (length (taken s))" and v: "claimed s ! length (taken s) = v" by auto
  have m: "length (taken s) < length (claimed s)" using ready by (rule ready_atD)
  have "pos + buffer_mask (queue s) + 1 = pos + 2 ^ k"
    using shape by (simp add: mpsc_shape_def mask_eq_exp_minus_1)
  also have "\<dots> = word_of_nat (length (taken s) + 2 ^ k)" by (simp add: pos [symmetric])
  finally have up: "unat (pos + buffer_mask (queue s) + 1) = length (taken s) + 2 ^ k"
    using assms(3) m by (simp add: unsigned_of_nat take_bit_nat_eq_self del: of_nat_add of_nat_power)
  have s': "claimed s' = claimed s" "taken s' = taken s @ [v]" "dequeuer s' = DOut" "enqueuers s' = enqueuers s"
    "queue s' = set_cell pos ((cell_at (queue s) pos)\<lparr>sequence := pos + buffer_mask (queue s) + 1\<rparr>) (queue s)"
    by (simp_all add: assms(4))
  have data: "data_at (queue s') p = data_at (queue s) p" for p
    using data_at_mod [OF shape, of p "unat pos"] by (simp add: s' data_at_set [OF shape]) (simp add: data_at_def)
  have seq: "seq_at (queue s') p =
      (if p mod 2 ^ k = length (taken s) mod 2 ^ k then length (taken s) + 2 ^ k else seq_at (queue s) p)" for p
    by (simp add: s' seq_at_set [OF shape] up pos)
  have other: "seq_at (queue s') p = seq_at (queue s) p"
    if "length (taken s) < p" "p < length (taken s) + 2 ^ k" for p
    using slot_apart [OF assms(1), of p "length (taken s)"] that by (simp add: seq)
  have two: "1 \<le> (2 :: nat) ^ k" by simp
  have grows: "seq_at (queue s) p \<le> seq_at (queue s') p" for p
    using seq_at_mod [OF shape, of p "length (taken s)"] ready two by (simp add: seq ready_at_def)
  have r: "ready_at s' p = ready_at s p" if "length (taken s) < p" "p < length (claimed s)" for p
    using other [OF that(1)] that n by (simp add: ready_at_def s'(1) data)
  have "claims_ok s'" using ok r by (simp add: claims_ok_def s'(1,2,4))
  moreover have "free_ok k s'"
    unfolding free_ok_def s'(1,2)
  proof (intro allI impI)
    fix p assume p: "length (claimed s) \<le> p \<and> p < length (taken s @ [v]) + 2 ^ k"
    show "seq_at (queue s') p = p"
    proof (cases "p = length (taken s) + 2 ^ k")
      case True
      then show ?thesis by (simp add: seq)
    next
      case False
      with p have "p < length (taken s) + 2 ^ k" by simp
      with ok p m other [of p] show ?thesis by (simp add: free_ok_def)
    qed
  qed
  moreover have "enqueuer_ok s' (enqueuers s' j)" for j
  proof -
    have "enqueuer_ok s (enqueuers s j)" using ok by blast
    moreover have "\<not> owns (enqueuers s j) (length (taken s))" using owned(1) [OF assms(1), of j] ready by blast
    ultimately show ?thesis using other n grows
      by (cases "enqueuers s j") (auto simp: s'(1,2,4) data Suc_le_eq intro: order_trans)
  qed
  moreover have "prefix (taken s') (claimed s')"
    using append_one_prefix [of "taken s" "claimed s"] ok m v by (simp add: s')
  ultimately show ?thesis using ok m dq n by (simp add: crowd_ok_def s'(1-4)) (simp add: s'(5))
qed

lemma claimed_grows: "mpsc_step s s' \<Longrightarrow> length (claimed s) \<le> length (claimed s')"
  by (induction rule: mpsc_step.induct) simp_all

lemma crowd_step:
  assumes "mpsc_step s s'" "crowd_ok k s" "length (claimed s') + 2 ^ k < 2 ^ 63"
  shows "crowd_ok k s'"
proof -
  note ok = assms(2) [unfolded crowd_ok_def]
  have small: "length (claimed s) + 2 ^ k < 2 ^ 63" using claimed_grows [OF assms(1)] assms(3) by simp
  have e: "enqueuer_ok s x" if "enqueuers s i = x" for i x using ok that by blast
  have d: "dequeuer_ok s x" if "dequeuer s = x" for x using ok that by blast
  from assms(1) show ?thesis
  proof cases
    case (e_call i v)
    then show ?thesis using become_ok [OF assms(2)] by simp
  next
    case (e_load i v pos)
    then show ?thesis using become_ok [OF assms(2)] ok by (simp add: word_le_nat_alt)
  next
    case (e_ours i v pos seq)
    from e_ours(4) have "seq = pos" by (simp only: dif_zero)
    with e_ours(3) have "unat pos \<le> seq_at (queue s) (unat pos)" by (simp add: word_le_nat_alt seq_at_def)
    with e_ours e [OF e_ours(2)] show ?thesis using become_ok [OF assms(2)] by simp
  next
    case (e_full i v pos seq)
    then show ?thesis using become_ok [OF assms(2)] by simp
  next
    case (e_behind i v pos seq)
    then show ?thesis using become_ok [OF assms(2)] by simp
  next
    case (e_claim i v pos)
    with claim_ok [OF assms(2) e_claim(2,3,1)] assms(3) show ?thesis by simp
  next
    case (e_lost i v pos pos')
    then show ?thesis using become_ok [OF assms(2)] ok by (simp add: word_le_nat_alt)
  next
    case (e_write i v pos)
    with write_ok [OF assms(2) e_write(2,1)] show ?thesis by simp
  next
    case (e_release i v pos)
    with release_ok [OF assms(2) e_release(2) _ e_release(1)] small show ?thesis by simp
  next
    case (d_empty seq)
    with assms(2) show ?thesis by simp
  next
    case (d_ready seq)
    have at: "unat (dequeue_pos (queue s)) = length (taken s)" using d [OF d_ready(2)] by simp
    from next_ready [OF assms(2) this small d_ready(3,4)] at d_ready(1) show ?thesis
      by (intro consumer_ok [OF assms(2), of _ "dequeue_pos (queue s)"]) (simp_all add: ready_at_def)
  next
    case d_read
    with d [OF d_read(2)] show ?thesis
      by (intro consumer_ok [OF assms(2), of _ "dequeue_pos (queue s)"])
        (simp_all add: ready_at_def at_unat)
  next
    case (d_pass v)
    have "unat (dequeue_pos (queue s) + 1) = Suc (length (taken s))"
      using d [OF d_pass(2)] small ok by (auto simp: unat_word_ariths dest: prefix_length_le)
    with d_pass d [OF d_pass(2)] show ?thesis
      by (intro consumer_ok [OF assms(2), of _ "dequeue_pos (queue s) + 1"]) (simp_all add: ready_at_def)
  next
    case (d_release v pos)
    with recycle_ok [OF assms(2) d_release(2) small d_release(1)] show ?thesis by simp
  qed
qed

lemma new_mpsc_ok:
  assumes "new_mpsc d cap = Some q" "unat cap < 2 ^ 63"
  shows "\<exists>k. unat cap = 2 ^ k \<and> crowd_ok k (crowd_on q)"
proof -
  have "new_spsc d cap \<noteq> None" using assms(1) by (auto simp: new_mpsc_def new_spsc_def split: if_splits)
  then obtain p where p: "new_spsc d cap = Some p" by blast
  from new_spsc_ok [OF this] obtain k where k: "unat cap = 2 ^ k" "holds k 0 [] p" by blast
  have "(2 :: nat) ^ k < 2 ^ 63" using assms(2) k(1) by simp
  then have "k < 63" by (simp only: power_strict_increasing_iff)
  moreover have q: "q = \<lparr>buffer_mask = cap - 1,
      cells = map (\<lambda>i. \<lparr>sequence = word_of_nat i, cell_data = d\<rparr>) [0..<unat cap], enqueue_pos = 0, dequeue_pos = 0\<rparr>"
    using assms(1) by (auto simp: new_mpsc_def split: if_splits)
  moreover have "cap - 1 = mask k" using p k(2) by (auto simp: new_spsc_def holds_def split: if_splits)
  ultimately have shape: "mpsc_shape k q" using k by (auto simp: mpsc_shape_def holds_def)
  have "seq_at q i = i" if "i < 2 ^ k" for i
    using that k(1) slot_nat [OF shape, of i] assms(2)
    by (simp add: seq_at_def cell_at_def) (simp add: q unsigned_of_nat take_bit_nat_eq_self)
  with shape k(1) show ?thesis
    by (intro exI [of _ k]) (simp add: crowd_ok_def crowd_on_def claims_ok_def free_ok_def, simp add: q)
qed

lemma crowd_reachable:
  assumes "unat cap < 2 ^ 63"
  shows "reachable_crowd d cap s \<Longrightarrow> length (claimed s) + unat cap < 2 ^ 63 \<Longrightarrow>
    \<exists>k. unat cap = 2 ^ k \<and> crowd_ok k s"
proof (induction rule: reachable_crowd.induct)
  case (created q)
  from new_mpsc_ok [OF created(1) assms] show ?case .
next
  case (stepped s s')
  then have "length (claimed s) + unat cap < 2 ^ 63" using claimed_grows [OF stepped.hyps(2)] by simp
  with stepped.IH obtain k where k: "unat cap = 2 ^ k" "crowd_ok k s" by blast
  with crowd_step [OF stepped.hyps(2) k(2)] stepped.prems show ?case by auto
qed

text \<open>
  C14. The queue of incoming orders is first in, first out and free of races for any number of producers.
  While fewer than 2^63 items have passed, in every interleaving and however late the threads' loads, what
  the consumer has taken is a prefix of what the producers claimed, in the order of their claims, at most
  \<open>capacity\<close> items lie between, no two producers write one cell, and none writes the cell being read.
\<close>

theorem mpsc_threads_safe:
  assumes "reachable_crowd d cap s" "length (claimed s) + unat cap < 2 ^ 63"
  shows "prefix (taken s) (claimed s) \<and> length (claimed s) \<le> length (taken s) + unat cap \<and>
    (\<forall>i v pos. enqueuers s i = EOwn v pos \<longrightarrow>
       (dequeuer s = DReady \<longrightarrow> slot (queue s) pos \<noteq> slot (queue s) (dequeue_pos (queue s))) \<and>
       (\<forall>j u other. j \<noteq> i \<longrightarrow> enqueuers s j = EOwn u other \<longrightarrow> slot (queue s) pos \<noteq> slot (queue s) other))"
proof -
  have "unat cap < 2 ^ 63" using assms(2) by simp
  from crowd_reachable [OF this assms] obtain k where k: "unat cap = 2 ^ k" and ok: "crowd_ok k s" by blast
  note c = ok [unfolded crowd_ok_def]
  have shape: "mpsc_shape k (queue s)" and n: "length (claimed s) \<le> length (taken s) + 2 ^ k" using c by auto
  have reader: "slot (queue s) pos \<noteq> slot (queue s) (dequeue_pos (queue s))"
    if "enqueuers s i = EOwn v pos" "dequeuer s = DReady" for i v pos
  proof -
    have own: "owns (enqueuers s i) (unat pos)" by (simp add: that(1))
    have "dequeuer_ok s DReady" using c that(2) by metis
    then have d: "unat (dequeue_pos (queue s)) = length (taken s)" "ready_at s (length (taken s))" by auto
    then have "unat pos \<noteq> length (taken s)" using owned(1) [OF ok own] by auto
    with slot_apart [OF ok, of "unat pos" "length (taken s)"] owned(2,3) [OF ok own] n d(1) show ?thesis
      by (simp add: slot_unat [OF shape])
  qed
  have writers: "slot (queue s) pos \<noteq> slot (queue s) other"
    if "enqueuers s i = EOwn v pos" "enqueuers s j = EOwn u other" "j \<noteq> i" for i j u v pos other
  proof -
    have own: "owns (enqueuers s i) (unat pos)" "owns (enqueuers s j) (unat other)" by (simp_all add: that)
    then have "unat pos \<noteq> unat other" using c that(3) by metis
    with slot_apart [OF ok, of "unat pos" "unat other"] owned(2,3) [OF ok own(1)] owned(2,3) [OF ok own(2)] n
    show ?thesis by (simp add: slot_unat [OF shape])
  qed
  have "prefix (taken s) (claimed s)" "length (claimed s) \<le> length (taken s) + unat cap" using c k by simp_all
  then show ?thesis using reader writers by blast
qed

text \<open>A producer that finds its position free; two of them on a queue of two.\<close>

lemma claims:
  assumes "reachable_crowd d cap s" "enqueuers s i = EOut" "pos = enqueue_pos (queue s)"
    and "sequence (cell_at (queue s) pos) = pos"
  shows "reachable_crowd d cap
    ((become i (EOwn v pos) s)\<lparr>queue := (queue s)\<lparr>enqueue_pos := pos + 1\<rparr>, claimed := claimed s @ [v]\<rparr>)"
proof -
  have again: "become i e (become i e' s) = become i e s" for e e' by (simp add: become_def)
  have "reachable_crowd d cap (become i (ECalled v) s)"
    by (rule reachable_crowd.stepped [OF assms(1) mpsc_step.e_call]) (rule assms(2))
  from reachable_crowd.stepped [OF this mpsc_step.e_load [of _ i v pos]] assms(3)
  have "reachable_crowd d cap (become i (EAt v pos) s)" by (simp add: again)
  from reachable_crowd.stepped [OF this mpsc_step.e_ours [of _ i v pos pos]] assms(4)
  have "reachable_crowd d cap (become i (EClaim v pos) s)" by (simp add: again dif_def)
  from reachable_crowd.stepped [OF this mpsc_step.e_claim [of _ i v pos]] assms(3)
  show ?thesis by (simp add: again)
qed

theorem mpsc_threads_safe_witness:
  "\<exists>s. reachable_crowd (0 :: int) 2 s \<and> claimed s = [7, 8] \<and>
     enqueuers s 0 = EOwn 7 0 \<and> enqueuers s 1 = EOwn 8 1 \<and> slot (queue s) 0 \<noteq> slot (queue s) 1"
proof -
  let ?q = "\<lparr>buffer_mask = 1, cells = [\<lparr>sequence = 0, cell_data = 0\<rparr>, \<lparr>sequence = 1, cell_data = 0 :: int\<rparr>],
    enqueue_pos = 0, dequeue_pos = 0\<rparr>"
  have "new_mpsc (0 :: int) 2 = Some ?q" by (simp add: new_mpsc_def upt_rec)
  note start = reachable_crowd.created [OF this]
  let ?s = "(become 0 (EOwn 7 0) (crowd_on ?q))\<lparr>queue := ?q\<lparr>enqueue_pos := 1\<rparr>, claimed := [7]\<rparr>"
  from claims [OF start, of 0 0 7] have one: "reachable_crowd 0 2 ?s"
    by (simp add: crowd_on_def cell_at_def slot_def)
  let ?t = "(become 1 (EOwn 8 1) ?s)\<lparr>queue := ?q\<lparr>enqueue_pos := 2\<rparr>, claimed := [7, 8]\<rparr>"
  from claims [OF one, of 1 1 8] have two: "reachable_crowd 0 2 ?t"
    by (simp add: crowd_on_def cell_at_def slot_def)
  have own: "enqueuers ?t 0 = EOwn 7 0" "enqueuers ?t 1 = EOwn 8 1" "claimed ?t = [7, 8]"
    by (simp_all add: crowd_on_def)
  have "length (claimed ?t) + unat (2 :: 64 word) < 2 ^ 63" by (simp add: own(3))
  from mpsc_threads_safe [OF two this, THEN conjunct2, THEN conjunct2, rule_format, OF own(1), THEN conjunct2,
      rule_format, OF _ own(2)]
  have "slot (queue ?t) 0 \<noteq> slot (queue ?t) 1" by simp
  with two own show ?thesis by (intro exI [of _ ?t] conjI)
qed

end
