(* ===== verification/Offloader.thy ===== *)
theory Offloader
  imports Queues EngineVerdict
begin

text \<open>
  The Kafka thread, \<^verbatim>\<open>matching-engine/KafkaOffloader.h\<close>: \<open>publish\<close> on the matching thread's side, and the
  worker's loop that drains the queue into batches, hands each to the Kafka producer as one message and
  ends when it was stopped and the queue is empty. The two threads interleave at every access to the queue
  (\<open>QueueThreads\<close> shows that one access is one step); what \<open>produce\<close> answers is an input, which the code does not read.
\<close>

section \<open>The two threads\<close>

datatype worker_at = Testing | Filling "trade_event list" | Handing "trade_event list" | Ended

record offloader =
  ev_queue :: "trade_event spsc"
  keep_on :: bool
  n_published :: "64 word"
  n_dropped :: "64 word"
  n_delivered :: "64 word"
  pc :: worker_at
  produced :: "(bytes \<times> bool) list"

definition QUEUE_CAPACITY :: "64 word" where
  "QUEUE_CAPACITY = push_bit 16 1"

definition MAX_BATCH_EVENTS :: nat where
  "MAX_BATCH_EVENTS = 1024"

text \<open>Constructed and started.\<close>

definition started :: "trade_event \<Rightarrow> offloader option" where
  "started d =
     (case new_spsc d QUEUE_CAPACITY of
        None \<Rightarrow> None
      | Some q \<Rightarrow> Some \<lparr>ev_queue = q, keep_on = True, n_published = 0, n_dropped = 0, n_delivered = 0, pc = Testing,
          produced = []\<rparr>)"

definition publish_event :: "trade_event \<Rightarrow> offloader \<Rightarrow> bool \<times> offloader" where
  "publish_event ev s =
     (case tryPush ev (ev_queue s) of
        (False, q) \<Rightarrow> (False, s\<lparr>n_dropped := n_dropped s + 1\<rparr>)
      | (True, q) \<Rightarrow> (True, s\<lparr>ev_queue := q, n_published := n_published s + 1\<rparr>))"

definition queueDepth :: "offloader \<Rightarrow> 64 word" where
  "queueDepth s = approxSize (ev_queue s)"

definition publishBatch :: "bool \<Rightarrow> trade_event list \<Rightarrow> offloader \<Rightarrow> offloader" where
  "publishBatch answer batch s = s\<lparr>produced := produced s @ [(concat (map trade_event_wire batch), answer)]\<rparr>"

text \<open>One step of \<open>run\<close>; \<open>answer\<close> is what \<open>produce\<close> returns if it is called.\<close>

definition run_step :: "bool \<Rightarrow> offloader \<Rightarrow> offloader" where
  "run_step answer s =
     (case pc s of
        Testing \<Rightarrow> s\<lparr>pc := (if keep_on s \<or> 0 < queueDepth s then Filling [] else Ended)\<rparr>
      | Filling batch \<Rightarrow>
          (if length batch < MAX_BATCH_EVENTS
           then case tryPop (ev_queue s) of
                  (Some ev, q) \<Rightarrow> s\<lparr>ev_queue := q, pc := Filling (batch @ [ev])\<rparr>
                | (None, q) \<Rightarrow> s\<lparr>pc := (if batch = [] then Testing else Handing batch)\<rparr>
           else s\<lparr>pc := Handing batch\<rparr>)
      | Handing batch \<Rightarrow>
          (publishBatch answer batch s)\<lparr>n_delivered := n_delivered s + of_nat (length batch), pc := Testing\<rparr>
      | Ended \<Rightarrow> s)"

text \<open>
  A load may be late: the worker still sees the flag set, or a queue with nothing new in it; \<open>tryPush\<close> a
  queue still full.
\<close>

definition late_step :: "offloader \<Rightarrow> offloader" where
  "late_step s =
     (case pc s of
        Testing \<Rightarrow> s\<lparr>pc := Filling []\<rparr>
      | Filling batch \<Rightarrow>
          (if length batch < MAX_BATCH_EVENTS then s\<lparr>pc := (if batch = [] then Testing else Handing batch)\<rparr> else s)
      | _ \<Rightarrow> s)"

text \<open>
  The states reachable with the events accepted so far: the matching thread publishes until it has been
  joined, which is before \<open>stop\<close> clears the flag.
\<close>

inductive offloads :: "trade_event list \<Rightarrow> offloader \<Rightarrow> bool" where
  start: "started d = Some s \<Longrightarrow> offloads [] s"
| publish: "offloads evs s \<Longrightarrow> keep_on s \<Longrightarrow> publish_event ev s = (taken, s') \<Longrightarrow>
    offloads (if taken then evs @ [ev] else evs) s'"
| publish_late: "offloads evs s \<Longrightarrow> keep_on s \<Longrightarrow> offloads evs (s\<lparr>n_dropped := n_dropped s + 1\<rparr>)"
| stop: "offloads evs s \<Longrightarrow> offloads evs (s\<lparr>keep_on := False\<rparr>)"
| run: "offloads evs s \<Longrightarrow> offloads evs (run_step answer s)"
| run_late: "offloads evs s \<Longrightarrow> offloads evs (late_step s)"

section \<open>Nothing is lost\<close>

definition in_hand :: "offloader \<Rightarrow> trade_event list" where
  "in_hand s = (case pc s of Filling batch \<Rightarrow> batch | Handing batch \<Rightarrow> batch | _ \<Rightarrow> [])"

definition messages_of :: "trade_event list list \<Rightarrow> bytes list" where
  "messages_of batches = map (\<lambda>b. concat (map trade_event_wire b)) batches"

definition offloader_ok :: "trade_event list \<Rightarrow> trade_event list list \<Rightarrow> offloader \<Rightarrow> bool" where
  "offloader_ok evs batches s \<longleftrightarrow>
     spsc_ok 16 (ev_queue s) \<and> concat batches @ in_hand s @ spsc_contents (ev_queue s) = evs \<and>
     map fst (produced s) = messages_of batches \<and>
     list_all (\<lambda>b. b \<noteq> [] \<and> length b \<le> MAX_BATCH_EVENTS) batches \<and>
     length (in_hand s) \<le> MAX_BATCH_EVENTS \<and> (\<forall>batch. pc s = Handing batch \<longrightarrow> batch \<noteq> []) \<and>
     n_published s = of_nat (length evs) \<and> n_delivered s = of_nat (length (concat batches)) \<and>
     (pc s = Ended \<longrightarrow> \<not> keep_on s \<and> spsc_contents (ev_queue s) = [])"

lemma depth_zero: "spsc_ok k (ev_queue s) \<Longrightarrow> 0 < queueDepth s \<longleftrightarrow> spsc_contents (ev_queue s) \<noteq> []"
  using holds_size by (fastforce simp: spsc_ok_def queueDepth_def word_less_nat_alt)

lemma started_ok: "started d = Some s \<Longrightarrow> offloader_ok [] [] s"
proof -
  assume s: "started d = Some s"
  then obtain q where q: "new_spsc d QUEUE_CAPACITY = Some q"
    and f: "s = \<lparr>ev_queue = q, keep_on = True, n_published = 0, n_dropped = 0, n_delivered = 0, pc = Testing, produced = []\<rparr>"
    by (auto simp: started_def split: option.splits)
  from new_spsc_ok [OF q] obtain k where k: "unat QUEUE_CAPACITY = 2 ^ k" "holds k 0 [] q" by blast
  have "(2 :: nat) ^ k = 2 ^ 16" using k(1) by (simp add: QUEUE_CAPACITY_def)
  then have "k = 16" by (simp only: power_inject_exp)
  with spsc_okI [OF k(2)] show ?thesis by (simp add: offloader_ok_def f in_hand_def messages_of_def)
qed

lemma publish_keeps:
  assumes "offloader_ok evs batches s" "keep_on s" "publish_event ev s = (taken, s')"
  shows "offloader_ok (if taken then evs @ [ev] else evs) batches s'"
proof -
  obtain b q where q: "tryPush ev (ev_queue s) = (b, q)" by (cases "tryPush ev (ev_queue s)")
  have "spsc_ok 16 (ev_queue s)" using assms(1) by (simp add: offloader_ok_def)
  from spsc.push_keeps [OF this q] assms q show ?thesis
    by (cases b) (auto simp: offloader_ok_def publish_event_def in_hand_def)
qed

lemma run_step_keeps:
  assumes "offloader_ok evs batches s"
  shows "\<exists>batches. offloader_ok evs batches (run_step answer s)"
proof (cases "pc s")
  case Testing
  have "spsc_ok 16 (ev_queue s)" using assms by (simp add: offloader_ok_def)
  from depth_zero [OF this] assms Testing have "offloader_ok evs batches (run_step answer s)"
    by (auto simp: run_step_def offloader_ok_def in_hand_def)
  then show ?thesis ..
next
  case (Filling batch)
  obtain r q where q: "tryPop (ev_queue s) = (r, q)" by (cases "tryPop (ev_queue s)")
  have "spsc_ok 16 (ev_queue s)" using assms by (simp add: offloader_ok_def)
  from spsc.pop_keeps [OF this q] assms Filling q have "offloader_ok evs batches (run_step answer s)"
    by (cases r) (auto simp: run_step_def offloader_ok_def in_hand_def MAX_BATCH_EVENTS_def)
  then show ?thesis ..
next
  case (Handing batch)
  have "offloader_ok evs (batches @ [batch]) (run_step answer s)"
    using assms Handing
    by (auto simp: run_step_def offloader_ok_def in_hand_def publishBatch_def messages_of_def)
  then show ?thesis ..
next
  case Ended
  then have "run_step answer s = s" by (simp add: run_step_def)
  with assms show ?thesis by auto
qed

lemma offloads_ok: "offloads evs s \<Longrightarrow> \<exists>batches. offloader_ok evs batches s"
proof (induction rule: offloads.induct)
  case (start d s)
  then show ?case using started_ok by blast
next
  case (publish evs s ev taken s')
  then show ?case using publish_keeps by blast
next
  case (publish_late evs s)
  then show ?case by (auto simp: offloader_ok_def in_hand_def)
next
  case (stop evs s)
  then show ?case by (auto simp: offloader_ok_def in_hand_def)
next
  case (run evs s answer)
  then show ?case using run_step_keeps by blast
next
  case (run_late evs s)
  then obtain batches where "offloader_ok evs batches s" by blast
  then have "offloader_ok evs batches (late_step s)"
    by (auto simp: late_step_def offloader_ok_def in_hand_def split: worker_at.split)
  then show ?case ..
qed

section \<open>Shutdown\<close>

definition run_steps :: "bool list \<Rightarrow> offloader \<Rightarrow> offloader" where
  "run_steps answers s = foldl (\<lambda>s answer. run_step answer s) s answers"

text \<open>The steps left to the worker once it has been stopped.\<close>

definition steps_left :: "offloader \<Rightarrow> nat" where
  "steps_left s =
     (let n = length (spsc_contents (ev_queue s))
      in case pc s of
           Testing \<Rightarrow> 4 * n + 1
         | Filling batch \<Rightarrow> (if batch \<noteq> [] then 4 * n + 3 else if n = 0 then 2 else 4 * n)
         | Handing batch \<Rightarrow> 4 * n + 2
         | Ended \<Rightarrow> 0)"

lemma steps_left_bound: "offloader_ok evs batches s \<Longrightarrow> steps_left s \<le> 2 ^ 18 + 3"
  using spsc.within [of 16 "ev_queue s"]
  by (auto simp: offloader_ok_def steps_left_def Let_def split: worker_at.split)

lemma run_step_left:
  assumes "offloader_ok evs batches s" "\<not> keep_on s" "pc s \<noteq> Ended"
  shows "steps_left (run_step answer s) < steps_left s"
proof (cases "pc s")
  case Testing
  have "spsc_ok 16 (ev_queue s)" using assms(1) by (simp add: offloader_ok_def)
  from depth_zero [OF this] Testing assms(2) show ?thesis by (auto simp: run_step_def steps_left_def Let_def)
next
  case (Filling batch)
  obtain r q where q: "tryPop (ev_queue s) = (r, q)" by (cases "tryPop (ev_queue s)")
  have "spsc_ok 16 (ev_queue s)" using assms by (simp add: offloader_ok_def)
  from spsc.pop_keeps [OF this q] Filling q show ?thesis
    by (cases r) (auto simp: run_step_def steps_left_def MAX_BATCH_EVENTS_def Let_def)
next
  case (Handing batch)
  then show ?thesis by (simp add: run_step_def steps_left_def publishBatch_def Let_def)
next
  case Ended
  with assms(3) show ?thesis by simp
qed

lemma keep_on_run_step [simp]: "keep_on (run_step answer s) = keep_on s"
  by (auto simp: run_step_def publishBatch_def split: worker_at.split option.split prod.split)

lemma run_step_published [simp]: "n_published (run_step answer s) = n_published s"
  by (auto simp: run_step_def publishBatch_def split: worker_at.split option.split prod.split)

lemma run_steps_end:
  "offloader_ok evs batches s \<Longrightarrow> \<not> keep_on s \<Longrightarrow> steps_left s \<le> length answers \<Longrightarrow>
     pc (run_steps answers s) = Ended \<and> (\<exists>batches. offloader_ok evs batches (run_steps answers s))"
proof (induction answers arbitrary: s batches)
  case Nil
  then have "pc s = Ended" by (auto simp: steps_left_def Let_def split: worker_at.splits if_splits)
  with Nil show ?case by (auto simp: run_steps_def)
next
  case (Cons answer answers)
  from run_step_keeps [OF Cons.prems(1)] obtain bs where bs: "offloader_ok evs bs (run_step answer s)" by blast
  have "steps_left (run_step answer s) \<le> length answers"
  proof (cases "pc s = Ended")
    case True
    then have "steps_left (run_step answer s) = 0" by (simp add: run_step_def steps_left_def)
    then show ?thesis by simp
  next
    case False
    from run_step_left [OF Cons.prems(1,2) this, of answer] Cons.prems(3) show ?thesis by simp
  qed
  from Cons.IH [OF bs _ this] Cons.prems(2) show ?case by (simp add: run_steps_def)
qed

text \<open>
  C18. The Kafka thread loses nothing at shutdown and does shut down. In whatever way the two threads have
  interleaved, once the worker is stopped it ends within 2^18 + 3 of its steps, and the messages it has
  handed to the producer are, in order, exactly the events the queue had accepted: non-empty batches of at
  most 1024 packed structs; both counters say so.
\<close>

theorem kafka_thread_drains:
  assumes "offloads evs s" "\<not> keep_on s" "2 ^ 18 + 3 \<le> length answers"
  shows "pc (run_steps answers s) = Ended \<and>
    (\<exists>batches. map fst (produced (run_steps answers s)) = messages_of batches \<and> concat batches = evs \<and>
       list_all (\<lambda>b. b \<noteq> [] \<and> length b \<le> MAX_BATCH_EVENTS) batches) \<and>
    n_published (run_steps answers s) = of_nat (length evs) \<and>
    n_delivered (run_steps answers s) = of_nat (length evs)"
proof -
  obtain batches where "offloader_ok evs batches s" using offloads_ok [OF assms(1)] by blast
  with run_steps_end [OF this assms(2), of answers] steps_left_bound [OF this] assms(3)
  obtain bs where e: "pc (run_steps answers s) = Ended" "offloader_ok evs bs (run_steps answers s)" by auto
  then have "concat bs = evs" by (auto simp: offloader_ok_def in_hand_def)
  with e show ?thesis by (auto simp: offloader_ok_def)
qed

text \<open>One event published, drained and handed over.\<close>

definition sample_trade :: trade_event where
  "sample_trade = \<lparr>match_id = 1, buy_order_id = 1, sell_order_id = 3, t0_ns = 10, t1_ns = 20, t2_ns = 1002,
     price = Fin 101, qty = 4\<rparr>"

definition at_rest :: "trade_event list \<Rightarrow> (bytes \<times> bool) list \<Rightarrow> offloader \<Rightarrow> bool" where
  "at_rest evs msgs s \<longleftrightarrow> offloads evs s \<and> keep_on s \<and> pc s = Testing \<and> spsc_contents (ev_queue s) = [] \<and> produced s = msgs"

lemma at_rest_start: "\<exists>s. at_rest [] [] s"
proof -
  have "new_spsc sample_trade QUEUE_CAPACITY \<noteq> None" by (simp add: new_spsc_def QUEUE_CAPACITY_def)
  then obtain s where s: "started sample_trade = Some s" by (auto simp: started_def)
  from started_ok [OF this] have "spsc_contents (ev_queue s) = []" by (simp add: offloader_ok_def)
  with offloads.start [OF s] s show ?thesis
    by (intro exI [of _ s]) (auto simp: at_rest_def started_def split: option.splits)
qed

lemma at_rest_publish:
  assumes "at_rest evs msgs s"
  shows "\<exists>s. at_rest (evs @ [ev]) (msgs @ [(trade_event_wire ev, answer)]) s"
proof -
  note r = assms [unfolded at_rest_def]
  obtain batches where ok: "offloader_ok evs batches s" using offloads_ok r by blast
  then have k: "spsc_ok 16 (ev_queue s)" by (simp add: offloader_ok_def)
  from spsc.push_room [OF k, of ev] r obtain q where
    q: "tryPush ev (ev_queue s) = (True, q)" "spsc_ok 16 q" "spsc_contents q = [ev]" by auto
  from spsc.pop_first [OF q(2,3)] obtain q' where
    q': "tryPop q = (Some ev, q')" "spsc_ok 16 q'" "spsc_contents q' = []" by blast
  note e = spsc.pop_empty [OF q'(2,3)]
  let ?s = "s\<lparr>ev_queue := q, n_published := n_published s + 1\<rparr>"
  have "publish_event ev s = (True, ?s)" by (simp add: publish_event_def q)
  from offloads.publish [OF _ _ this] r have "offloads (evs @ [ev]) ?s" by simp
  then have "offloads (evs @ [ev])
    (run_step answer (run_step answer (run_step answer (run_step answer ?s))))"
    by (intro offloads.run)
  then show ?thesis
    by (intro exI) (use r q q' e in \<open>auto simp: at_rest_def run_step_def publishBatch_def MAX_BATCH_EVENTS_def\<close>)
qed

theorem kafka_thread_drains_witness:
  "\<exists>s. offloads [sample_trade] s \<and> pc (run_steps (replicate (2 ^ 18 + 3) True) s) = Ended \<and>
     n_delivered (run_steps (replicate (2 ^ 18 + 3) True) s) = 1"
proof -
  obtain s where "offloads [sample_trade] s"
    using at_rest_start at_rest_publish [of "[]" "[]" _ "sample_trade" True] by (auto simp: at_rest_def)
  from offloads.stop [OF this]
    kafka_thread_drains [OF offloads.stop [OF this], of "replicate (2 ^ 18 + 3) True"] show ?thesis
    by (intro exI [of _ "s\<lparr>keep_on := False\<rparr>"]) simp
qed

section \<open>A batch the producer refuses\<close>

text \<open>The batches behind the messages Kafka took.\<close>

definition kept :: "bool list \<Rightarrow> 'b list \<Rightarrow> 'b list" where
  "kept answers xs = map fst (filter snd (zip xs answers))"

lemma kept_append: "length answers = length xs \<Longrightarrow> kept (answers @ rest) (xs @ ys) = kept answers xs @ kept rest ys"
  by (simp add: kept_def)

lemma set_kept: "set (kept answers xs) \<subseteq> set xs"
  by (auto simp: kept_def dest: set_zip_leftD)

lemma kept_all: "length answers = length xs \<Longrightarrow> list_all id answers \<Longrightarrow> kept answers xs = xs"
  by (induction answers xs rule: list_induct2) (simp_all add: kept_def)

lemma kept_some: "length answers = length xs \<Longrightarrow> True \<in> set answers \<Longrightarrow> kept answers xs \<noteq> []"
  by (induction answers xs rule: list_induct2) (auto simp: kept_def)

lemma length_kept: "length (concat (kept answers xs)) \<le> length (concat xs)"
  by (induction answers xs rule: list_induct2') (auto simp: kept_def)

lemma kept_map: "kept answers (map f xs) = map f (kept answers xs)"
  by (simp add: kept_def zip_map1 filter_map o_def case_prod_unfold)

lemma legal_gap:
  assumes "legal_from p (xs @ b @ ys)" "b \<noteq> []" "u \<in> set xs" "v \<in> set ys"
  shows "match_id u + 2 \<le> match_id v"
proof -
  obtain i where i: "i < length xs" "u = xs ! i" using assms(3) by (auto simp: in_set_conv_nth)
  obtain j where j: "j < length ys" "v = ys ! j" using assms(4) by (auto simp: in_set_conv_nth)
  let ?j = "length xs + (length b + j)"
  have "match_id u = match_id ((xs @ b @ ys) ! 0) + int i"
    using legal_match_ids [OF assms(1), of i] i by (simp add: nth_append)
  moreover have "match_id v = match_id ((xs @ b @ ys) ! 0) + int ?j"
    using legal_match_ids [OF assms(1), of ?j] j by (simp add: nth_append)
  moreover have "int i + 2 \<le> int ?j" using i(1) assms(2) by (cases b) auto
  ultimately show ?thesis by simp
qed

lemma legal_next:
  assumes "legal_from p (xs @ ys)" "xs \<noteq> []" "ys \<noteq> []"
  shows "match_id (hd ys) = match_id (last xs) + 1"
proof -
  have pos: "length xs - 1 < length (xs @ ys)" using assms(2) by (cases xs) auto
  have "match_id (last xs) = match_id ((xs @ ys) ! 0) + int (length xs - 1)"
    using legal_match_ids [OF assms(1) pos] assms(2) by (simp add: nth_append last_conv_nth)
  moreover have "match_id (hd ys) = match_id ((xs @ ys) ! 0) + int (length xs)"
    using legal_match_ids [OF assms(1), of "length xs"] assms(3) by (simp add: nth_append hd_conv_nth)
  moreover have "0 < length xs" using assms(2) by simp
  ultimately show ?thesis by simp
qed

lemma legal_kept:
  assumes "legal_from p (concat batches @ rest)" "list_all (\<lambda>b. b \<noteq> []) batches"
    and "length (xs @ False # ys) = length batches" "True \<in> set xs" "True \<in> set ys"
  shows "\<not> legal_from q (concat (kept (xs @ False # ys) batches))"
proof
  assume l: "legal_from q (concat (kept (xs @ False # ys) batches))"
  let ?A = "take (length xs) batches" and ?C = "drop (Suc (length xs)) batches"
  have n: "length xs < length batches" using assms(3) by simp
  then have b: "batches = ?A @ batches ! length xs # ?C" by (rule id_take_nth_drop)
  have len: "length xs = length ?A" "length ys = length ?C" using assms(3) by auto
  let ?f = "concat (kept xs ?A)" and ?g = "concat (kept ys ?C)"
  have "kept (xs @ False # ys) (?A @ batches ! length xs # ?C) = kept xs ?A @ kept ys ?C"
    using kept_append [OF len(1), of "False # ys"] by (simp add: kept_def)
  then have k: "concat (kept (xs @ False # ys) batches) = ?f @ ?g" using b by (metis concat_append)
  have ne: "\<forall>b \<in> set batches. b \<noteq> []" using assms(2) by (simp add: list_all_iff)
  have "set (kept xs ?A) \<subseteq> set batches" "set (kept ys ?C) \<subseteq> set batches"
    using set_kept [of xs ?A] set_kept [of ys ?C] by (auto dest: in_set_takeD in_set_dropD)
  then have f: "?f \<noteq> []" and g: "?g \<noteq> []"
    using kept_some [OF len(1) assms(4)] kept_some [OF len(2) assms(5)] ne
    by (auto simp: concat_eq_Nil_conv neq_Nil_conv)
  have "last ?f \<in> set (concat ?A)" "hd ?g \<in> set (concat ?C @ rest)"
    using last_in_set [OF f] hd_in_set [OF g] set_kept [of xs ?A] set_kept [of ys ?C] by auto
  moreover have "legal_from p (concat ?A @ batches ! length xs @ (concat ?C @ rest))"
    using assms(1) b by (metis append.assoc concat.simps(2) concat_append)
  ultimately have "match_id (last ?f) + 2 \<le> match_id (hd ?g)"
    using legal_gap [of p "concat ?A" "batches ! length xs" "concat ?C @ rest"] ne n by simp
  moreover have "match_id (hd ?g) = match_id (last ?f) + 1"
    using legal_next [OF l [unfolded k] f g] .
  ultimately show False by simp
qed

lemma read_kept:
  "map fst ps = messages_of batches \<Longrightarrow>
     map (\<lambda>(m, answer). Payload m) (filter snd ps) =
     map (\<lambda>b. Payload (concat (map trade_event_wire b))) (kept (map snd ps) batches)"
proof -
  assume m: "map fst ps = messages_of batches"
  have "map fst (filter snd ps) = kept (map snd ps) (map fst ps)"
    by (simp add: kept_def zip_map_fst_snd)
  then have "map fst (filter snd ps) = map (\<lambda>b. concat (map trade_event_wire b)) (kept (map snd ps) batches)"
    by (simp add: m messages_of_def kept_map)
  then have "map Payload (map fst (filter snd ps)) =
      map Payload (map (\<lambda>b. concat (map trade_event_wire b)) (kept (map snd ps) batches))" by simp
  then show ?thesis by (simp add: case_prod_unfold o_def)
qed

text \<open>
  C17. Kafka's part in the verdict. The Kafka thread hands over the trades of a session in which the engine
  broke no rule and its queue took every event. If Kafka takes every message, the scoring worker that reads
  them is still running. If the producer refuses a batch between two it takes (its buffer is full), the
  worker disqualifies the contestant, and \<open>delivered\<close> counts the lost trades as delivered.
\<close>

theorem refused_batch_disqualifies:
  assumes "orders_ok os" "arrives io new_engine os" "clock_ok io" "publishes io = (\<lambda>evs ev. True)"
    and "offloads (events (process_orders io os new_engine)) s" "redis_fails ev = (\<lambda>_ _. None)"
    and "verdict = snd (worker_main ev a window (map (\<lambda>(m, answer). Payload m) (filter snd (produced s))))"
  shows "(list_all snd (produced s) \<longrightarrow> verdict = Running) \<and>
    (\<forall>xs ys. map snd (produced s) = xs @ False # ys \<longrightarrow> True \<in> set xs \<longrightarrow> True \<in> set ys \<longrightarrow> verdict = Returned) \<and>
    (\<exists>batches. map fst (produced s) = messages_of batches \<and> n_delivered s = of_nat (length (concat batches)))"
proof -
  let ?evs = "events (process_orders io os new_engine)" and ?answers = "map snd (produced s)"
  obtain batches where ok: "offloader_ok ?evs batches s" using offloads_ok [OF assms(5)] by blast
  then have m: "map fst (produced s) = messages_of batches"
    and d: "n_delivered s = of_nat (length (concat batches))"
    and evs: "?evs = concat batches @ in_hand s @ spsc_contents (ev_queue s)"
    and ne: "list_all (\<lambda>b. b \<noteq> []) batches" by (auto simp: offloader_ok_def list_all_iff)
  have len: "length ?answers = length batches" using arg_cong [OF m, of length] by (simp add: messages_of_def)
  have legal: "legal_from None ?evs" and fits: "list_all event_fits ?evs"
    using session_all [OF assms(1,2,3,4)] by (simp_all add: session_def)
  let ?kept = "kept ?answers batches"
  have sub: "set (concat ?kept) \<subseteq> set ?evs" using set_kept [of ?answers batches] by (auto simp: evs)
  then have f: "list_all event_fits (concat ?kept)" using fits by (auto simp: list_all_iff)
  have short: "int (length (concat ?kept)) \<le> 2 ^ 53"
    using length_kept [of ?answers batches] few_trades(2) [OF assms(1), of io] arg_cong [OF evs, of length] by simp
  have v: "verdict = (if legal_from None (concat ?kept) then Running else Returned)"
    unfolding assms(7) read_kept [OF m] by (rule worker_main_verdict [OF assms(6) f short])
  have "verdict = Running" if "list_all snd (produced s)"
  proof -
    have "list_all id ?answers" using that by (simp add: list_all_iff)
    from kept_all [OF len this] legal v show ?thesis by (simp add: evs legal_from_append)
  qed
  moreover have "verdict = Returned" if "?answers = xs @ False # ys" "True \<in> set xs" "True \<in> set ys" for xs ys
    using legal_kept [OF legal [unfolded evs] ne _ that(2,3), of None] len v that(1) by simp
  ultimately show ?thesis using m d by blast
qed

text \<open>Three trades, each a batch of its own; the producer refuses the second.\<close>

lemma three_trades:
  "\<exists>s w1 w2 w3. offloads (events (process_orders steady_io sample_orders new_engine)) s \<and>
     produced s = [(w1, True), (w2, False), (w3, True)]"
proof -
  let ?evs = "events (process_orders steady_io sample_orders new_engine)"
  have "length ?evs = 3" by (simp add: engine_eval matching.simps Let_def)
  then obtain a b c where evs: "?evs = [a, b, c]" by (auto simp: numeral_3_eq_3 length_Suc_conv)
  obtain s1 where "at_rest [a] [(trade_event_wire a, True)] s1"
    using at_rest_start at_rest_publish [of "[]" "[]" _ a True] by auto
  from at_rest_publish [OF this, of b False] obtain s2 where
    "at_rest [a, b] [(trade_event_wire a, True), (trade_event_wire b, False)] s2" by auto
  from at_rest_publish [OF this, of c True] obtain s3 where
    "at_rest [a, b, c] [(trade_event_wire a, True), (trade_event_wire b, False), (trade_event_wire c, True)] s3" by auto
  then show ?thesis unfolding evs at_rest_def by blast
qed

theorem refused_batch_disqualifies_witness:
  "\<exists>s w1 w2 w3. offloads (events (process_orders steady_io sample_orders new_engine)) s \<and>
     produced s = [(w1, True), (w2, False), (w3, True)] \<and>
     snd (worker_main quiet_env sample_args (Fin 10) [Payload w1, Payload w3]) = Returned"
proof -
  obtain s w1 w2 w3 where s: "offloads (events (process_orders steady_io sample_orders new_engine)) s"
    "produced s = [(w1, True), (w2, False), (w3, True)]" using three_trades by blast
  have split: "map snd (produced s) = [True] @ False # [True]" by (simp add: s(2))
  have io: "publishes steady_io = (\<lambda>evs ev. True)" "redis_fails quiet_env = (\<lambda>_ _. None)"
    by (simp_all add: steady_io_def quiet_env_def)
  note t = refused_batch_disqualifies [OF sample_orders_ok sample_arrives steady_clock_ok io(1) s(1) io(2) refl,
      of sample_args "Fin 10"]
  from t [THEN conjunct2, THEN conjunct1, rule_format, OF split]
  have "snd (worker_main quiet_env sample_args (Fin 10)
      (map (\<lambda>(m, answer). Payload m) (filter snd (produced s)))) = Returned" by simp
  then have "snd (worker_main quiet_env sample_args (Fin 10) [Payload w1, Payload w3]) = Returned"
    by (simp add: s(2))
  with s show ?thesis by blast
qed

end
