(* ===== verification/Spec2Isabelle.thy ===== *)
theory Spec2Isabelle
  imports ScoringSelfTest Sdk BenchVerdict BenchRuns BenchLaunch OrchSafety ApiUpload ApiStream ApiTypes Launches
  GatewayVerdict QueueThreads ManyProducers Offloader
begin

text \<open>
  A verification development for the trading benchmark platform.

  \<^bold>\<open>The program.\<close> Contestants upload a trading bot; the platform builds it into a container, confines it,
  lets it trade against a matching engine under load, and ranks it. Its parts and how they meet:

  \<^item> \<^verbatim>\<open>telemetry/api.py\<close>, the web service, unpacks a submission, starts the orchestrator with the
    contestant's identifier, and shows the leaderboard it reads from Redis, as JSON and as an event stream.
  \<^item> \<^verbatim>\<open>infra/orchestrator.py\<close> detects the language, writes a Dockerfile, builds the image, isolates a
    Kubernetes namespace, starts the scoring worker, launches the contestant's pod, waits and reaps.
  \<^item> \<^verbatim>\<open>matching-engine/\<close> (C++) accepts orders over WebSocket and publishes every trade as a packed
    60-byte struct to Kafka.
  \<^item> \<^verbatim>\<open>telemetry/scoring_engine.py\<close>, the scoring worker, decodes the trades, checks them against the
    exchange's rules, keeps a rolling window of latencies, and writes score and verdict to Redis.
  \<^item> \<^verbatim>\<open>bot-fleet/main.py\<close> is the background load; \<^verbatim>\<open>sample_bot/\<close> the contestant's harness and strategy.
  \<^item> \<^verbatim>\<open>bench/run_loadtest.py\<close> restarts the stack, runs the fleet, harvests the worker's log lines and
    reports statistics over several runs.

  \<^bold>\<open>Vocabulary.\<close> \<open>Prelude\<close>: exceptions as values, results, and the locale \<open>stream_validator\<close> of a loop that
  validates before it accepts. \<open>Rounding\<close> and \<open>Float64\<close>: binary64 over the rationals, with infinities and
  NaN, correctly rounded; Python's floats and the engine's doubles. \<open>PyNum\<close>: arithmetic on int and float
  mixed. \<open>PyStr\<close>, \<open>PyText\<close>, \<open>FloatText\<close>: decimal texts, the string methods used, \<open>float\<close> and \<open>repr\<close> and
  their round trip. \<open>PyJson\<close>, \<open>JsonText\<close>, \<open>JsonRound\<close>, \<open>JsonValues\<close>, \<open>JsonLines\<close>: dicts, \<open>json.dumps\<close>
  (compact and indented), \<open>json.loads\<close> and that one reads the other back. \<open>PyPath\<close>: \<open>os.path.join\<close>. \<open>Wire\<close>:
  bytes, \<open>struct\<close> formats. \<open>ArgParse\<close>: \<open>argparse\<close> with its abbreviations, negative numbers, \<open>--\<close> and help.
  \<open>Effects\<close>: actions over a state, with \<open>except\<close>, \<open>finally\<close>, fuel and a trace of calls; its rules relate an
  invariant of the trace to the structure of an action, and the locale \<open>outside_world\<close> is the interface
  every kind of outside call is an interpretation of. A string is its characters as code points below 256;
  text a program passes on unread beyond that is its UTF-8 bytes.

  \<^bold>\<open>Scoring worker.\<close> \<open>TradeEvents\<close> (\<open>TradeEvent\<close>, \<open>unpack_trade_events\<close>, the packed struct of
  \<^verbatim>\<open>MarketEvents.h\<close>), \<open>Scoring\<close> (\<open>ContestantState\<close>, \<open>percentile\<close>), \<open>ScoringWorker\<close> (\<open>publish_metrics\<close>,
  \<open>disqualify\<close> and the loop of \<open>main\<close>), \<open>ScoringMain\<close> (\<open>parse_args\<close>, \<open>make_consumer\<close>, \<open>main\<close>). The clock is an
  input, one value per reading; Redis may refuse any command; a poll yields nothing, an error or bytes.
  \<open>ScoringStream\<close> and \<open>ScoringMetrics\<close> prove that \<open>validate\<close> and \<open>accept\<close> refine a stateless contract of
  legal trade sequences (\<open>legal_from\<close>), what is counted, that the rolling window is exact, and that
  \<open>metrics\<close> never raises and is ordered; \<open>ScoringVerdict\<close> that from bytes to verdict the worker disqualifies
  exactly the illegal sequences and says so exactly once; \<open>ScoringSelfTest\<close> that the shipped self test
  passes; \<open>ScoringFigures\<close> that the published figures survive being stored as text.

  \<^bold>\<open>Matching engine.\<close> \<open>Engine\<close> is \<^verbatim>\<open>MatchingEngine.cpp\<close> on \<^verbatim>\<open>OrderBook.h\<close>: \<open>addOrder\<close>, \<open>matching\<close>, \<open>eraseAt\<close>,
  \<open>cancelOrder\<close> and the body of \<open>processLoop\<close>; the clock and the queue to the Kafka thread are inputs.
  \<open>EngineBook\<close> proves that levels, vectors and recorded positions implement a price-time priority queue of
  two plain lists; \<open>EngineTrades\<close> that one order's trades are a legal piece of tape; \<open>EngineVerdict\<close> that a
  whole session is, that the scoring worker therefore passes it, and what a refused event does.

  \<^bold>\<open>Queues and the Kafka thread.\<close> \<open>Queues\<close> has the locale \<open>bounded_fifo\<close>, the contract of a queue of limited
  size, and interprets it on the ring buffer of \<^verbatim>\<open>SPSCQueue.h\<close> with its wrapping 64-bit counters;
  \<open>QueueThreads\<close> interleaves the atomic accesses of its two threads and proves order, bound and freedom from
  races. \<open>ManyProducers\<close> does the same for \<^verbatim>\<open>MPSCQueue.h\<close>, the queue of incoming orders, with any number of
  producers. \<open>Offloader\<close> is \<^verbatim>\<open>KafkaOffloader.h\<close>, batch by batch: nothing accepted is lost at shutdown, and a
  batch the producer refuses costs the contestant the verdict.

  \<^bold>\<open>Gateway.\<close> \<open>Gateway\<close> is \<open>handleClientData\<close> of \<^verbatim>\<open>TCPServer.cpp\<close> behind the upgrade, over the buffers of all
  clients: frames, unmasking, \<open>OrderMessage\<close>s of \<^verbatim>\<open>Protocol.h\<close>, enqueueing. \<open>GatewayStream\<close> proves that the
  buffers implement a decoder of byte streams wherever the bytes are cut, \<open>GatewayOrders\<close> that with all
  connections interleaved the orders made are an interleaving of what the bots sent, and \<open>GatewayVerdict\<close>
  composes bots, gateway, engine and scoring worker: from the sockets to the verdict.

  \<^bold>\<open>Bots.\<close> \<open>Handshake\<close> has SHA-1, base64 and the upgrade of both sides (\<open>Bot.connect\<close> and \<^verbatim>\<open>TCPServer.cpp\<close>):
  the bot's request is accepted and the answer is what it checks for. \<open>Bots\<close> is the class \<open>Bot\<close>: backoff,
  accounting, order packing, frames. \<open>BotFleet\<close> has the three strategies and the reporter; quotes never
  cross, order ids of different bots do not meet. \<open>FleetMain\<close> is \<open>main\<close> of the fleet. \<open>Sdk\<close> is the contestant's
  harness and stock strategy. Everything an \<open>await\<close> may let happen is an input at that point.

  \<^bold>\<open>Benchmark.\<close> \<open>BenchFleet\<close> (\<open>parse_fleet_ops\<close>, \<open>parse_fleet_totals\<close>), \<open>BenchStats\<close> and \<open>BenchSummary\<close>
  (\<open>summarize\<close>, \<open>aggregate\<close>), \<open>BenchHarvest\<close> (\<open>harvest_scoring_samples\<close>), \<open>BenchReport\<close>
  (\<open>write_markdown\<close>), \<open>BenchRun\<close> and \<open>BenchRuns\<close> (compose, the readiness wait, restart, \<open>main\<close>),
  \<open>BenchLaunch\<close> (\<open>parse_args\<close>, and that the fleet does and reports what the benchmark asks and reads),
  \<open>BenchVerdict\<close> (from the engine's bytes to the benchmark's verdict).

  \<^bold>\<open>Orchestrator.\<close> \<open>OrchModel\<close> (cluster objects and calls), \<open>OrchBuild\<close> (\<open>auto_detect_and_build\<close>),
  \<open>Orchestrator\<close> (the other methods and \<open>main\<close>), \<open>OrchRuns\<close> and \<open>OrchSafety\<close> (a pod is created only when
  isolated, built, scored and alone; nothing is left behind; a run ends). A \<open>world\<close> answers or refuses each
  call from the trace of those before, so every theorem covers every failure at every point.

  \<^bold>\<open>Web service.\<close> \<open>Api\<close> (\<open>read_leaderboard\<close>, \<open>receive_submission\<close>, the generator of \<open>leaderboard_stream\<close>),
  \<open>ApiBoard\<close> (it shows what the workers published), \<open>ApiUpload\<close> (an upload touches its own directory only and
  is all or nothing), \<open>ApiStream\<close> (each event is framed), \<open>ApiTypes\<close> (the rows are typed). \<open>Launches\<close> follows
  a submission through the three command lines to the Redis commands about it.

  \<^bold>\<open>Bounds and fuel.\<close> Loops over data are structural recursions. Loops that wait for the outside world take
  fuel and end as \<open>Unfinished\<close> when it is used up; what fuel suffices is a theorem: more than the
  duration and 31 rounds for the agent, more than the reads the cluster needs to confirm the deletion for the
  old pod, 62 tests for the benchmark's readiness wait. The shortest decimal of a float is searched up to
  1400 digits, more than any binary64 value has. The JSON reader's fuel is the length of its text, and the
  round trips show it suffices. A stopped Kafka thread ends within \<open>2 ^ 18 + 3\<close> steps. Exactness of counters
  converted to floats is claimed up to \<open>2 ^ 53\<close>. The order queue's counters are taken not to wrap: past
  \<open>2 ^ 63\<close> orders a producer suspended all that time could mistake an old position for a new one.

  \<^bold>\<open>Not modelled.\<close> The memory pool (unused), the configuration of the Kafka producer, the engine's latency
  histograms and metrics thread (pure output), the epoll loop and the start and stop of the gateway's thread;
  the routing and middleware of the web framework, and the Redis, Kafka and Kubernetes clients (libraries:
  their answers are inputs, any answer and any exception); what a program only prints for people; the React leaderboard, Terraform, Kubernetes manifests, compose and Docker
  files (no program logic in the sense of this development). Python's limit of 4300 digits on conversions
  between integers and text is not modelled: no figure here comes near it.
\<close>

end
